(* ===== verification/Prelude.thy ===== *)
theory Prelude
  imports Main "HOL-Library.Word" "HOL-Library.AList" "HOL-Library.Char_ord"
    "HOL-Library.List_Lexorder" "HOL-Library.Multiset"
begin

text \<open>
  What the components share: the names of Go's machine integers, the reading of Go maps as
  association lists, Go's truncating division, and the facts on lists that the routing, queue
  and registry theories use.

  A Go \<open>int\<close> is 64 bits wide on every platform the repository builds for, so \<open>int\<close> and
  \<open>int64\<close> are both \<open>64 word\<close>: \<open>+\<close> and \<open>*\<close> wrap, and comparisons are signed
  (\<open>\<le>s\<close>, \<open><s\<close>, that is, comparisons of \<open>sint\<close>).
  Go strings are byte strings, compared bytewise, which is the order of
  \<open>HOL-Library.Char_ord\<close> and \<open>HOL-Library.List_Lexorder\<close>.
\<close>

type_synonym go_int = "64 word"
type_synonym int64 = "64 word"
type_synonym int32 = "32 word"

text \<open>An instant (\<open>time.Time\<close>) is the number of nanoseconds since the Unix epoch.\<close>

type_synonym instant = int

text \<open>A Go map, as the list of its entries in the order an iteration meets them.\<close>

type_synonym ('k, 'v) gomap = "('k \<times> 'v) list"

named_theorems inv_intro "introduction rules for the components' invariants"
named_theorems step_simps "how an operation changes the observations of a state"

section \<open>Truncating division\<close>

text \<open>Go's integer division rounds towards zero.\<close>

definition quot :: "int \<Rightarrow> int \<Rightarrow> int" where
  "quot a b = sgn a * sgn b * (\<bar>a\<bar> div \<bar>b\<bar>)"

lemma quot_nonneg [simp]: "0 \<le> a \<Longrightarrow> 0 < b \<Longrightarrow> quot a b = a div b"
  by (cases "a = 0") (auto simp: quot_def)

lemma quot_abs_le: "0 < b \<Longrightarrow> \<bar>quot a b\<bar> \<le> \<bar>a\<bar>"
proof -
  assume b: "0 < b"
  have "\<bar>a\<bar> div b \<le> \<bar>a\<bar> div 1"
    using b by (intro zdiv_mono2) auto
  moreover have "0 \<le> \<bar>a\<bar> div b"
    using b by (intro pos_imp_zdiv_nonneg_iff [THEN iffD2]) auto
  ultimately show ?thesis
    using b by (auto simp: quot_def abs_mult sgn_if)
qed

section \<open>Signed readings of 64-bit words\<close>

lemma sint64_range: "- (2 ^ 63) \<le> sint (w :: 64 word)" "sint (w :: 64 word) < 2 ^ 63"
  using sint_ge [of w] sint_lt [of w] by simp_all

lemma sint64_0_iff: "sint (w :: 64 word) = 0 \<longleftrightarrow> w = 0"
  by (metis signed_word_eqI sint_0)

lemma sint64_of_int:
  "- (2 ^ 63) \<le> i \<Longrightarrow> i < 2 ^ 63 \<Longrightarrow> sint (word_of_int i :: 64 word) = i"
  by (simp add: sint_sbintrunc' signed_take_bit_int_eq_self)

lemma sint64_inc: "sint (w :: 64 word) < 2 ^ 63 - 1 \<Longrightarrow> sint (w + 1) = sint w + 1"
proof -
  assume "sint w < 2 ^ 63 - 1"
  then have "signed_take_bit 63 (sint w + 1) = sint w + 1"
    using sint64_range [of w] by (intro signed_take_bit_int_eq_self) auto
  then show ?thesis
    by (simp add: sint_word_ariths)
qed

section \<open>Sorted lists\<close>

text \<open>
  Sorting by distinct keys gives the same list whatever the order of the input: the reason a
  sorted snapshot of a Go map does not depend on the map's iteration order.
\<close>

lemma sort_key_unique:
  fixes f :: "'a \<Rightarrow> 'b::linorder"
  assumes "mset xs = mset ys" and "distinct (map f xs)"
  shows "sort_key f xs = sort_key f ys"
proof -
  have set_eq: "set xs = set ys"
    using assms(1) by (rule mset_eq_setD)
  have "mset (map f xs) = mset (map f ys)"
    using assms(1) by simp
  then have "distinct (map f ys)"
    using assms(2) mset_eq_imp_distinct_iff by blast
  moreover have inj: "inj_on f (set xs)"
    using assms(2) by (simp add: distinct_map)
  moreover have "distinct (map f (sort_key f zs)) \<longleftrightarrow> distinct (map f zs)" for zs
    by (rule mset_eq_imp_distinct_iff) simp
  ultimately show ?thesis
    using assms set_eq
    by (intro map_sorted_distinct_set_unique [where f = f]) auto
qed

section \<open>Splitting strings\<close>

text \<open>\<open>strings.Split\<close> at a one-byte separator.\<close>

fun split_at :: "char \<Rightarrow> string \<Rightarrow> string list" where
  "split_at sep [] = [[]]"
| "split_at sep (c # cs) =
     (if c = sep then [] # split_at sep cs
      else (case split_at sep cs of p # ps \<Rightarrow> (c # p) # ps | [] \<Rightarrow> [[c]]))"

lemma split_at_parts:
  "concat (map (\<lambda>p. p @ [sep]) (split_at sep s)) = s @ [sep]"
  "p \<in> set (split_at sep s) \<Longrightarrow> sep \<notin> set p"
  by (induction sep s arbitrary: p rule: split_at.induct) (auto split: list.splits if_splits)

text \<open>The separator-free lists of parts are exactly the inputs' splittings.\<close>

lemma split_at_join:
  "ps \<noteq> [] \<Longrightarrow> \<forall>p \<in> set ps. sep \<notin> set p \<Longrightarrow> split_at sep (butlast (concat (map (\<lambda>p. p @ [sep]) ps))) = ps"
proof (induction ps)
  case (Cons p ps)
  have one: "sep \<notin> set p \<Longrightarrow> split_at sep p = [p]" for p
    by (induction p) auto
  have app: "sep \<notin> set p \<Longrightarrow> split_at sep (p @ sep # q) = p # split_at sep q" for p q
    by (induction p) auto
  show ?case
  proof (cases ps)
    case Nil
    then show ?thesis
      using Cons.prems one by (simp add: butlast_append)
  next
    case (Cons p' ps')
    then have "concat (map (\<lambda>p. p @ [sep]) ps) \<noteq> []"
      by simp
    then have "butlast (concat (map (\<lambda>p. p @ [sep]) (p # ps))) = p @ sep # butlast (concat (map (\<lambda>p. p @ [sep]) ps))"
      by (simp add: butlast_append)
    then show ?thesis
      using Cons.prems Cons.IH app Cons by simp
  qed
qed simp

text \<open>A sum over a list of which one element is replaced.\<close>

lemma sum_list_map_update:
  fixes f :: "'a \<Rightarrow> 'b :: comm_monoid_add"
  assumes "i < length xs"
  shows "(\<Sum>x\<leftarrow>xs[i := y]. f x) + f (xs ! i) = (\<Sum>x\<leftarrow>xs. f x) + f y"
  using assms
proof (induction xs arbitrary: i)
  case (Cons x xs)
  then show ?case
    by (cases i) (simp_all add: ac_simps)
qed simp

end
