(* ===== verification/Floats.thy ===== *)
theory Floats
  imports Prelude
begin

text \<open>
  The floating-point arithmetic the Go services use: conversions of integers to \<open>float64\<close>,
  sums and products of integer-valued \<open>float64\<close> numbers (the worker score), and the
  conversions between \<open>float32\<close> and \<open>float64\<close> of feature vectors and confidences. All of
  them are one operation, rounding to nearest with ties to even at a given precision.
\<close>

section \<open>Rounding to nearest, ties to even\<close>

text \<open>\<open>rne k m\<close> is \<open>m / 2^k\<close> rounded to the nearest natural number, ties to even.\<close>

definition rne :: "nat \<Rightarrow> nat \<Rightarrow> nat" where
  "rne k m =
     (let q = m div 2 ^ k; r = m mod 2 ^ k
      in if 2 * r > 2 ^ k \<or> (2 * r = 2 ^ k \<and> odd q) then q + 1 else q)"

fun bit_len :: "nat \<Rightarrow> nat" where
  "bit_len n = (if n = 0 then 0 else Suc (bit_len (n div 2)))"

declare bit_len.simps [simp del]

text \<open>A magnitude rounded to \<open>p\<close> significant bits.\<close>

definition round_mag :: "nat \<Rightarrow> nat \<Rightarrow> nat" where
  "round_mag p n = (let k = bit_len n - p in rne k n * 2 ^ k)"

text \<open>
  The \<open>float64\<close> nearest to an integer. A sum, difference or product of two integer-valued
  \<open>float64\<close> numbers is an integer, so its \<open>float64\<close> result is \<open>f64_int\<close> of the exact one
  (below the overflow threshold, which no sum or product of the services comes near).
\<close>

definition f64_int :: "int \<Rightarrow> int" where
  "f64_int x = sgn x * int (round_mag 53 (nat \<bar>x\<bar>))"

section \<open>Bit lengths\<close>

lemma bit_len_0 [simp]: "bit_len 0 = 0"
  by (subst bit_len.simps) simp

lemma bit_len_le_iff: "bit_len n \<le> k \<longleftrightarrow> n < 2 ^ k"
proof (induction n arbitrary: k rule: bit_len.induct)
  case (1 n)
  show ?case
  proof (cases "n = 0")
    case False
    then show ?thesis
      using "1.IH"
      by (cases k) (auto simp: bit_len.simps [of n] less_mult_imp_div_less div_less_iff_less_mult mult.commute)
  qed simp
qed

lemma bit_len_bounds:
  assumes "0 < n"
  shows "2 ^ (bit_len n - 1) \<le> n" and "n < 2 ^ bit_len n" and "0 < bit_len n"
proof -
  show "n < 2 ^ bit_len n"
    using bit_len_le_iff by blast
  show pos: "0 < bit_len n"
    using assms by (subst bit_len.simps) simp
  show "2 ^ (bit_len n - 1) \<le> n"
    using bit_len_le_iff [of n "bit_len n - 1"] pos by auto
qed

lemma bit_len_mono: "m \<le> n \<Longrightarrow> bit_len m \<le> bit_len n"
  using bit_len_le_iff [of m "bit_len n"] bit_len_le_iff [of n "bit_len n"] by simp

section \<open>Laws of the rounding\<close>

lemma rne_0 [simp]: "rne 0 m = m"
  by (simp add: rne_def)

lemma rne_exact: "2 ^ k dvd m \<Longrightarrow> rne k m * 2 ^ k = m"
  by (auto simp: rne_def Let_def elim!: dvdE)

lemma rne_div: "rne k m = m div 2 ^ k \<or> rne k m = m div 2 ^ k + 1"
  by (auto simp: rne_def Let_def)

lemma rne_mono:
  assumes "m \<le> n"
  shows "rne k m \<le> rne k n"
proof (cases "m div 2 ^ k = n div 2 ^ k")
  case True
  then have "m mod 2 ^ k \<le> n mod 2 ^ k"
    using assms by (metis add_le_cancel_left mult_div_mod_eq)
  with True show ?thesis
    by (auto simp: rne_def Let_def)
next
  case False
  then have "m div 2 ^ k + 1 \<le> n div 2 ^ k"
    using assms div_le_mono [of m n "2 ^ k"] by simp
  then show ?thesis
    using rne_div [of k m] rne_div [of k n] by linarith
qed

lemma rne_error: "\<bar>int (rne k m * 2 ^ k) - int m\<bar> * 2 \<le> 2 ^ k"
proof -
  define q r where "q = m div 2 ^ k" and "r = m mod 2 ^ k"
  have m: "m = q * 2 ^ k + r" and r: "r < 2 ^ k"
    by (simp_all add: q_def r_def div_mult_mod_eq)
  have i: "int m = int q * 2 ^ k + int r"
    by (simp add: m)
  have r': "int r < 2 ^ k"
    using r by (metis of_nat_less_iff of_nat_numeral of_nat_power)
  show ?thesis
  proof (cases "2 * r > 2 ^ k \<or> (2 * r = 2 ^ k \<and> odd q)")
    case True
    then have "rne k m = q + 1"
      by (simp add: rne_def Let_def q_def r_def)
    moreover have "2 ^ k \<le> 2 * r"
      using True by auto
    then have "(2::int) ^ k \<le> 2 * int r"
      by (metis of_nat_le_iff of_nat_mult of_nat_numeral of_nat_power)
    ultimately show ?thesis
      using i r' by (simp add: algebra_simps abs_if)
  next
    case False
    then have "rne k m = q"
      by (simp add: rne_def Let_def q_def r_def)
    moreover have "2 * r \<le> 2 ^ k"
      using False by auto
    then have "2 * int r \<le> (2::int) ^ k"
      by (metis of_nat_le_iff of_nat_mult of_nat_numeral of_nat_power)
    ultimately show ?thesis
      using i by (simp add: algebra_simps abs_if)
  qed
qed

lemma round_mag_exact: "n < 2 ^ p \<Longrightarrow> round_mag p n = n"
  using bit_len_le_iff [of n p] by (simp add: round_mag_def)

lemma rne_pow: "rne k (2 ^ (k + j)) = 2 ^ j"
  by (simp add: rne_def power_add Let_def)

lemma round_mag_upper:
  assumes "n < 2 ^ (p + k)" and "bit_len n - p = k"
  shows "round_mag p n \<le> 2 ^ (p + k)"
proof -
  have "rne k n \<le> rne k (2 ^ (k + p))"
    using assms(1) by (intro rne_mono) (simp add: add.commute)
  then show ?thesis
    using assms(2) by (simp add: round_mag_def rne_pow) (simp add: power_add)
qed

lemma round_mag_lower:
  assumes "0 < p" and "0 < bit_len n - p"
  shows "2 ^ (bit_len n - 1) \<le> round_mag p n"
proof -
  let ?k = "bit_len n - p"
  have n: "0 < n"
    using assms(2) by (cases n) auto
  have split: "bit_len n - 1 = ?k + (p - 1)"
    using assms by simp
  have "rne ?k (2 ^ (?k + (p - 1))) \<le> rne ?k n"
    using bit_len_bounds(1) [OF n, unfolded split] by (rule rne_mono)
  then have "2 ^ (p - 1) * 2 ^ ?k \<le> rne ?k n * 2 ^ ?k"
    by (simp only: rne_pow mult_le_mono1)
  then show ?thesis
    by (simp only: round_mag_def Let_def split power_add mult.commute)
qed

lemma round_mag_mono:
  assumes "0 < p" and "m \<le> n"
  shows "round_mag p m \<le> round_mag p n"
proof (cases "bit_len m - p = bit_len n - p")
  case True
  then show ?thesis
    using rne_mono [OF assms(2)] by (simp add: round_mag_def Let_def)
next
  case False
  then have lt: "bit_len m < bit_len n" and k: "0 < bit_len n - p"
    using bit_len_mono [OF assms(2)] by linarith+
  have "round_mag p m \<le> 2 ^ max p (bit_len m)"
  proof (cases "bit_len m \<le> p")
    case True
    then have "m < 2 ^ p"
      by (simp add: bit_len_le_iff)
    then show ?thesis
      using True by (simp add: round_mag_exact max_def)
  next
    case False
    then show ?thesis
      using round_mag_upper [of m p "bit_len m - p"] bit_len_le_iff [of m "bit_len m"]
      by (simp add: max_def)
  qed
  also have "\<dots> \<le> 2 ^ (bit_len n - 1)"
    using lt k by (intro power_increasing) auto
  also have "\<dots> \<le> round_mag p n"
    using round_mag_lower [OF assms(1) k] .
  finally show ?thesis .
qed

section \<open>The type \<open>flt\<close>\<close>

text \<open>
  A floating-point number: \<open>Fin s m e\<close> is \<open>m * 2^e\<close>, negated when \<open>s\<close> (so both zeros
  exist). \<open>float32\<close> and \<open>float64\<close> values are numbers of this type; widening a \<open>float32\<close> to a
  \<open>float64\<close> does not change the number, and narrowing rounds it.
\<close>

datatype flt = NaN | Inf bool | Fin bool nat int

definition is_finite :: "flt \<Rightarrow> bool" where
  "is_finite x = (case x of Fin _ _ _ \<Rightarrow> True | _ \<Rightarrow> False)"

definition is_f32 :: "flt \<Rightarrow> bool" where
  "is_f32 x = (case x of
       Fin _ m e \<Rightarrow> m = 0 \<or> (bit_len m \<le> 24 \<and> - 149 \<le> e \<and> int (bit_len m) + e \<le> 128)
     | _ \<Rightarrow> True)"

text \<open>
  The conversion \<open>float32(f)\<close> of a \<open>float64\<close>: 24 significant bits, no exponent below -149
  (subnormals), infinity from 2^128 on.
\<close>

definition narrow32 :: "flt \<Rightarrow> flt" where
  "narrow32 x = (case x of
       NaN \<Rightarrow> NaN
     | Inf s \<Rightarrow> Inf s
     | Fin s m e \<Rightarrow>
         (if m = 0 then Fin s 0 e
          else let k = nat (max (int (bit_len m) - 24) (- 149 - e));
                   q = rne k m;
                   m' = (if q = 2 ^ 24 then 2 ^ 23 else q);
                   e' = e + int k + (if q = 2 ^ 24 then 1 else 0)
               in if 128 < int (bit_len m') + e' then Inf s else Fin s m' e'))"

text \<open>The conversion \<open>float64(x)\<close> of a \<open>float32\<close>.\<close>

definition widen64 :: "flt \<Rightarrow> flt" where
  "widen64 x = x"

text \<open>The \<open>float64\<close> of an integer literal: rounded to 53 bits, an error from 2^1024 on.\<close>

definition f64_of_int :: "int \<Rightarrow> flt option" where
  "f64_of_int n =
     (let m = nat \<bar>f64_int n\<bar> in if 1024 < bit_len m then None else Some (Fin (n < 0) m 0))"

text \<open>
  Narrowing what was widened gives the number back: a feature vector or a confidence that
  started as \<open>float32\<close> is not changed by a passage through \<open>float64\<close>.
\<close>

lemma narrow_widen: "is_f32 x \<Longrightarrow> narrow32 (widen64 x) = x"
proof (cases x)
  case (Fin s m e)
  assume f32: "is_f32 x"
  show ?thesis
  proof (cases "m = 0")
    case False
    then have k: "nat (max (int (bit_len m) - 24) (- 149 - e)) = 0" and m: "m \<noteq> 2 ^ 24"
      and ov: "int (bit_len m) + e \<le> 128"
      using f32 bit_len_le_iff [of m 24] by (auto simp: Fin is_f32_def)
    show ?thesis
      using False m ov unfolding Fin narrow32_def widen64_def by (simp only: flt.case k Let_def) simp
  qed (simp add: Fin narrow32_def widen64_def)
qed (simp_all add: narrow32_def widen64_def)

lemma rne_le_pow: "m < 2 ^ (k + j) \<Longrightarrow> rne k m \<le> 2 ^ j"
  using rne_mono [of m "2 ^ (k + j)" k] by (simp add: rne_pow)

lemma bit_len_pow [simp]: "bit_len (2 ^ n) = Suc n"
  using bit_len_bounds [of "2 ^ n"] bit_len_le_iff [of "2 ^ n" "Suc n"] bit_len_le_iff [of "2 ^ n" n]
  by simp

lemma is_f32_narrow32: "is_f32 (narrow32 x)"
proof (cases x)
  case (Fin s m e)
  define k where "k = nat (max (int (bit_len m) - 24) (- 149 - e))"
  have "bit_len m \<le> k + 24" and e: "- 149 \<le> e + int k"
    by (auto simp: k_def)
  then have "rne k m \<le> 2 ^ 24"
    by (intro rne_le_pow) (simp add: bit_len_le_iff)
  then have "rne k m \<noteq> 2 ^ 24 \<Longrightarrow> bit_len (rne k m) \<le> 24"
    by (simp add: bit_len_le_iff)
  moreover have "bit_len (8388608 :: nat) = 24"
    using bit_len_pow [of 23] by simp
  ultimately show ?thesis
    using e by (auto simp: Fin is_f32_def narrow32_def Let_def simp flip: k_def)
qed (simp_all add: is_f32_def narrow32_def)

lemma narrow32_idem [simp]: "narrow32 (narrow32 x) = narrow32 x"
  using narrow_widen [OF is_f32_narrow32] by (simp add: widen64_def)

section \<open>Integers as \<open>float64\<close>\<close>

lemma f64_int_0 [simp]: "f64_int 0 = 0"
  by (simp add: f64_int_def)

lemma f64_int_exact: "\<bar>x\<bar> < 2 ^ 53 \<Longrightarrow> f64_int x = x"
proof -
  assume "\<bar>x\<bar> < 2 ^ 53"
  then have "nat \<bar>x\<bar> < 2 ^ 53"
    by (simp add: nat_less_iff)
  then show ?thesis
    by (simp add: f64_int_def round_mag_exact mult_sgn_abs)
qed

lemma f64_int_pow: "f64_int (2 ^ k) = 2 ^ k"
proof -
  have "(2::nat) ^ (Suc k - 53) dvd 2 ^ k"
    by (rule le_imp_power_dvd) simp
  then show ?thesis
    by (simp add: f64_int_def round_mag_def Let_def nat_power_eq rne_exact)
qed

lemma f64_int_minus: "f64_int (- x) = - f64_int x"
  by (simp add: f64_int_def sgn_minus)

lemma f64_int_sign: "0 \<le> x \<Longrightarrow> 0 \<le> f64_int x" "x \<le> 0 \<Longrightarrow> f64_int x \<le> 0"
  by (auto simp: f64_int_def sgn_if)

lemma f64_int_mono: "x \<le> y \<Longrightarrow> f64_int x \<le> f64_int y"
proof -
  assume le: "x \<le> y"
  consider "0 \<le> x" | "y \<le> 0" | "x < 0" "0 < y"
    by linarith
  then show ?thesis
  proof cases
    case 1
    then have "round_mag 53 (nat \<bar>x\<bar>) \<le> round_mag 53 (nat \<bar>y\<bar>)"
      using le by (intro round_mag_mono) auto
    then show ?thesis
      using 1 le by (auto simp: f64_int_def sgn_if)
  next
    case 2
    then have "round_mag 53 (nat \<bar>y\<bar>) \<le> round_mag 53 (nat \<bar>x\<bar>)"
      using le by (intro round_mag_mono) auto
    then show ?thesis
      using 2 le by (auto simp: f64_int_def sgn_if round_mag_def)
  next
    case 3
    then show ?thesis
      using f64_int_sign(2) [of x] f64_int_sign(1) [of y] by simp
  qed
qed

lemma f64_int_abs_le: "\<bar>x\<bar> \<le> 2 ^ k \<Longrightarrow> \<bar>f64_int x\<bar> \<le> 2 ^ k"
proof -
  assume x: "\<bar>x\<bar> \<le> 2 ^ k"
  then have "f64_int (- (2 ^ k)) \<le> f64_int x" and "f64_int x \<le> f64_int (2 ^ k)"
    by (intro f64_int_mono; linarith)+
  then show ?thesis
    by (simp add: f64_int_minus f64_int_pow abs_le_iff)
qed

end
