(* ===== verification/Models.thy ===== *)
theory Models
  imports Floats
begin

text \<open>
  The data the services exchange: the domain types of \<open>shared/pkg/models/models.go\<close> and the
  messages of \<open>shared/proto/inference/v1\<close> (the generated Go structs). A record field carries
  its type's initials in front of the Go field name, because HOL record fields share one name
  space. Enumerations that Go declares as a \<open>string\<close> or an \<open>int32\<close> keep that type: any other
  value of it can arrive over the wire, and the code's \<open>default\<close> branches are about those.
\<close>

section \<open>Domain types\<close>

type_synonym Precision = string

definition PrecisionFP32 :: Precision where "PrecisionFP32 = ''fp32''"
definition PrecisionFP16 :: Precision where "PrecisionFP16 = ''fp16''"
definition PrecisionINT8 :: Precision where "PrecisionINT8 = ''int8''"
definition PrecisionINT4 :: Precision where "PrecisionINT4 = ''int4''"

lemmas precision_defs = PrecisionFP32_def PrecisionFP16_def PrecisionINT8_def PrecisionINT4_def

type_synonym Priority = go_int

definition PriorityNormal :: Priority where "PriorityNormal = 0"
definition PriorityHigh :: Priority where "PriorityHigh = 1"
definition PriorityCritical :: Priority where "PriorityCritical = 2"

lemmas priority_defs = PriorityNormal_def PriorityHigh_def PriorityCritical_def

record InferenceJob =
  job_ID :: string
  job_VehicleID :: string
  job_ModelName :: string
  job_ModelVersion :: string
  job_PreferPrecision :: Precision
  job_Features :: "flt list"
  job_Priority :: Priority
  job_SubmittedAt :: instant
  job_Attempt :: go_int
  job_MaxAttempts :: go_int

record InferenceResult =
  res_JobID :: string
  res_WorkerID :: string
  res_ModelName :: string
  res_ModelVersion :: string
  res_PrecisionUsed :: Precision
  res_Output :: "flt list"
  res_PredictedLabel :: string
  res_Confidence :: flt
  res_LatencyMS :: int64
  res_QueueTimeMS :: int64
  res_Error :: string

type_synonym ModelStage = string

definition StageStaging :: ModelStage where "StageStaging = ''staging''"
definition StageProduction :: ModelStage where "StageProduction = ''production''"
definition StageArchived :: ModelStage where "StageArchived = ''archived''"

lemmas stage_defs = StageStaging_def StageProduction_def StageArchived_def

lemma stage_neqs [simp]:
  "StageStaging \<noteq> StageProduction" "StageProduction \<noteq> StageStaging"
  "StageStaging \<noteq> StageArchived" "StageArchived \<noteq> StageStaging"
  "StageProduction \<noteq> StageArchived" "StageArchived \<noteq> StageProduction"
  by (simp_all add: stage_defs)

record ModelVersion =
  mv_ModelName :: string
  mv_Version :: string
  mv_Stage :: ModelStage
  mv_Precision :: Precision
  mv_ArtifactPath :: string
  mv_Metrics :: "(string, flt) gomap"
  mv_TrafficPct :: go_int
  mv_CreatedAt :: instant

record WorkerInfo =
  wi_ID :: string
  wi_SupportedModels :: "string list"
  wi_GPUAvailable :: bool
  wi_MaxPrecision :: Precision
  wi_LastLatencyMS :: int64
  wi_InFlight :: go_int
  wi_LastHeartbeat :: instant

section \<open>The protocol messages\<close>

type_synonym pb_Precision = int32

definition PRECISION_UNSPECIFIED :: pb_Precision where "PRECISION_UNSPECIFIED = 0"
definition PRECISION_FP32 :: pb_Precision where "PRECISION_FP32 = 1"
definition PRECISION_FP16 :: pb_Precision where "PRECISION_FP16 = 2"
definition PRECISION_INT8 :: pb_Precision where "PRECISION_INT8 = 3"
definition PRECISION_INT4 :: pb_Precision where "PRECISION_INT4 = 4"

lemmas pb_precision_defs =
  PRECISION_UNSPECIFIED_def PRECISION_FP32_def PRECISION_FP16_def PRECISION_INT8_def
  PRECISION_INT4_def

type_synonym pb_Priority = int32

definition PRIORITY_NORMAL :: pb_Priority where "PRIORITY_NORMAL = 0"
definition PRIORITY_HIGH :: pb_Priority where "PRIORITY_HIGH = 1"
definition PRIORITY_CRITICAL :: pb_Priority where "PRIORITY_CRITICAL = 2"

lemmas pb_priority_defs = PRIORITY_NORMAL_def PRIORITY_HIGH_def PRIORITY_CRITICAL_def

record InferenceRequest =
  req_RequestId :: string
  req_VehicleId :: string
  req_ModelName :: string
  req_ModelVersion :: string
  req_PreferredPrecision :: pb_Precision
  req_Features :: "flt list"
  req_Priority :: pb_Priority
  req_SubmittedAtUnixMs :: int64

record InferenceResponse =
  resp_RequestId :: string
  resp_WorkerId :: string
  resp_ModelName :: string
  resp_ModelVersion :: string
  resp_PrecisionUsed :: pb_Precision
  resp_Output :: "flt list"
  resp_PredictedLabel :: string
  resp_Confidence :: flt
  resp_LatencyMs :: int64
  resp_QueueTimeMs :: int64

record HealthResponse =
  hr_Status :: string
  hr_ActiveWorkers :: int32
  hr_QueueDepth :: int32
  hr_RouterVersion :: string

record RegisterWorkerRequest =
  rw_WorkerId :: string
  rw_SupportedModels :: "string list"
  rw_GpuAvailable :: bool
  rw_MaxPrecision :: pb_Precision
  rw_Endpoint :: string

section \<open>Time\<close>

text \<open>
  \<open>UnixMilli\<close> of an instant (rounded down, wrapping at 64 bits), and the milliseconds of
  \<open>time.Since\<close>: the difference saturates at the range of \<open>time.Duration\<close>, then divides
  towards zero.
\<close>

definition UnixMilli :: "instant \<Rightarrow> int64" where
  "UnixMilli t = word_of_int (t div 1000000)"

definition since_ms :: "instant \<Rightarrow> instant \<Rightarrow> int64" where
  "since_ms now start =
     word_of_int (quot (max (- (2 ^ 63)) (min (2 ^ 63 - 1) (now - start))) 1000000)"

end
