(* ===== verification/Selector.thy ===== *)
theory Selector
  imports Models
begin

text \<open>
  The routing policy, \<open>services/router-go/internal/routing/selector.go\<close>: filter the live
  workers by model and precision, then pick the one with the least score.

  \<open>Select\<close> works on pointers, as the Go function does: \<open>at p\<close> is the worker that the pointer
  \<open>p\<close> leads to. The score is a \<open>float64\<close> computation on integers, modelled with the
  rounding of \<open>Floats\<close> after every operation.
\<close>

section \<open>The code\<close>

text \<open>\<open>routing.Worker\<close> embeds \<open>models.WorkerInfo\<close>.\<close>

record Worker = WorkerInfo +
  w_Endpoint :: string

definition precisionRank :: "(Precision, go_int) gomap" where
  "precisionRank =
     [(PrecisionINT4, 0), (PrecisionINT8, 1), (PrecisionFP16, 2), (PrecisionFP32, 3)]"

text \<open>Reading a missing key of a Go map gives the zero value.\<close>

definition rank_of :: "Precision \<Rightarrow> go_int" where
  "rank_of p = (case map_of precisionRank p of None \<Rightarrow> 0 | Some n \<Rightarrow> n)"

fun supports_loop :: "string list \<Rightarrow> string \<Rightarrow> bool" where
  "supports_loop [] modelName = False"
| "supports_loop (m # ms) modelName = (if m = modelName then True else supports_loop ms modelName)"

definition supportsModel :: "('a WorkerInfo_scheme) \<Rightarrow> string \<Rightarrow> bool" where
  "supportsModel w modelName = supports_loop (wi_SupportedModels w) modelName"

fun eligible_loop :: "('p \<Rightarrow> Worker) \<Rightarrow> 'p list \<Rightarrow> string \<Rightarrow> Precision \<Rightarrow> 'p list \<Rightarrow> 'p list" where
  "eligible_loop at [] modelName preferred eligible = eligible"
| "eligible_loop at (p # ps) modelName preferred eligible =
     (if \<not> supportsModel (at p) modelName then eligible_loop at ps modelName preferred eligible
      else if preferred \<noteq> [] \<and> sint (rank_of (wi_MaxPrecision (at p))) < sint (rank_of preferred)
        then eligible_loop at ps modelName preferred eligible
      else eligible_loop at ps modelName preferred (eligible @ [p]))"

definition loadWeight :: int where "loadWeight = 15"
definition gpuBonus :: int where "gpuBonus = 25"

definition MaxFloat64 :: int where
  "MaxFloat64 = (2 ^ 53 - 1) * 2 ^ 971"

text \<open>The operations are \<open>float64\<close> ones: every result is rounded.\<close>

definition worker_score :: "Priority \<Rightarrow> Worker \<Rightarrow> int" where
  "worker_score priority w =
     (let score = f64_int (f64_int (sint (wi_LastLatencyMS w))
                           + f64_int (f64_int (sint (wi_InFlight w)) * loadWeight))
      in if priority = PriorityCritical \<and> wi_GPUAvailable w then f64_int (score - gpuBonus)
         else score)"

fun best_loop :: "('p \<Rightarrow> int) \<Rightarrow> 'p list \<Rightarrow> 'p \<Rightarrow> int \<Rightarrow> 'p" where
  "best_loop score [] best bestScore = best"
| "best_loop score (p # ps) best bestScore =
     (if score p < bestScore then best_loop score ps p (score p)
      else best_loop score ps best bestScore)"

datatype select_error = NoEligibleWorker string Precision nat

definition Select ::
  "('p \<Rightarrow> Worker) \<Rightarrow> 'p list \<Rightarrow> string \<Rightarrow> Precision \<Rightarrow> Priority \<Rightarrow> select_error + 'p"
where
  "Select at ws modelName preferred priority =
     (case eligible_loop at ws modelName preferred [] of
        [] \<Rightarrow> Inl (NoEligibleWorker modelName preferred (length ws))
      | p # ps \<Rightarrow> Inr (best_loop (\<lambda>q. worker_score priority (at q)) (p # ps) p MaxFloat64))"

section \<open>The filter\<close>

definition eligible_for :: "string \<Rightarrow> Precision \<Rightarrow> Worker \<Rightarrow> bool" where
  "eligible_for modelName preferred w \<longleftrightarrow>
     modelName \<in> set (wi_SupportedModels w) \<and>
     (preferred = [] \<or> sint (rank_of preferred) \<le> sint (rank_of (wi_MaxPrecision w)))"

lemma supports_loop_iff: "supports_loop ms m \<longleftrightarrow> m \<in> set ms"
  by (induction ms) auto

lemma eligible_loop_eq:
  "eligible_loop at ws modelName preferred acc
     = acc @ filter (\<lambda>p. eligible_for modelName preferred (at p)) ws"
  by (induction ws arbitrary: acc)
     (auto simp: eligible_for_def supportsModel_def supports_loop_iff not_less)

section \<open>The search\<close>

text \<open>
  \<open>first_best f xs p\<close>: \<open>p\<close> is the first element of \<open>xs\<close> whose \<open>f\<close> is least.
\<close>

definition first_best :: "('p \<Rightarrow> int) \<Rightarrow> 'p list \<Rightarrow> 'p \<Rightarrow> bool" where
  "first_best f xs p \<longleftrightarrow>
     (\<exists>us vs. xs = us @ p # vs \<and> (\<forall>u\<in>set us. f p < f u) \<and> (\<forall>v\<in>set vs. f p \<le> f v))"

lemma first_best_hd: "\<forall>q\<in>set ps. f p \<le> f q \<Longrightarrow> first_best f (p # ps) p"
  unfolding first_best_def by (intro exI [of _ "[]"] exI [of _ ps]) simp

lemma first_best_Cons:
  assumes "first_best f ps q" and "f q < f p"
  shows "first_best f (p # ps) q"
proof -
  obtain us vs where "ps = us @ q # vs" "\<forall>u\<in>set us. f q < f u" "\<forall>v\<in>set vs. f q \<le> f v"
    using assms(1) by (auto simp: first_best_def)
  then show ?thesis
    using assms(2) unfolding first_best_def by (intro exI [of _ "p # us"] exI [of _ vs]) simp
qed

lemma first_best_in: "first_best f ps q \<Longrightarrow> q \<in> set ps"
  by (auto simp: first_best_def)

lemma first_best_least: "first_best f ps q \<Longrightarrow> p \<in> set ps \<Longrightarrow> f q \<le> f p"
  by (auto simp: first_best_def less_imp_le)

lemma best_loop_cases:
  "(\<forall>p\<in>set ps. b \<le> f p) \<and> best_loop f ps best b = best
   \<or> first_best f ps (best_loop f ps best b) \<and> f (best_loop f ps best b) < b"
proof (induction ps arbitrary: best b)
  case (Cons p ps)
  show ?case
  proof (cases "f p < b")
    case True
    then show ?thesis
      using Cons.IH [of "f p" p] by (auto intro: first_best_hd first_best_Cons)
  next
    case False
    then show ?thesis
      using Cons.IH [of b best] by (auto intro: first_best_Cons)
  qed
qed simp

lemma best_loop_first_best:
  assumes "\<And>q. f q < b"
  shows "first_best f (p # ps) (best_loop f (p # ps) best b)"
  using best_loop_cases [of "p # ps" b f best] assms by (auto simp: not_le [symmetric])

section \<open>Scores\<close>

lemma abs_sint64_le: "\<bar>sint (w :: 64 word)\<bar> \<le> 2 ^ 63"
  using sint64_range [of w] by linarith

lemma worker_score_bound: "\<bar>worker_score priority w\<bar> \<le> 2 ^ 70"
proof -
  let ?lat = "f64_int (sint (wi_LastLatencyMS w))" and ?inf = "f64_int (sint (wi_InFlight w))"
  have lat: "\<bar>?lat\<bar> \<le> 2 ^ 63" and inf: "\<bar>?inf\<bar> \<le> 2 ^ 63"
    using abs_sint64_le by (blast intro: f64_int_abs_le)+
  have "\<bar>?inf * loadWeight\<bar> \<le> 2 ^ 67"
    using inf by (simp add: loadWeight_def abs_mult)
  then have "\<bar>f64_int (?inf * loadWeight)\<bar> \<le> 2 ^ 67"
    by (rule f64_int_abs_le)
  then have "\<bar>?lat + f64_int (?inf * loadWeight)\<bar> \<le> 2 ^ 68"
    using lat by simp
  then have s: "\<bar>f64_int (?lat + f64_int (?inf * loadWeight))\<bar> \<le> 2 ^ 68"
    by (rule f64_int_abs_le)
  then have "\<bar>f64_int (?lat + f64_int (?inf * loadWeight)) - gpuBonus\<bar> \<le> 2 ^ 69"
    by (simp add: gpuBonus_def)
  then have "\<bar>f64_int (f64_int (?lat + f64_int (?inf * loadWeight)) - gpuBonus)\<bar> \<le> 2 ^ 69"
    by (rule f64_int_abs_le)
  then show ?thesis
    using s by (auto simp: worker_score_def Let_def)
qed

lemma MaxFloat64_big: "2 ^ 70 < MaxFloat64"
  by (simp add: MaxFloat64_def)

lemma worker_score_less_max: "worker_score priority w < MaxFloat64"
  using worker_score_bound [of priority w] MaxFloat64_big by linarith

text \<open>
  On latencies and loads below 2^48 no rounding happens, and the score is the formula of the
  comment on \<open>Select\<close>.
\<close>

definition ideal_score :: "Priority \<Rightarrow> Worker \<Rightarrow> int" where
  "ideal_score priority w =
     sint (wi_LastLatencyMS w) + sint (wi_InFlight w) * 15
       - (if priority = PriorityCritical \<and> wi_GPUAvailable w then 25 else 0)"

definition small_load :: "Worker \<Rightarrow> bool" where
  "small_load w \<longleftrightarrow> \<bar>sint (wi_LastLatencyMS w)\<bar> < 2 ^ 48 \<and> \<bar>sint (wi_InFlight w)\<bar> < 2 ^ 48"

lemma worker_score_exact: "small_load w \<Longrightarrow> worker_score priority w = ideal_score priority w"
  by (simp add: small_load_def worker_score_def ideal_score_def loadWeight_def gpuBonus_def
      Let_def f64_int_exact abs_less_iff)

section \<open>What \<open>Select\<close> returns\<close>

lemma Select_Inl_iff:
  "(\<exists>e. Select at ws m pref prio = Inl e) \<longleftrightarrow> (\<forall>p\<in>set ws. \<not> eligible_for m pref (at p))"
proof -
  have "(\<exists>e. Select at ws m pref prio = Inl e)
      \<longleftrightarrow> filter (\<lambda>p. eligible_for m pref (at p)) ws = []"
    by (simp add: Select_def eligible_loop_eq split: list.splits)
  then show ?thesis
    by (simp add: filter_empty_conv)
qed

lemma Select_Inr_first_best:
  assumes "Select at ws m pref prio = Inr p"
  shows "first_best (\<lambda>q. worker_score prio (at q))
           (filter (\<lambda>q. eligible_for m pref (at q)) ws) p"
proof -
  obtain q qs where qs: "filter (\<lambda>q. eligible_for m pref (at q)) ws = q # qs"
    and p: "p = best_loop (\<lambda>q. worker_score prio (at q)) (q # qs) q MaxFloat64"
    using assms by (auto simp: Select_def eligible_loop_eq simp del: best_loop.simps split: list.splits)
  show ?thesis
    unfolding qs p by (intro best_loop_first_best worker_score_less_max)
qed

lemma Select_sound:
  assumes "Select at ws m pref prio = Inr p"
  shows "p \<in> set ws" and "eligible_for m pref (at p)"
    and "\<And>q. q \<in> set ws \<Longrightarrow> eligible_for m pref (at q) \<Longrightarrow>
           worker_score prio (at p) \<le> worker_score prio (at q)"
  using Select_Inr_first_best [OF assms, THEN first_best_in]
    first_best_least [OF Select_Inr_first_best [OF assms]] by auto

end
