(* ===== verification/WorkerPool.thy ===== *)
theory WorkerPool
  imports Selector
begin

text \<open>
  What the router needs of its worker registry, as interfaces. \<open>worker_view\<close> is the reading
  side: a snapshot lists pointers to exactly the live workers, in strictly increasing order of
  their ids. \<open>worker_pool\<close> adds the writing side. The consequences for routing are proved
  here, from the interface alone; \<open>WorkerRegistry\<close> discharges the laws for the code.
\<close>

locale worker_view =
  fixes snapshot :: "instant \<Rightarrow> 'r \<Rightarrow> 'p list"
    and at :: "'r \<Rightarrow> 'p \<Rightarrow> Worker"
    and registered :: "'r \<Rightarrow> string \<Rightarrow> Worker option"
    and cutoff :: "instant \<Rightarrow> 'r \<Rightarrow> instant"
    and wf :: "'r \<Rightarrow> bool"
  assumes snapshot_workers:
      "wf r \<Longrightarrow> at r ` set (snapshot now r) = {w \<in> ran (registered r). cutoff now r < wi_LastHeartbeat w}"
    and snapshot_sorted: "wf r \<Longrightarrow> sorted_wrt (<) (map (\<lambda>p. wi_ID (at r p)) (snapshot now r))"
    and registered_id: "wf r \<Longrightarrow> registered r i = Some w \<Longrightarrow> wi_ID w = i"
begin

lemma snapshot_pointer:
  assumes "wf r" and "p \<in> set (snapshot now r)"
  shows "registered r (wi_ID (at r p)) = Some (at r p)" and "cutoff now r < wi_LastHeartbeat (at r p)"
proof -
  have "at r p \<in> {w \<in> ran (registered r). cutoff now r < wi_LastHeartbeat w}"
    using assms snapshot_workers by blast
  then show "registered r (wi_ID (at r p)) = Some (at r p)" "cutoff now r < wi_LastHeartbeat (at r p)"
    using registered_id [OF assms(1)] by (auto simp: ran_def)
qed

lemma live_in_snapshot:
  assumes "wf r" and "registered r i = Some w" and "cutoff now r < wi_LastHeartbeat w"
  obtains p where "p \<in> set (snapshot now r)" and "at r p = w"
proof -
  have "w \<in> at r ` set (snapshot now r)"
    using assms by (auto simp: snapshot_workers intro: ranI)
  then show thesis
    using that by blast
qed

text \<open>The ids of a snapshot identify its pointers, so it has as many entries as live workers.\<close>

lemma snapshot_distinct:
  assumes "wf r"
  shows "distinct (map (\<lambda>p. wi_ID (at r p)) (snapshot now r))"
  using snapshot_sorted [OF assms] by (simp add: strict_sorted_iff)

lemma snapshot_length:
  assumes "wf r"
  shows "length (snapshot now r)
    = card {i. \<exists>w. registered r i = Some w \<and> cutoff now r < wi_LastHeartbeat w}"
proof -
  let ?ids = "map (\<lambda>p. wi_ID (at r p)) (snapshot now r)"
  have "set ?ids = {i. \<exists>w. registered r i = Some w \<and> cutoff now r < wi_LastHeartbeat w}"
    using snapshot_pointer [OF assms] live_in_snapshot [OF assms] registered_id [OF assms]
    by (auto simp: image_iff) metis
  then show ?thesis
    using distinct_card [OF snapshot_distinct [OF assms]] by (metis length_map)
qed

text \<open>Routing over a snapshot picks a registered, live, eligible worker.\<close>

lemma route_sound:
  assumes "wf r" and "Select (at r) (snapshot now r) m pref prio = Inr p"
  shows "registered r (wi_ID (at r p)) = Some (at r p)"
    and "cutoff now r < wi_LastHeartbeat (at r p)" and "eligible_for m pref (at r p)"
  using snapshot_pointer [OF assms(1) Select_sound(1) [OF assms(2)]] Select_sound(2) [OF assms(2)]
  by auto

text \<open>
  Among all of those, it is the one with the least score, and of those with that score the one
  with the least id.
\<close>

lemma route_best:
  assumes "wf r" and sel: "Select (at r) (snapshot now r) m pref prio = Inr p"
    and w: "registered r i = Some w" "cutoff now r < wi_LastHeartbeat w" "eligible_for m pref w"
  shows "worker_score prio (at r p) < worker_score prio w
    \<or> worker_score prio (at r p) = worker_score prio w \<and> wi_ID (at r p) \<le> i"
proof -
  let ?f = "\<lambda>q. worker_score prio (at r q)"
  let ?el = "filter (\<lambda>q. eligible_for m pref (at r q)) (snapshot now r)"
  obtain us vs where split: "?el = us @ p # vs" and lt: "\<forall>u\<in>set us. ?f p < ?f u"
    and le: "\<forall>v\<in>set vs. ?f p \<le> ?f v"
    using Select_Inr_first_best [OF sel] by (auto simp: first_best_def)
  obtain q where q: "q \<in> set (snapshot now r)" "at r q = w"
    using live_in_snapshot [OF assms(1) w(1,2)] .
  have i: "wi_ID w = i"
    using registered_id [OF assms(1) w(1)] .
  have "sorted_wrt (\<lambda>a b. wi_ID (at r a) < wi_ID (at r b)) (snapshot now r)"
    using snapshot_sorted [OF assms(1)] by (simp add: sorted_wrt_map)
  then have "sorted_wrt (\<lambda>a b. wi_ID (at r a) < wi_ID (at r b)) (us @ p # vs)"
    unfolding split [symmetric] by (rule sorted_wrt_filter)
  then have vs: "\<forall>v\<in>set vs. wi_ID (at r p) < wi_ID (at r v)"
    by (simp add: sorted_wrt_append)
  have "q \<in> set (us @ p # vs)"
    unfolding split [symmetric] using q w(3) by simp
  then show ?thesis
    using lt le vs q(2) i by (auto simp: order_le_less)
qed

lemma route_fails_iff:
  assumes "wf r"
  shows "(\<exists>e. Select (at r) (snapshot now r) m pref prio = Inl e) \<longleftrightarrow>
    (\<forall>i w. registered r i = Some w \<longrightarrow> cutoff now r < wi_LastHeartbeat w \<longrightarrow> \<not> eligible_for m pref w)"
proof
  assume fails: "\<exists>e. Select (at r) (snapshot now r) m pref prio = Inl e"
  show "\<forall>i w. registered r i = Some w \<longrightarrow> cutoff now r < wi_LastHeartbeat w \<longrightarrow> \<not> eligible_for m pref w"
  proof (intro allI impI)
    fix i w
    assume "registered r i = Some w" "cutoff now r < wi_LastHeartbeat w"
    then obtain p where "p \<in> set (snapshot now r)" "at r p = w"
      using live_in_snapshot [OF assms] by blast
    then show "\<not> eligible_for m pref w"
      using fails Select_Inl_iff [of "at r" "snapshot now r" m pref prio] by blast
  qed
next
  assume none: "\<forall>i w. registered r i = Some w \<longrightarrow> cutoff now r < wi_LastHeartbeat w \<longrightarrow> \<not> eligible_for m pref w"
  then have "\<forall>p\<in>set (snapshot now r). \<not> eligible_for m pref (at r p)"
    using snapshot_pointer [OF assms] by blast
  then show "\<exists>e. Select (at r) (snapshot now r) m pref prio = Inl e"
    by (simp only: Select_Inl_iff)
qed

end

locale worker_pool = worker_view snapshot at registered cutoff wf
  for snapshot :: "instant \<Rightarrow> 'r \<Rightarrow> 'p list"
    and at :: "'r \<Rightarrow> 'p \<Rightarrow> Worker"
    and registered :: "'r \<Rightarrow> string \<Rightarrow> Worker option"
    and cutoff :: "instant \<Rightarrow> 'r \<Rightarrow> instant"
    and wf :: "'r \<Rightarrow> bool" +
  fixes register :: "instant \<Rightarrow> Worker \<Rightarrow> 'r \<Rightarrow> 'r"
    and heartbeat :: "instant \<Rightarrow> string \<Rightarrow> int64 \<Rightarrow> go_int \<Rightarrow> 'r \<Rightarrow> 'r"
    and beat :: "instant \<Rightarrow> int64 \<Rightarrow> go_int \<Rightarrow> Worker \<Rightarrow> Worker"
  assumes wf_register: "wf r \<Longrightarrow> wf (register now w r)"
    and wf_heartbeat: "wf r \<Longrightarrow> wf (heartbeat now i lat load r)"
    and registered_register:
      "wf r \<Longrightarrow> registered (register now w r) = (registered r)(wi_ID w \<mapsto> w\<lparr>wi_LastHeartbeat := now\<rparr>)"
    and registered_heartbeat:
      "wf r \<Longrightarrow> registered (heartbeat now i lat load r)
         = (registered r)(i := map_option (beat now lat load) (registered r i))"
    and cutoff_register: "cutoff t (register now w r) = cutoff t r"
    and cutoff_heartbeat: "cutoff t (heartbeat now i lat load r) = cutoff t r"
    and beat_time: "wi_LastHeartbeat (beat now lat load w) = now"
begin

text \<open>
  A worker that has just registered for a model can be routed to until its registration goes
  stale: a request it is eligible for does not fail.
\<close>

lemma registered_is_routable:
  assumes "wf r" and "cutoff t r < now" and "eligible_for m pref w"
  shows "\<exists>p. Select (at (register now w r)) (snapshot t (register now w r)) m pref prio = Inr p"
proof -
  let ?r = "register now w r"
  have "registered ?r (wi_ID w) = Some (w\<lparr>wi_LastHeartbeat := now\<rparr>)"
    by (simp add: registered_register [OF assms(1)])
  moreover have "cutoff t ?r < wi_LastHeartbeat (w\<lparr>wi_LastHeartbeat := now\<rparr>)"
    using assms(2) by (simp add: cutoff_register)
  moreover have "eligible_for m pref (w\<lparr>wi_LastHeartbeat := now\<rparr>)"
    using assms(3) by (simp add: eligible_for_def)
  ultimately show ?thesis
    using route_fails_iff [OF wf_register [OF assms(1)], of now w t m pref prio]
    by (cases "Select (at ?r) (snapshot t ?r) m pref prio") fastforce+
qed

text \<open>A heartbeat keeps a worker alive, and makes no unregistered worker appear.\<close>

lemma heartbeat_revives:
  assumes "wf r" and "registered r i = Some w" and "cutoff t r < now"
  obtains p where "p \<in> set (snapshot t (heartbeat now i lat load r))"
    and "at (heartbeat now i lat load r) p = beat now lat load w"
proof (rule live_in_snapshot [OF wf_heartbeat [OF assms(1)]])
  show "registered (heartbeat now i lat load r) i = Some (beat now lat load w)"
    using assms(2) by (simp add: registered_heartbeat [OF assms(1)])
  show "cutoff t (heartbeat now i lat load r) < wi_LastHeartbeat (beat now lat load w)"
    using assms(3) by (simp add: cutoff_heartbeat beat_time)
qed (use that in blast)

end

end
