(* ===== verification/WorkerRegistry.thy ===== *)
theory WorkerRegistry
  imports WorkerPool
begin

text \<open>
  The router's live worker pool, \<open>services/router-go/internal/routing/registry.go\<close>.

  The Go registry maps worker ids to pointers, and \<open>Snapshot\<close> hands those pointers out, so the
  model keeps the pointed-to workers in an explicit store: \<open>heap\<close> lists the worker objects in
  the order they were allocated, a pointer is an index into it. \<open>Register\<close> allocates a fresh
  object, \<open>Heartbeat\<close> writes through the pointer. Every method runs under the registry's
  mutex, so a method is one step; \<open>time.Now()\<close> is the argument \<open>now\<close>.
\<close>

section \<open>The code\<close>

record Registry =
  heap :: "Worker list"
  workers :: "(string, nat) gomap"
  staleAfter :: int64
  rrCounter :: go_int

definition NewRegistry :: "int64 \<Rightarrow> Registry" where
  "NewRegistry stale = \<lparr>heap = [], workers = [], staleAfter = stale, rrCounter = 0\<rparr>"

definition deref :: "Registry \<Rightarrow> nat \<Rightarrow> Worker" where
  "deref r p = heap r ! p"

definition Registry_Register :: "instant \<Rightarrow> Worker \<Rightarrow> Registry \<Rightarrow> Registry" where
  "Registry_Register now w r =
     (let w' = w\<lparr>wi_LastHeartbeat := now\<rparr>
      in r\<lparr>heap := heap r @ [w'], workers := AList.update (wi_ID w') (length (heap r)) (workers r)\<rparr>)"

definition Registry_Heartbeat :: "instant \<Rightarrow> string \<Rightarrow> int64 \<Rightarrow> go_int \<Rightarrow> Registry \<Rightarrow> Registry" where
  "Registry_Heartbeat now i latencyMS inFlight r =
     (case map_of (workers r) i of
        None \<Rightarrow> r
      | Some p \<Rightarrow>
          r\<lparr>heap := (heap r)[p := (deref r p)\<lparr>wi_LastHeartbeat := now, wi_LastLatencyMS := latencyMS,
                                     wi_InFlight := inFlight\<rparr>]\<rparr>)"

text \<open>\<open>time.Now().Add(-r.staleAfter)\<close>\<close>

definition live_cutoff :: "instant \<Rightarrow> Registry \<Rightarrow> instant" where
  "live_cutoff now r = now + sint (- staleAfter r)"

definition Registry_Snapshot :: "instant \<Rightarrow> Registry \<Rightarrow> nat list" where
  "Registry_Snapshot now r =
     (let cutoff = live_cutoff now r;
          out = filter (\<lambda>p. cutoff < wi_LastHeartbeat (deref r p)) (map snd (workers r))
      in sort_key (\<lambda>p. wi_ID (deref r p)) out)"

definition Registry_Count :: "instant \<Rightarrow> Registry \<Rightarrow> nat" where
  "Registry_Count now r = length (Registry_Snapshot now r)"

section \<open>Abstraction: a map from ids to workers\<close>

definition view :: "Registry \<Rightarrow> string \<Rightarrow> Worker option" where
  "view r i = map_option (deref r) (map_of (workers r) i)"

definition registry_wf :: "Registry \<Rightarrow> bool" where
  "registry_wf r \<longleftrightarrow> distinct (map fst (workers r)) \<and>
     (\<forall>(i, p)\<in>set (workers r). p < length (heap r) \<and> wi_ID (deref r p) = i)"

lemma registry_wfD:
  assumes "registry_wf r" and "map_of (workers r) i = Some p"
  shows "p < length (heap r)" and "wi_ID (deref r p) = i"
  using assms(1) map_of_SomeD [OF assms(2)] by (auto simp: registry_wf_def)

lemma registry_wfI:
  assumes "distinct (map fst (workers r))"
    and "\<And>i p. map_of (workers r) i = Some p \<Longrightarrow> p < length (heap r) \<and> wi_ID (deref r p) = i"
  shows "registry_wf r"
  using assms by (auto simp: registry_wf_def)

definition heartbeat_upd :: "instant \<Rightarrow> int64 \<Rightarrow> go_int \<Rightarrow> Worker \<Rightarrow> Worker" where
  "heartbeat_upd now lat load w =
     w\<lparr>wi_LastHeartbeat := now, wi_LastLatencyMS := lat, wi_InFlight := load\<rparr>"

lemma heartbeat_upd_id [simp]: "wi_ID (heartbeat_upd now lat load w) = wi_ID w"
  by (simp add: heartbeat_upd_def)

lemma Register_parts [simp]:
  "length (heap (Registry_Register now w r)) = Suc (length (heap r))"
  "map_of (workers (Registry_Register now w r)) = (map_of (workers r))(wi_ID w \<mapsto> length (heap r))"
  "staleAfter (Registry_Register now w r) = staleAfter r"
  by (simp_all add: Registry_Register_def Let_def update_conv')

lemma deref_Register [simp]:
  "deref (Registry_Register now w r) p =
     (if p < length (heap r) then deref r p
      else if p = length (heap r) then w\<lparr>wi_LastHeartbeat := now\<rparr> else [] ! (p - length (heap r) - 1))"
  by (auto simp: deref_def Registry_Register_def Let_def nth_append nth_Cons')

lemma Heartbeat_parts [simp]:
  "length (heap (Registry_Heartbeat now i lat load r)) = length (heap r)"
  "workers (Registry_Heartbeat now i lat load r) = workers r"
  "staleAfter (Registry_Heartbeat now i lat load r) = staleAfter r"
  by (simp_all add: Registry_Heartbeat_def split: option.splits)

lemma deref_Heartbeat:
  assumes "registry_wf r"
  shows "deref (Registry_Heartbeat now i lat load r) q =
    (if map_of (workers r) i = Some q then heartbeat_upd now lat load (deref r q) else deref r q)"
  using registry_wfD(1) [OF assms]
  by (auto simp: Registry_Heartbeat_def deref_def heartbeat_upd_def nth_list_update split: option.splits)

lemma wf_NewRegistry [inv_intro]: "registry_wf (NewRegistry stale)"
  by (simp add: registry_wf_def NewRegistry_def)

lemma wf_Register [inv_intro]:
  assumes "registry_wf r"
  shows "registry_wf (Registry_Register now w r)"
proof (rule registry_wfI)
  show "distinct (map fst (workers (Registry_Register now w r)))"
    using assms by (simp add: Registry_Register_def Let_def distinct_update registry_wf_def)
qed (use registry_wfD [OF assms] less_SucI in \<open>auto split: if_splits\<close>)

lemma wf_Heartbeat [inv_intro]:
  assumes "registry_wf r"
  shows "registry_wf (Registry_Heartbeat now i lat load r)"
  using assms registry_wfD [OF assms]
  by (intro registry_wfI) (auto simp: deref_Heartbeat registry_wf_def)

text \<open>On the abstraction, registering is an update at one key and a heartbeat a field update.\<close>

lemma view_Register [step_simps]:
  assumes "registry_wf r"
  shows "view (Registry_Register now w r) = (view r)(wi_ID w \<mapsto> w\<lparr>wi_LastHeartbeat := now\<rparr>)"
proof
  fix i
  show "view (Registry_Register now w r) i = ((view r)(wi_ID w \<mapsto> w\<lparr>wi_LastHeartbeat := now\<rparr>)) i"
    using registry_wfD(1) [OF assms, of i] by (cases "map_of (workers r) i") (auto simp: view_def)
qed

lemma view_Heartbeat [step_simps]:
  assumes "registry_wf r"
  shows "view (Registry_Heartbeat now i lat load r) =
    (view r)(i := map_option (heartbeat_upd now lat load) (view r i))"
proof
  fix j
  have "map_of (workers r) i = Some p \<Longrightarrow> map_of (workers r) j = Some p \<Longrightarrow> j = i" for p
    using registry_wfD(2) [OF assms] by blast
  then show "view (Registry_Heartbeat now i lat load r) j =
      ((view r)(i := map_option (heartbeat_upd now lat load) (view r i))) j"
    by (cases "map_of (workers r) j") (auto simp: view_def deref_Heartbeat [OF assms])
qed

lemma cutoff_unchanged [step_simps]:
  "live_cutoff t (Registry_Register now w r) = live_cutoff t r"
  "live_cutoff t (Registry_Heartbeat now i lat load r) = live_cutoff t r"
  by (simp_all add: live_cutoff_def)

section \<open>Snapshots\<close>

lemma workers_image_view:
  assumes "registry_wf r"
  shows "deref r ` snd ` set (workers r) = ran (view r)"
proof -
  have d: "distinct (map fst (workers r))"
    using assms by (simp add: registry_wf_def)
  show ?thesis
    using map_of_is_SomeI [OF d] by (force simp: ran_def view_def image_iff dest: map_of_SomeD)
qed

lemma Snapshot_workers:
  assumes "registry_wf r"
  shows "deref r ` set (Registry_Snapshot now r)
    = {w \<in> ran (view r). live_cutoff now r < wi_LastHeartbeat w}"
proof -
  have "deref r ` set (Registry_Snapshot now r)
      = {w \<in> deref r ` snd ` set (workers r). live_cutoff now r < wi_LastHeartbeat w}"
    by (auto simp: Registry_Snapshot_def Let_def)
  then show ?thesis
    by (simp only: workers_image_view [OF assms])
qed

lemma distinct_snapshot_ids:
  assumes "registry_wf r"
  shows "distinct (map (\<lambda>p. wi_ID (deref r p)) (map snd (workers r)))"
proof -
  have "map (\<lambda>p. wi_ID (deref r p)) (map snd (workers r)) = map fst (workers r)"
    using assms by (auto simp: registry_wf_def)
  then show ?thesis
    using assms by (simp only: registry_wf_def)
qed

lemma Snapshot_sorted:
  assumes "registry_wf r"
  shows "sorted_wrt (<) (map (\<lambda>p. wi_ID (deref r p)) (Registry_Snapshot now r))"
proof -
  let ?f = "\<lambda>p. wi_ID (deref r p)"
  let ?out = "filter (\<lambda>p. live_cutoff now r < wi_LastHeartbeat (deref r p)) (map snd (workers r))"
  have "distinct (map ?f ?out)"
    using distinct_snapshot_ids [OF assms] by (rule distinct_map_filter)
  moreover have "mset (map ?f (sort_key ?f ?out)) = mset (map ?f ?out)"
    by simp
  ultimately have "distinct (map ?f (sort_key ?f ?out))"
    by (metis mset_eq_imp_distinct_iff)
  then show ?thesis
    by (simp add: Registry_Snapshot_def Let_def strict_sorted_iff)
qed

text \<open>The snapshot does not depend on the order in which the Go map is iterated.\<close>

lemma Snapshot_order_independent:
  assumes "registry_wf r" and "mset kvs = mset (workers r)"
  shows "Registry_Snapshot now (r\<lparr>workers := kvs\<rparr>) = Registry_Snapshot now r"
proof -
  let ?P = "\<lambda>p. live_cutoff now r < wi_LastHeartbeat (deref r p)"
  have "mset (filter ?P (map snd (workers r))) = mset (filter ?P (map snd kvs))"
    using assms(2) by simp
  moreover have "distinct (map (\<lambda>p. wi_ID (deref r p)) (filter ?P (map snd (workers r))))"
    using distinct_snapshot_ids [OF assms(1)] by (rule distinct_map_filter)
  ultimately have "sort_key (\<lambda>p. wi_ID (deref r p)) (filter ?P (map snd (workers r)))
      = sort_key (\<lambda>p. wi_ID (deref r p)) (filter ?P (map snd kvs))"
    by (rule sort_key_unique)
  moreover have "deref (r\<lparr>workers := kvs\<rparr>) = deref r" "live_cutoff now (r\<lparr>workers := kvs\<rparr>) = live_cutoff now r"
    by (simp_all add: deref_def live_cutoff_def fun_eq_iff)
  ultimately show ?thesis
    by (simp add: Registry_Snapshot_def Let_def)
qed

section \<open>The registry provides the interface\<close>

interpretation live: worker_view Registry_Snapshot deref view live_cutoff registry_wf
proof unfold_locales
  fix r i w
  assume "registry_wf r" and "view r i = Some w"
  then show "wi_ID w = i"
    using registry_wfD(2) by (auto simp: view_def)
qed (simp_all add: Snapshot_workers Snapshot_sorted)

interpretation pool: worker_pool Registry_Snapshot deref view live_cutoff registry_wf
  Registry_Register Registry_Heartbeat heartbeat_upd
  by unfold_locales (simp_all add: inv_intro step_simps heartbeat_upd_def)

end
