(* ===== verification/Json.thy ===== *)
theory Json
  imports Models
begin

text \<open>
  JSON as \<open>encoding/json\<close> sees it once a document is lexed. A message body is either
  \<open>Malformed\<close> (no JSON value to read: a syntax error, an empty body) or a document. A number
  literal without fraction and exponent is \<open>JInt\<close>, any other one \<open>JFlt\<close> of the \<open>float64\<close> it
  denotes (finite: a literal that overflows is not representable here); \<open>JTime t\<close> is a string
  that holds the RFC 3339 text of the instant \<open>t\<close>, which only \<open>time.Time\<close> fields are sent.
  The text of numbers, times and string escapes is the library's affair and is not modelled;
  the struct tags, the order of fields, zero values and type errors are.

  A decoder takes a JSON value and the Go variable's old value, and returns the new value and
  whether it met no type error: \<open>encoding/json\<close> goes on after one and reports it at the end.
\<close>

datatype json =
    JNull
  | JBool bool
  | JInt int
  | JFlt flt
  | JStr string
  | JTime instant
  | JArr "json list"
  | JObj "(string \<times> json) list"

datatype body = Malformed | Doc json

section \<open>Decoding into Go variables\<close>

fun dec_string :: "json \<Rightarrow> string \<Rightarrow> string \<times> bool" where
  "dec_string (JStr s) old = (s, True)"
| "dec_string JNull old = (old, True)"
| "dec_string _ old = (old, False)"

fun dec_int64 :: "json \<Rightarrow> int64 \<Rightarrow> int64 \<times> bool" where
  "dec_int64 (JInt n) old =
     (if - (2 ^ 63) \<le> n \<and> n < 2 ^ 63 then (word_of_int n, True) else (old, False))"
| "dec_int64 JNull old = (old, True)"
| "dec_int64 _ old = (old, False)"

fun dec_f64 :: "json \<Rightarrow> flt \<Rightarrow> flt \<times> bool" where
  "dec_f64 (JInt n) old = (case f64_of_int n of None \<Rightarrow> (old, False) | Some x \<Rightarrow> (x, True))"
| "dec_f64 (JFlt x) old = (x, True)"
| "dec_f64 JNull old = (old, True)"
| "dec_f64 _ old = (old, False)"

definition dec_f32_lit :: "flt \<Rightarrow> flt \<Rightarrow> flt \<times> bool" where
  "dec_f32_lit x old = (if is_finite (narrow32 x) then (narrow32 x, True) else (old, False))"

fun dec_f32 :: "json \<Rightarrow> flt \<Rightarrow> flt \<times> bool" where
  "dec_f32 (JInt n) old = dec_f32_lit (Fin (n < 0) (nat \<bar>n\<bar>) 0) old"
| "dec_f32 (JFlt x) old = dec_f32_lit x old"
| "dec_f32 JNull old = (old, True)"
| "dec_f32 _ old = (old, False)"

fun dec_time :: "json \<Rightarrow> instant \<Rightarrow> instant \<times> bool" where
  "dec_time (JTime t) old = (t, True)"
| "dec_time JNull old = (old, True)"
| "dec_time _ old = (old, False)"

text \<open>An array decodes over the slice's old elements; new elements start from zero.\<close>

fun dec_list :: "(json \<Rightarrow> 'a \<Rightarrow> 'a \<times> bool) \<Rightarrow> 'a \<Rightarrow> json list \<Rightarrow> 'a list \<Rightarrow> 'a list \<times> bool" where
  "dec_list d z [] old = ([], True)"
| "dec_list d z (v # vs) old =
     (let (x, ok) = d v (case old of o1 # _ \<Rightarrow> o1 | [] \<Rightarrow> z);
          (xs, ok') = dec_list d z vs (tl old)
      in (x # xs, ok \<and> ok'))"

fun dec_slice :: "(json \<Rightarrow> 'a \<Rightarrow> 'a \<times> bool) \<Rightarrow> 'a \<Rightarrow> json \<Rightarrow> 'a list \<Rightarrow> 'a list \<times> bool" where
  "dec_slice d z (JArr vs) old = dec_list d z vs old"
| "dec_slice d z JNull old = ([], True)"
| "dec_slice d z _ old = (old, False)"

text \<open>A map keeps its other entries; each value is decoded from zero and stored.\<close>

fun dec_entries ::
  "(json \<Rightarrow> 'a \<Rightarrow> 'a \<times> bool) \<Rightarrow> 'a \<Rightarrow> (string \<times> json) list \<Rightarrow> (string, 'a) gomap \<Rightarrow> (string, 'a) gomap \<times> bool"
where
  "dec_entries d z [] m = (m, True)"
| "dec_entries d z ((k, v) # kvs) m =
     (let (x, ok) = d v z;
          (m', ok') = dec_entries d z kvs (AList.update k x m)
      in (m', ok \<and> ok'))"

fun dec_map ::
  "(json \<Rightarrow> 'a \<Rightarrow> 'a \<times> bool) \<Rightarrow> 'a \<Rightarrow> json \<Rightarrow> (string, 'a) gomap \<Rightarrow> (string, 'a) gomap \<times> bool"
where
  "dec_map d z (JObj kvs) m = dec_entries d z kvs m"
| "dec_map d z JNull m = ([], True)"
| "dec_map d z _ m = (m, False)"

text \<open>
  A struct: the members in order, each stored in the field its key names up to case
  (the tags here are lower case), unknown keys skipped.
\<close>

definition lower :: "char \<Rightarrow> char" where
  "lower c = (let n = (of_char c :: nat) in if 65 \<le> n \<and> n \<le> 90 then char_of (n + 32) else c)"

fun dec_members ::
  "(string \<Rightarrow> json \<Rightarrow> 's \<Rightarrow> 's \<times> bool) \<Rightarrow> (string \<times> json) list \<Rightarrow> 's \<Rightarrow> 's \<times> bool"
where
  "dec_members field [] s = (s, True)"
| "dec_members field ((k, v) # ms) s =
     (let (s', ok) = field (map lower k) v s;
          (s'', ok') = dec_members field ms s'
      in (s'', ok \<and> ok'))"

fun dec_struct :: "(string \<Rightarrow> json \<Rightarrow> 's \<Rightarrow> 's \<times> bool) \<Rightarrow> json \<Rightarrow> 's \<Rightarrow> 's \<times> bool" where
  "dec_struct field (JObj ms) s = dec_members field ms s"
| "dec_struct field JNull s = (s, True)"
| "dec_struct field _ s = (s, False)"

text \<open>\<open>json.Unmarshal\<close> and \<open>Decoder.Decode\<close> into a zero struct: \<open>None\<close> is an error.\<close>

definition decode_struct :: "(string \<Rightarrow> json \<Rightarrow> 's \<Rightarrow> 's \<times> bool) \<Rightarrow> 's \<Rightarrow> body \<Rightarrow> 's option" where
  "decode_struct field zero b =
     (case b of
        Malformed \<Rightarrow> None
      | Doc v \<Rightarrow> (let (s, ok) = dec_struct field v zero in if ok then Some s else None))"

text \<open>The value the variable is left with when the caller ignores the error.\<close>

definition decode_ignoring :: "(string \<Rightarrow> json \<Rightarrow> 's \<Rightarrow> 's \<times> bool) \<Rightarrow> 's \<Rightarrow> body \<Rightarrow> 's" where
  "decode_ignoring field zero b =
     (case b of Malformed \<Rightarrow> zero | Doc v \<Rightarrow> fst (dec_struct field v zero))"

section \<open>The job and result messages\<close>

abbreviation flt_zero :: flt where
  "flt_zero \<equiv> Fin False 0 0"

definition zero_job :: InferenceJob where
  "zero_job = \<lparr>job_ID = [], job_VehicleID = [], job_ModelName = [], job_ModelVersion = [],
     job_PreferPrecision = [], job_Features = [], job_Priority = 0,
     job_SubmittedAt = - 62135596800 * 10 ^ 9, job_Attempt = 0, job_MaxAttempts = 0\<rparr>"

definition job_field :: "string \<Rightarrow> json \<Rightarrow> InferenceJob \<Rightarrow> InferenceJob \<times> bool" where
  "job_field k v j =
     (if k = ''id'' then apfst (\<lambda>x. j\<lparr>job_ID := x\<rparr>) (dec_string v (job_ID j))
      else if k = ''vehicle_id'' then apfst (\<lambda>x. j\<lparr>job_VehicleID := x\<rparr>) (dec_string v (job_VehicleID j))
      else if k = ''model_name'' then apfst (\<lambda>x. j\<lparr>job_ModelName := x\<rparr>) (dec_string v (job_ModelName j))
      else if k = ''model_version'' then
        apfst (\<lambda>x. j\<lparr>job_ModelVersion := x\<rparr>) (dec_string v (job_ModelVersion j))
      else if k = ''preferred_precision'' then
        apfst (\<lambda>x. j\<lparr>job_PreferPrecision := x\<rparr>) (dec_string v (job_PreferPrecision j))
      else if k = ''features'' then
        apfst (\<lambda>x. j\<lparr>job_Features := x\<rparr>) (dec_slice dec_f64 flt_zero v (job_Features j))
      else if k = ''priority'' then apfst (\<lambda>x. j\<lparr>job_Priority := x\<rparr>) (dec_int64 v (job_Priority j))
      else if k = ''submitted_at'' then
        apfst (\<lambda>x. j\<lparr>job_SubmittedAt := x\<rparr>) (dec_time v (job_SubmittedAt j))
      else if k = ''attempt'' then apfst (\<lambda>x. j\<lparr>job_Attempt := x\<rparr>) (dec_int64 v (job_Attempt j))
      else if k = ''max_attempts'' then
        apfst (\<lambda>x. j\<lparr>job_MaxAttempts := x\<rparr>) (dec_int64 v (job_MaxAttempts j))
      else (j, True))"

text \<open>A slice of floats; an empty slice is nil here, which is written \<open>null\<close>.\<close>

definition floats_json :: "flt list \<Rightarrow> json" where
  "floats_json xs = (if xs = [] then JNull else JArr (map JFlt xs))"

definition unmarshal_job :: "body \<Rightarrow> InferenceJob option" where
  "unmarshal_job = decode_struct job_field zero_job"

definition job_json :: "InferenceJob \<Rightarrow> json" where
  "job_json j = JObj
     [(''id'', JStr (job_ID j)),
      (''vehicle_id'', JStr (job_VehicleID j)),
      (''model_name'', JStr (job_ModelName j)),
      (''model_version'', JStr (job_ModelVersion j)),
      (''preferred_precision'', JStr (job_PreferPrecision j)),
      (''features'', floats_json (job_Features j)),
      (''priority'', JInt (sint (job_Priority j))),
      (''submitted_at'', JTime (job_SubmittedAt j)),
      (''attempt'', JInt (sint (job_Attempt j))),
      (''max_attempts'', JInt (sint (job_MaxAttempts j)))]"

text \<open>
  \<open>json.Marshal\<close> refuses infinities, NaNs and years outside 0 to 9999. The services ignore
  its error, and then send the nil slice it returns: a body that no reader can decode.
\<close>

definition time_ok :: "instant \<Rightarrow> bool" where
  "time_ok t \<longleftrightarrow> - 62167219200 * 10 ^ 9 \<le> t \<and> t < 253402300800 * 10 ^ 9"

definition job_marshals :: "InferenceJob \<Rightarrow> bool" where
  "job_marshals j \<longleftrightarrow> list_all is_finite (job_Features j) \<and> time_ok (job_SubmittedAt j)"

definition marshal_job :: "InferenceJob \<Rightarrow> body" where
  "marshal_job j = (if job_marshals j then Doc (job_json j) else Malformed)"

definition result_json :: "InferenceResult \<Rightarrow> json" where
  "result_json r = JObj
     ([(''job_id'', JStr (res_JobID r)),
       (''worker_id'', JStr (res_WorkerID r)),
       (''model_name'', JStr (res_ModelName r)),
       (''model_version'', JStr (res_ModelVersion r)),
       (''precision_used'', JStr (res_PrecisionUsed r)),
       (''output'', floats_json (res_Output r)),
       (''predicted_label'', JStr (res_PredictedLabel r)),
       (''confidence'', JFlt (res_Confidence r)),
       (''latency_ms'', JInt (sint (res_LatencyMS r))),
       (''queue_time_ms'', JInt (sint (res_QueueTimeMS r)))]
      @ (if res_Error r = [] then [] else [(''error'', JStr (res_Error r))]))"

definition marshal_result :: "InferenceResult \<Rightarrow> body" where
  "marshal_result r =
     (if list_all is_finite (res_Output r) \<and> is_finite (res_Confidence r)
      then Doc (result_json r) else Malformed)"

section \<open>Reading back what was written\<close>

lemma dec_list_floats [simp]: "dec_list dec_f64 z (map JFlt xs) old = (xs, True)"
  by (induction xs arbitrary: old) auto

lemma dec_slice_floats [simp]: "dec_slice dec_f64 z (floats_json xs) old = (xs, True)"
  by (simp add: floats_json_def)

lemma dec_int64_sint [simp]: "dec_int64 (JInt (sint w)) old = (w, True)"
  using sint64_range [of w] by simp

lemma unmarshal_job_json: "unmarshal_job (Doc (job_json j)) = Some j"
  by (simp add: unmarshal_job_def decode_struct_def job_json_def job_field_def lower_def
      del: dec_int64.simps)

lemma unmarshal_Malformed [simp]: "unmarshal_job Malformed = None"
  by (simp add: unmarshal_job_def decode_struct_def)

lemma unmarshal_marshal_job:
  "unmarshal_job (marshal_job j) = (if job_marshals j then Some j else None)"
  by (simp add: marshal_job_def unmarshal_job_json)

end
