(* ===== verification/RouterServer.thy ===== *)
theory RouterServer
  imports WorkerRegistry Json
begin

text \<open>
  The router's gRPC service, \<open>services/router-go/internal/handler/grpc.go\<close>: worker selection,
  the HTTP call to the chosen worker, and the registration of workers.

  The HTTP client and the worker behind it are arguments: \<open>call endpoint body\<close> is what
  \<open>NewRequestWithContext\<close>, \<open>Do\<close> and reading the response come to. While the call is under
  way the registry is not locked, so other requests may change it: \<open>interfere\<close> is the effect
  of all of them. The clock readings of one request are in \<open>predict_clock\<close>.
\<close>

section \<open>Conversions\<close>

definition precisionToDomain :: "pb_Precision \<Rightarrow> Precision" where
  "precisionToDomain p =
     (if p = PRECISION_FP32 then PrecisionFP32
      else if p = PRECISION_FP16 then PrecisionFP16
      else if p = PRECISION_INT8 then PrecisionINT8
      else if p = PRECISION_INT4 then PrecisionINT4
      else [])"

definition priorityToDomain :: "pb_Priority \<Rightarrow> Priority" where
  "priorityToDomain p =
     (if p = PRIORITY_HIGH then PriorityHigh
      else if p = PRIORITY_CRITICAL then PriorityCritical
      else PriorityNormal)"

section \<open>The worker's HTTP contract\<close>

definition worker_request_json :: "InferenceRequest \<Rightarrow> json" where
  "worker_request_json req = JObj
     [(''features'', floats_json (req_Features req)),
      (''precision'', JStr (precisionToDomain (req_PreferredPrecision req))),
      (''model_name'', JStr (req_ModelName req))]"

definition worker_request_body :: "InferenceRequest \<Rightarrow> body" where
  "worker_request_body req =
     (if list_all is_finite (req_Features req) then Doc (worker_request_json req) else Malformed)"

record workerPredictResponse =
  wr_Output :: "flt list"
  wr_PredictedLabel :: string
  wr_Confidence :: flt
  wr_ModelVersion :: string
  wr_PrecisionUsed :: string

definition zero_worker_response :: workerPredictResponse where
  "zero_worker_response = \<lparr>wr_Output = [], wr_PredictedLabel = [], wr_Confidence = flt_zero,
     wr_ModelVersion = [], wr_PrecisionUsed = []\<rparr>"

definition worker_response_field ::
  "string \<Rightarrow> json \<Rightarrow> workerPredictResponse \<Rightarrow> workerPredictResponse \<times> bool"
where
  "worker_response_field k v w =
     (if k = ''output'' then
        apfst (\<lambda>x. w\<lparr>wr_Output := x\<rparr>) (dec_slice dec_f32 flt_zero v (wr_Output w))
      else if k = ''predicted_label'' then
        apfst (\<lambda>x. w\<lparr>wr_PredictedLabel := x\<rparr>) (dec_string v (wr_PredictedLabel w))
      else if k = ''confidence'' then
        apfst (\<lambda>x. w\<lparr>wr_Confidence := x\<rparr>) (dec_f32 v (wr_Confidence w))
      else if k = ''model_version'' then
        apfst (\<lambda>x. w\<lparr>wr_ModelVersion := x\<rparr>) (dec_string v (wr_ModelVersion w))
      else if k = ''precision_used'' then
        apfst (\<lambda>x. w\<lparr>wr_PrecisionUsed := x\<rparr>) (dec_string v (wr_PrecisionUsed w))
      else (w, True))"

text \<open>
  The outcomes of the HTTP exchange: the URL was refused, the call failed, or a response with
  a status, its raw text and its JSON reading came back.
\<close>

datatype http_result =
    BuildFailed string
  | CallFailed string
  | Responded int string body

section \<open>Errors\<close>

datatype grpc_code = Unavailable | Internal | InvalidArgument

datatype grpc_reason =
    RouteRequest select_error
  | BuildWorkerRequest string
  | CallWorker string string
  | WorkerReturned string int string
  | DecodeWorkerResponse
  | WorkerIdAndEndpointRequired

type_synonym grpc_error = "grpc_code \<times> grpc_reason"

section \<open>\<open>Predict\<close>\<close>

record predict_clock =
  ck_start :: instant
  ck_snapshot :: instant
  ck_done :: instant
  ck_heartbeat :: instant

definition queue_ms :: "predict_clock \<Rightarrow> InferenceRequest \<Rightarrow> int64" where
  "queue_ms ck req =
     (if 0 < sint (req_SubmittedAtUnixMs req)
      then UnixMilli (ck_start ck) - req_SubmittedAtUnixMs req else 0)"

text \<open>Up to the HTTP call: snapshot and selection. The result is a pointer into the registry.\<close>

definition Predict_route :: "predict_clock \<Rightarrow> Registry \<Rightarrow> InferenceRequest \<Rightarrow> grpc_error + nat" where
  "Predict_route ck reg req =
     (case Select (deref reg) (Registry_Snapshot (ck_snapshot ck) reg) (req_ModelName req)
             (precisionToDomain (req_PreferredPrecision req)) (priorityToDomain (req_Priority req)) of
        Inl e \<Rightarrow> Inl (Unavailable, RouteRequest e)
      | Inr p \<Rightarrow> Inr p)"

text \<open>From the HTTP outcome on, in the registry as it is then.\<close>

definition Predict_finish ::
  "predict_clock \<Rightarrow> InferenceRequest \<Rightarrow> nat \<Rightarrow> http_result \<Rightarrow> Registry
     \<Rightarrow> (grpc_error + InferenceResponse) \<times> Registry"
where
  "Predict_finish ck req p result reg =
     (let w = deref reg p in
      case result of
        BuildFailed err \<Rightarrow> (Inl (Internal, BuildWorkerRequest err), reg)
      | CallFailed err \<Rightarrow> (Inl (Unavailable, CallWorker (wi_ID w) err), reg)
      | Responded status raw b \<Rightarrow>
          if status \<noteq> 200 then (Inl (Internal, WorkerReturned (wi_ID w) status raw), reg)
          else (case decode_struct worker_response_field zero_worker_response b of
                  None \<Rightarrow> (Inl (Internal, DecodeWorkerResponse), reg)
                | Some wr \<Rightarrow>
                    (let latency = since_ms (ck_done ck) (ck_start ck);
                         reg' = Registry_Heartbeat (ck_heartbeat ck) (wi_ID w) latency (wi_InFlight w) reg
                     in (Inr \<lparr>resp_RequestId = req_RequestId req,
                              resp_WorkerId = wi_ID w,
                              resp_ModelName = req_ModelName req,
                              resp_ModelVersion = wr_ModelVersion wr,
                              resp_PrecisionUsed = req_PreferredPrecision req,
                              resp_Output = wr_Output wr,
                              resp_PredictedLabel = wr_PredictedLabel wr,
                              resp_Confidence = wr_Confidence wr,
                              resp_LatencyMs = latency,
                              resp_QueueTimeMs = queue_ms ck req\<rparr>, reg'))))"

definition Server_Predict ::
  "predict_clock \<Rightarrow> (string \<Rightarrow> body \<Rightarrow> http_result) \<Rightarrow> (Registry \<Rightarrow> Registry) \<Rightarrow> Registry
     \<Rightarrow> InferenceRequest \<Rightarrow> (grpc_error + InferenceResponse) \<times> Registry"
where
  "Server_Predict ck call interfere reg req =
     (case Predict_route ck reg req of
        Inl e \<Rightarrow> (Inl e, reg)
      | Inr p \<Rightarrow>
          Predict_finish ck req p
            (call (w_Endpoint (deref reg p) @ ''/predict'') (worker_request_body req))
            (interfere reg))"

section \<open>The other methods\<close>

text \<open>
  \<open>StreamPredict\<close>: the messages to come are a list; a list that ends before \<open>RecvEOF\<close> or an
  error leaves the loop waiting (\<open>None\<close>). \<open>predict\<close> is the method above, \<open>send\<close> the stream's.
\<close>

datatype recv = Recv InferenceRequest | RecvEOF | RecvErr string

datatype stream_end = StreamDone | StreamRecvErr string | StreamPredictErr grpc_error | StreamSendErr string

fun StreamPredict ::
  "(InferenceRequest \<Rightarrow> 's \<Rightarrow> (grpc_error + InferenceResponse) \<times> 's) \<Rightarrow> (InferenceResponse \<Rightarrow> string option)
     \<Rightarrow> recv list \<Rightarrow> 's \<Rightarrow> InferenceResponse list \<Rightarrow> stream_end option \<times> InferenceResponse list \<times> 's"
where
  "StreamPredict predict send [] s sent = (None, sent, s)"
| "StreamPredict predict send (m # ms) s sent =
     (case m of
        RecvEOF \<Rightarrow> (Some StreamDone, sent, s)
      | RecvErr err \<Rightarrow> (Some (StreamRecvErr err), sent, s)
      | Recv req \<Rightarrow>
          (case predict req s of
             (Inl err, s') \<Rightarrow> (Some (StreamPredictErr err), sent, s')
           | (Inr resp, s') \<Rightarrow>
               (case send resp of
                  Some err \<Rightarrow> (Some (StreamSendErr err), sent, s')
                | None \<Rightarrow> StreamPredict predict send ms s' (sent @ [resp]))))"

definition Server_Health :: "instant \<Rightarrow> string \<Rightarrow> Registry \<Rightarrow> HealthResponse" where
  "Server_Health now version reg =
     \<lparr>hr_Status = ''ok'', hr_ActiveWorkers = word_of_nat (Registry_Count now reg), hr_QueueDepth = 0,
      hr_RouterVersion = version\<rparr>"

definition Server_RegisterWorker ::
  "instant \<Rightarrow> RegisterWorkerRequest \<Rightarrow> Registry \<Rightarrow> (grpc_error + bool) \<times> Registry"
where
  "Server_RegisterWorker now req reg =
     (if rw_WorkerId req = [] \<or> rw_Endpoint req = []
      then (Inl (InvalidArgument, WorkerIdAndEndpointRequired), reg)
      else (Inr True,
            Registry_Register now
              \<lparr>wi_ID = rw_WorkerId req, wi_SupportedModels = rw_SupportedModels req,
               wi_GPUAvailable = rw_GpuAvailable req,
               wi_MaxPrecision = precisionToDomain (rw_MaxPrecision req),
               wi_LastLatencyMS = 0, wi_InFlight = 0, wi_LastHeartbeat = 0,
               w_Endpoint = rw_Endpoint req\<rparr> reg))"

end
