(* ===== verification/Router.thy ===== *)
theory Router
  imports RouterServer
begin

text \<open>
  The router while it serves many requests at once: a transition system over the methods of
  \<open>RouterServer\<close>, its invariants, a concrete run, and the properties of selection, registry
  and request handling.
\<close>

section \<open>The running router\<close>

text \<open>
  The router serves many requests at once. Its state is the registry and the pointers held by
  the requests whose HTTP call is under way; a step is one critical section of one request.
\<close>

record router_state =
  rs_registry :: Registry
  rs_held :: "nat list"

inductive router_step :: "router_state \<Rightarrow> router_state \<Rightarrow> bool" where
  register:
    "Server_RegisterWorker now req (rs_registry s) = (res, reg') \<Longrightarrow>
     router_step s (s\<lparr>rs_registry := reg'\<rparr>)"
| route:
    "Predict_route ck (rs_registry s) req = Inr p \<Longrightarrow>
     router_step s (s\<lparr>rs_held := p # rs_held s\<rparr>)"
| finish:
    "p \<in> set (rs_held s) \<Longrightarrow> Predict_finish ck req p result (rs_registry s) = (res, reg') \<Longrightarrow>
     router_step s (s\<lparr>rs_registry := reg', rs_held := remove1 p (rs_held s)\<rparr>)"

inductive router_reachable :: "int64 \<Rightarrow> router_state \<Rightarrow> bool" for stale where
  boot: "router_reachable stale \<lparr>rs_registry = NewRegistry stale, rs_held = []\<rparr>"
| step: "router_reachable stale s \<Longrightarrow> router_step s t \<Longrightarrow> router_reachable stale t"

inductive_cases router_stepE: "router_step s t"

section \<open>Invariants of the running router\<close>

definition router_inv :: "int64 \<Rightarrow> router_state \<Rightarrow> bool" where
  "router_inv stale s \<longleftrightarrow>
     registry_wf (rs_registry s) \<and> staleAfter (rs_registry s) = stale \<and>
     (\<forall>w\<in>set (heap (rs_registry s)). wi_InFlight w = 0) \<and>
     (\<forall>p\<in>set (rs_held s). p < length (heap (rs_registry s)))"

lemma Snapshot_pointers: "registry_wf r \<Longrightarrow> p \<in> set (Registry_Snapshot now r) \<Longrightarrow> p < length (heap r)"
  by (auto simp: Registry_Snapshot_def Let_def registry_wf_def)

lemma Predict_route_pointer:
  assumes "registry_wf reg" and "Predict_route ck reg req = Inr p"
  shows "p < length (heap reg)"
  using assms Select_sound(1) Snapshot_pointers
  by (fastforce simp: Predict_route_def split: sum.splits)

text \<open>A request changes the registry by one heartbeat, and only when it succeeds.\<close>

lemma Predict_finish_registry:
  "snd (Predict_finish ck req p result reg) =
     (if (\<exists>resp. fst (Predict_finish ck req p result reg) = Inr resp)
      then Registry_Heartbeat (ck_heartbeat ck) (wi_ID (deref reg p)) (since_ms (ck_done ck) (ck_start ck))
             (wi_InFlight (deref reg p)) reg
      else reg)"
  by (simp add: Predict_finish_def Let_def split: http_result.split option.split)

lemma Heartbeat_heap:
  "set (heap (Registry_Heartbeat now i lat load r))
     \<subseteq> set (heap r) \<union> {heartbeat_upd now lat load w | w. True}"
proof (cases "map_of (workers r) i")
  case (Some p)
  then show ?thesis
    using set_update_subset_insert [of "heap r" p "heartbeat_upd now lat load (deref r p)"]
    by (auto simp: Registry_Heartbeat_def heartbeat_upd_def)
qed (simp add: Registry_Heartbeat_def)

lemma Heartbeat_in_flight:
  assumes "\<forall>w\<in>set (heap r). wi_InFlight w = 0"
  shows "\<forall>w\<in>set (heap (Registry_Heartbeat now i lat 0 r)). wi_InFlight w = 0"
  using assms Heartbeat_heap [of now i lat 0 r] by (auto simp: heartbeat_upd_def)

lemma Register_heap: "heap (Registry_Register now w r) = heap r @ [w\<lparr>wi_LastHeartbeat := now\<rparr>]"
  by (simp add: Registry_Register_def Let_def)

lemma router_inv_register:
  assumes "router_inv stale s"
  shows "router_inv stale (s\<lparr>rs_registry := snd (Server_RegisterWorker now req (rs_registry s))\<rparr>)"
  using assms
  by (auto simp: router_inv_def Server_RegisterWorker_def inv_intro Register_heap less_SucI)

lemma router_inv_finish:
  assumes inv: "router_inv stale s" and p: "p \<in> set (rs_held s)"
  shows "router_inv stale (s\<lparr>rs_registry := snd (Predict_finish ck req p result (rs_registry s)),
                             rs_held := remove1 p (rs_held s)\<rparr>)"
proof -
  have "p < length (heap (rs_registry s))"
    using inv p by (simp add: router_inv_def)
  then have "wi_InFlight (deref (rs_registry s) p) = 0"
    using inv by (simp add: router_inv_def deref_def)
  then show ?thesis
    using inv Heartbeat_in_flight [of "rs_registry s"] notin_set_remove1 [of _ "rs_held s" p]
    by (auto simp: router_inv_def Predict_finish_registry inv_intro)
qed

lemma router_step_inv:
  assumes "router_step s t" and "router_inv stale s"
  shows "router_inv stale t"
  using assms
proof cases
  case (register now req res reg')
  then show ?thesis
    using router_inv_register [OF assms(2), of now req] by simp
next
  case (route ck req p)
  then show ?thesis
    using assms(2) Predict_route_pointer by (auto simp: router_inv_def)
next
  case (finish p ck req result res reg')
  then show ?thesis
    using router_inv_finish [OF assms(2) finish(2), of ck req result] by simp
qed

lemma router_reachable_inv: "router_reachable stale s \<Longrightarrow> router_inv stale s"
proof (induction rule: router_reachable.induct)
  case boot
  show ?case
    by (simp add: router_inv_def inv_intro) (simp add: NewRegistry_def)
next
  case (step s t)
  then show ?case
    by (blast intro: router_step_inv)
qed

section \<open>Requests in an interfering environment\<close>

text \<open>
  What the other requests can do to a worker object while a call is under way: its heartbeat
  time, latency and load change, its identity does not, and no object disappears.
\<close>

definition same_worker :: "Worker \<Rightarrow> Worker \<Rightarrow> bool" where
  "same_worker v w \<longleftrightarrow>
     wi_ID v = wi_ID w \<and> wi_SupportedModels v = wi_SupportedModels w \<and>
     wi_GPUAvailable v = wi_GPUAvailable w \<and> wi_MaxPrecision v = wi_MaxPrecision w \<and>
     w_Endpoint v = w_Endpoint w"

definition heap_grows :: "Registry \<Rightarrow> Registry \<Rightarrow> bool" where
  "heap_grows r r' \<longleftrightarrow>
     length (heap r) \<le> length (heap r') \<and>
     (\<forall>p<length (heap r). same_worker (deref r p) (deref r' p))"

lemma heap_grows_refl [simp, intro]: "heap_grows r r"
  by (simp add: heap_grows_def same_worker_def)

lemma heap_grows_trans [trans]: "heap_grows r s \<Longrightarrow> heap_grows s t \<Longrightarrow> heap_grows r t"
  by (fastforce simp: heap_grows_def same_worker_def)

lemma heap_grows_Register: "heap_grows r (Registry_Register now w r)"
  by (simp add: heap_grows_def same_worker_def)

lemma heap_grows_Heartbeat: "registry_wf r \<Longrightarrow> heap_grows r (Registry_Heartbeat now i lat load r)"
  by (simp add: heap_grows_def same_worker_def deref_Heartbeat heartbeat_upd_def)

lemma heap_grows_step:
  assumes "router_step s t" and "registry_wf (rs_registry s)"
  shows "heap_grows (rs_registry s) (rs_registry t)"
  using assms(1)
proof cases
  case (register now req res reg')
  then show ?thesis
    by (auto simp: Server_RegisterWorker_def heap_grows_Register split: if_splits)
next
  case (finish p ck req result res reg')
  then have "reg' = snd (Predict_finish ck req p result (rs_registry s))"
    by simp
  then show ?thesis
    using finish(1) assms(2) by (auto simp: Predict_finish_registry heap_grows_Heartbeat)
qed simp

text \<open>The cases of a request's outcome.\<close>

lemma Predict_route_Inr:
  assumes "Predict_route ck reg req = Inr p"
  shows "Select (deref reg) (Registry_Snapshot (ck_snapshot ck) reg) (req_ModelName req)
    (precisionToDomain (req_PreferredPrecision req)) (priorityToDomain (req_Priority req)) = Inr p"
  using assms by (simp add: Predict_route_def split: sum.splits)

lemma Predict_finish_Inr:
  assumes "Predict_finish ck req p result reg = (Inr resp, reg')"
  obtains raw b wr where "result = Responded 200 raw b"
    and "decode_struct worker_response_field zero_worker_response b = Some wr"
    and "resp_WorkerId resp = wi_ID (deref reg p)" and "resp_RequestId resp = req_RequestId req"
    and "resp_ModelName resp = req_ModelName req" and "resp_ModelVersion resp = wr_ModelVersion wr"
    and "resp_Output resp = wr_Output wr" and "resp_PredictedLabel resp = wr_PredictedLabel wr"
    and "resp_Confidence resp = wr_Confidence wr"
    and "resp_PrecisionUsed resp = req_PreferredPrecision req"
    and "resp_LatencyMs resp = since_ms (ck_done ck) (ck_start ck)"
    and "resp_QueueTimeMs resp = queue_ms ck req"
    and "reg' = Registry_Heartbeat (ck_heartbeat ck) (wi_ID (deref reg p))
                  (since_ms (ck_done ck) (ck_start ck)) (wi_InFlight (deref reg p)) reg"
  using assms by (auto simp: Predict_finish_def Let_def split: http_result.splits if_splits option.splits)

lemma Server_Predict_cases:
  obtains e where "Predict_route ck reg req = Inl (Unavailable, RouteRequest e)"
      and "Server_Predict ck call interfere reg req = (Inl (Unavailable, RouteRequest e), reg)"
  | p where "Predict_route ck reg req = Inr p"
      and "Server_Predict ck call interfere reg req =
             Predict_finish ck req p
               (call (w_Endpoint (deref reg p) @ ''/predict'') (worker_request_body req)) (interfere reg)"
  by (cases "Predict_route ck reg req") (auto simp: Server_Predict_def Predict_route_def split: sum.splits)


text \<open>A stream of requests, each with its own clock, worker call and interference.\<close>

definition Predict_nth ::
  "(nat \<Rightarrow> predict_clock) \<Rightarrow> (nat \<Rightarrow> string \<Rightarrow> body \<Rightarrow> http_result) \<Rightarrow> (nat \<Rightarrow> Registry \<Rightarrow> Registry)
     \<Rightarrow> InferenceRequest \<Rightarrow> nat \<times> Registry \<Rightarrow> (grpc_error + InferenceResponse) \<times> nat \<times> Registry"
where
  "Predict_nth cks calls interferes req s =
     (let (res, reg') = Server_Predict (cks (fst s)) (calls (fst s)) (interferes (fst s)) (snd s) req
      in (res, (Suc (fst s), reg')))"

lemma Server_Predict_RequestId:
  assumes "Server_Predict ck call interfere reg req = (Inr resp, reg')"
  shows "resp_RequestId resp = req_RequestId req"
  using assms
  by (auto simp: Server_Predict_def split: sum.splits elim!: Predict_finish_Inr)

lemma Predict_nth_RequestId:
  "Predict_nth cks calls interferes req s = (Inr resp, s') \<Longrightarrow> resp_RequestId resp = req_RequestId req"
  by (auto simp: Predict_nth_def Let_def split: prod.splits dest: Server_Predict_RequestId)

fun requests_before_eof :: "recv list \<Rightarrow> InferenceRequest list" where
  "requests_before_eof (Recv req # ms) = req # requests_before_eof ms"
| "requests_before_eof _ = []"

lemma StreamPredict_ids:
  assumes "\<And>req s resp s'. predict req s = (Inr resp, s') \<Longrightarrow> resp_RequestId resp = req_RequestId req"
    and "StreamPredict predict send ms s sent = (out, sent', s')"
  shows "\<exists>new. sent' = sent @ new \<and>
    (\<exists>rest. map req_RequestId (requests_before_eof ms) = map resp_RequestId new @ rest \<and>
       (out = Some StreamDone \<longrightarrow> rest = []))"
  using assms(2)
proof (induction ms arbitrary: s sent)
  case (Cons m ms)
  show ?case
  proof (cases m)
    case (Recv req)
    obtain res s1 where pr: "predict req s = (res, s1)"
      by (cases "predict req s")
    show ?thesis
    proof (cases "\<exists>resp. res = Inr resp \<and> send resp = None")
      case True
      then obtain resp where res: "res = Inr resp" "send resp = None"
        by blast
      then have "StreamPredict predict send ms s1 (sent @ [resp]) = (out, sent', s')"
        using Cons.prems Recv pr by simp
      from Cons.IH [OF this] obtain new rest where "sent' = (sent @ [resp]) @ new"
          "map req_RequestId (requests_before_eof ms) = map resp_RequestId new @ rest"
          "out = Some StreamDone \<longrightarrow> rest = []"
        by blast
      then show ?thesis
        using assms(1) pr res Recv by (intro exI [of _ "resp # new"]) auto
    next
      case False
      then show ?thesis
        using Cons.prems Recv pr by (auto split: sum.splits option.splits)
    qed
  qed (use Cons.prems in auto)
qed simp

section \<open>A concrete router\<close>

text \<open>
  Two workers of one model: a CPU worker and a GPU worker that registered later. The worker
  behind every endpoint answers with an empty JSON object.
\<close>

definition demo_registration :: "string \<Rightarrow> bool \<Rightarrow> RegisterWorkerRequest" where
  "demo_registration i gpu =
     \<lparr>rw_WorkerId = i, rw_SupportedModels = [''m''], rw_GpuAvailable = gpu,
      rw_MaxPrecision = PRECISION_FP32, rw_Endpoint = ''http://'' @ i\<rparr>"

definition demo_registry :: Registry where
  "demo_registry =
     snd (Server_RegisterWorker 20 (demo_registration ''gpu'' True)
       (snd (Server_RegisterWorker 10 (demo_registration ''cpu'' False) (NewRegistry 100))))"

definition demo_request :: InferenceRequest where
  "demo_request =
     \<lparr>req_RequestId = ''r1'', req_VehicleId = ''v'', req_ModelName = ''m'', req_ModelVersion = [],
      req_PreferredPrecision = PRECISION_FP32, req_Features = [Fin False 1 0],
      req_Priority = PRIORITY_CRITICAL, req_SubmittedAtUnixMs = 0\<rparr>"

definition demo_clock :: predict_clock where
  "demo_clock = \<lparr>ck_start = 30, ck_snapshot = 31, ck_done = 5000031, ck_heartbeat = 5000032\<rparr>"

definition demo_call :: "string \<Rightarrow> body \<Rightarrow> http_result" where
  "demo_call endpoint b = Responded 200 ''{}'' (Doc (JObj []))"

lemma demo_registry_wf: "registry_wf demo_registry"
  by (simp add: demo_registry_def Server_RegisterWorker_def demo_registration_def inv_intro)


lemma demo_registry_eq: "demo_registry =
  \<lparr>heap = [\<lparr>wi_ID = ''cpu'', wi_SupportedModels = [''m''], wi_GPUAvailable = False,
            wi_MaxPrecision = ''fp32'', wi_LastLatencyMS = 0, wi_InFlight = 0, wi_LastHeartbeat = 10,
            w_Endpoint = ''http://cpu''\<rparr>,
           \<lparr>wi_ID = ''gpu'', wi_SupportedModels = [''m''], wi_GPUAvailable = True,
            wi_MaxPrecision = ''fp32'', wi_LastLatencyMS = 0, wi_InFlight = 0, wi_LastHeartbeat = 20,
            w_Endpoint = ''http://gpu''\<rparr>],
   workers = [(''cpu'', 0), (''gpu'', 1)], staleAfter = 100, rrCounter = 0\<rparr>"
  by (simp add: demo_registry_def Server_RegisterWorker_def demo_registration_def Registry_Register_def
      NewRegistry_def precisionToDomain_def pb_precision_defs precision_defs)

lemma demo_snapshot: "Registry_Snapshot 31 demo_registry = [0, 1]"
  by (simp add: demo_registry_eq Registry_Snapshot_def live_cutoff_def deref_def insort_key_def less_eq_char_def)

lemma demo_route: "Predict_route demo_clock demo_registry demo_request = Inr 1"
  unfolding Predict_route_def demo_clock_def predict_clock.select_convs demo_snapshot
  by (simp add: demo_request_def Select_def
      eligible_loop_eq eligible_for_def demo_registry_eq deref_def precisionToDomain_def pb_precision_defs
      precision_defs rank_of_def precisionRank_def priorityToDomain_def pb_priority_defs priority_defs
      worker_score_def loadWeight_def gpuBonus_def f64_int_exact MaxFloat64_def)

lemma demo_predict:
  "Server_Predict demo_clock demo_call id demo_registry demo_request =
    (Inr \<lparr>resp_RequestId = ''r1'', resp_WorkerId = ''gpu'', resp_ModelName = ''m'', resp_ModelVersion = [],
          resp_PrecisionUsed = 1, resp_Output = [], resp_PredictedLabel = [], resp_Confidence = flt_zero,
          resp_LatencyMs = 5, resp_QueueTimeMs = 0\<rparr>,
     Registry_Heartbeat 5000032 ''gpu'' 5 0 demo_registry)"
  unfolding Server_Predict_def demo_route sum.case
  by (simp add: Predict_finish_def demo_call_def decode_struct_def
      zero_worker_response_def demo_clock_def since_ms_def demo_request_def pb_precision_defs queue_ms_def)
     (simp add: demo_registry_eq deref_def)

lemma demo_reachable:
  "router_reachable 100 \<lparr>rs_registry = demo_registry, rs_held = []\<rparr>"
proof -
  have step: "router_reachable 100 \<lparr>rs_registry = r, rs_held = []\<rparr> \<Longrightarrow>
      router_reachable 100 \<lparr>rs_registry = snd (Server_RegisterWorker now req r), rs_held = []\<rparr>" for now req r
    using router_reachable.step [OF _ router_step.register [of now req _ "fst (Server_RegisterWorker now req r)"]]
    by fastforce
  show ?thesis
    unfolding demo_registry_def by (intro step router_reachable.boot)
qed

section \<open>The worker that answers\<close>

lemma Predict_answers_best:
  assumes wf: "registry_wf reg" and grows: "heap_grows reg (interfere reg)"
    and ok: "Server_Predict ck call interfere reg req = (Inr resp, reg')"
  defines "prio \<equiv> priorityToDomain (req_Priority req)"
    and "elig \<equiv> \<lambda>v. live_cutoff (ck_snapshot ck) reg < wi_LastHeartbeat v \<and>
          eligible_for (req_ModelName req) (precisionToDomain (req_PreferredPrecision req)) v"
  shows "\<exists>w. view reg (resp_WorkerId resp) = Some w \<and> elig w \<and>
    (\<exists>raw b. call (w_Endpoint w @ ''/predict'') (worker_request_body req) = Responded 200 raw b) \<and>
    (\<forall>i v. view reg i = Some v \<and> elig v \<longrightarrow>
       worker_score prio w < worker_score prio v \<or>
       worker_score prio w = worker_score prio v \<and> resp_WorkerId resp \<le> i)"
proof (rule Server_Predict_cases [of ck reg req call interfere])
  fix p
  assume route: "Predict_route ck reg req = Inr p"
    and "Server_Predict ck call interfere reg req =
           Predict_finish ck req p (call (w_Endpoint (deref reg p) @ ''/predict'') (worker_request_body req))
             (interfere reg)"
  then have fin: "Predict_finish ck req p
      (call (w_Endpoint (deref reg p) @ ''/predict'') (worker_request_body req)) (interfere reg)
        = (Inr resp, reg')"
    using ok by simp
  have "p < length (heap reg)"
    using Predict_route_pointer [OF wf route] .
  then have id: "wi_ID (deref (interfere reg) p) = wi_ID (deref reg p)"
    using grows by (simp add: heap_grows_def same_worker_def)
  obtain raw b where call: "call (w_Endpoint (deref reg p) @ ''/predict'') (worker_request_body req)
      = Responded 200 raw b" and worker: "resp_WorkerId resp = wi_ID (deref reg p)"
    using Predict_finish_Inr [OF fin] id by metis
  note sel = Predict_route_Inr [OF route]
  note best = live.route_best [OF wf sel, folded prio_def]
  show ?thesis
    unfolding elig_def worker
    using live.route_sound [OF wf sel] call best by (intro exI [of _ "deref reg p"] conjI allI impI) simp_all
qed (use ok in simp)

section \<open>Properties: selection\<close>

text \<open>C23: \<open>Select\<close> fails exactly when no live worker supports the model at the precision, and
  then reports the number of live workers; otherwise it returns the first of the eligible
  workers whose score is least.\<close>

theorem select_correct:
  "case Select at ws m pref prio of
     Inl e \<Rightarrow> filter (\<lambda>p. eligible_for m pref (at p)) ws = [] \<and> e = NoEligibleWorker m pref (length ws)
   | Inr p \<Rightarrow> first_best (\<lambda>q. worker_score prio (at q)) (filter (\<lambda>p. eligible_for m pref (at p)) ws) p"
proof (cases "Select at ws m pref prio")
  case (Inl e)
  then show ?thesis
    by (simp add: Select_def eligible_loop_eq split: list.splits)
next
  case (Inr p)
  then show ?thesis
    using Select_Inr_first_best [OF Inr] by simp
qed

text \<open>C24: as long as latencies and loads stay below 2^48, the worker returned minimises the
  formula documented on \<open>Select\<close>, latency + 15 * load - 25 (GPU worker, critical request): the
  \<open>float64\<close> arithmetic changes no decision.\<close>

theorem select_minimises_documented_score:
  assumes "Select at ws m pref prio = Inr p" and "q \<in> set ws" and "eligible_for m pref (at q)"
    and "small_load (at p)" and "small_load (at q)"
  shows "ideal_score prio (at p) \<le> ideal_score prio (at q)"
  using Select_sound(3) [OF assms(1-3)] assms(4,5) by (simp add: worker_score_exact)

theorem select_minimises_documented_score_witness:
  "ideal_score 2 (deref demo_registry 1) \<le> ideal_score 2 (deref demo_registry 0)"
proof (rule select_minimises_documented_score [of "deref demo_registry" "[0, 1]" "''m''" "''fp32''" 2 1 0])
  show "Select (deref demo_registry) [0, 1] ''m'' ''fp32'' 2 = Inr 1"
    using Predict_route_Inr [OF demo_route]
    by (simp add: demo_clock_def demo_request_def demo_snapshot precisionToDomain_def precision_defs
        priorityToDomain_def pb_priority_defs priority_defs)
qed (simp_all add: demo_registry_eq deref_def eligible_for_def small_load_def)

section \<open>Properties: the registry\<close>

text \<open>C25: the registry implements a map from worker ids to workers: registering replaces the
  entry of one id by the new worker stamped with the current time, a heartbeat changes the
  fields of one entry and adds none, and the well-formedness of the store is kept.\<close>

theorem registry_refines_map:
  assumes "registry_wf r"
  shows "view (Registry_Register now w r) = (view r)(wi_ID w \<mapsto> w\<lparr>wi_LastHeartbeat := now\<rparr>)
    \<and> view (Registry_Heartbeat now i lat load r)
        = (view r)(i := map_option (\<lambda>v. v\<lparr>wi_LastHeartbeat := now, wi_LastLatencyMS := lat,
                                          wi_InFlight := load\<rparr>) (view r i))
    \<and> registry_wf (Registry_Register now w r) \<and> registry_wf (Registry_Heartbeat now i lat load r)"
proof -
  have "heartbeat_upd now lat load
      = (\<lambda>v. v\<lparr>wi_LastHeartbeat := now, wi_LastLatencyMS := lat, wi_InFlight := load\<rparr>)"
    by (simp add: heartbeat_upd_def fun_eq_iff)
  then show ?thesis
    using assms pool.registered_register pool.registered_heartbeat [of r now i lat load]
      pool.wf_register pool.wf_heartbeat by simp
qed

theorem registry_refines_map_witness:
  "view (Registry_Register 50 (deref demo_registry 0) demo_registry) ''cpu''
     = Some ((deref demo_registry 0)\<lparr>wi_LastHeartbeat := 50\<rparr>)"
  using registry_refines_map [OF demo_registry_wf, of 50 "deref demo_registry 0"]
  by (simp add: demo_registry_eq deref_def)

text \<open>A snapshot lists exactly the registered workers heard from within \<open>staleAfter\<close>, one
  entry per worker in increasing order of ids, whatever order the Go map is iterated in.\<close>

lemma snapshot_is_sorted_live_set:
  assumes "registry_wf r" and "mset kvs = mset (workers r)"
  shows "deref r ` set (Registry_Snapshot now (r\<lparr>workers := kvs\<rparr>))
           = {w \<in> ran (view r). now + sint (- staleAfter r) < wi_LastHeartbeat w}
    \<and> sorted_wrt (<) (map (\<lambda>p. wi_ID (deref r p)) (Registry_Snapshot now (r\<lparr>workers := kvs\<rparr>)))"
  using Snapshot_order_independent [OF assms] live.snapshot_workers [OF assms(1)]
    live.snapshot_sorted [OF assms(1)]
  by (simp add: live_cutoff_def)

text \<open>A snapshot is not a copy: what a later heartbeat writes is read through the pointers
  an earlier snapshot handed out.\<close>

lemma snapshot_sees_later_heartbeats:
  assumes "registry_wf r" and "p \<in> set (Registry_Snapshot now r)"
  shows "wi_LastLatencyMS
    (deref (Registry_Heartbeat t (wi_ID (deref r p)) lat load r) p) = lat"
proof -
  have "map_of (workers r) (wi_ID (deref r p)) = Some p"
    using assms by (auto simp: Registry_Snapshot_def Let_def registry_wf_def)
  then show ?thesis
    by (simp add: deref_Heartbeat [OF assms(1)] heartbeat_upd_def)
qed

text \<open>A worker that registers for a model can be routed to, at any precision its maximum
  covers, until its registration is \<open>staleAfter\<close> old.\<close>

lemma registered_worker_is_routable:
  assumes "registry_wf r" and "t + sint (- staleAfter r) < now" and "eligible_for m pref w"
  shows "\<exists>p. Select (deref (Registry_Register now w r))
    (Registry_Snapshot t (Registry_Register now w r)) m pref prio = Inr p"
  using pool.registered_is_routable [OF assms(1), of t now m pref w prio] assms(2,3)
  by (simp add: live_cutoff_def)

section \<open>Properties: requests\<close>

text \<open>C22: a successful \<open>Predict\<close>, whatever other requests do meanwhile, was answered with
  status 200 by a worker that was registered, live and eligible when the request was routed;
  no such worker had a smaller score, and no such worker of the same score has a smaller id.\<close>

theorem predict_uses_best_worker:
  assumes wf: "registry_wf reg" and grows: "heap_grows reg (interfere reg)"
    and ok: "Server_Predict ck call interfere reg req = (Inr resp, reg')"
  defines "prio \<equiv> priorityToDomain (req_Priority req)"
    and "elig \<equiv> \<lambda>v. live_cutoff (ck_snapshot ck) reg < wi_LastHeartbeat v \<and>
          eligible_for (req_ModelName req) (precisionToDomain (req_PreferredPrecision req)) v"
  shows "\<exists>w. view reg (resp_WorkerId resp) = Some w \<and> elig w \<and>
    (\<exists>raw b. call (w_Endpoint w @ ''/predict'') (worker_request_body req) = Responded 200 raw b) \<and>
    (\<forall>i v. view reg i = Some v \<and> elig v \<longrightarrow>
       worker_score prio w < worker_score prio v \<or>
       worker_score prio w = worker_score prio v \<and> resp_WorkerId resp \<le> i)"
  unfolding prio_def elig_def by (rule Predict_answers_best [OF wf grows ok])

theorem predict_uses_best_worker_witness:
  "\<exists>w. view demo_registry ''gpu'' = Some w \<and> eligible_for ''m'' ''fp32'' w \<and>
    live_cutoff 31 demo_registry < wi_LastHeartbeat w"
proof -
  have "precisionToDomain (req_PreferredPrecision demo_request) = ''fp32''"
    and "priorityToDomain (req_Priority demo_request) = 2" and "req_ModelName demo_request = ''m''"
    and "ck_snapshot demo_clock = 31"
    by (simp_all add: demo_clock_def demo_request_def precisionToDomain_def precision_defs
        priorityToDomain_def pb_priority_defs priority_defs)
  moreover have "heap_grows demo_registry (id demo_registry)"
    by simp
  ultimately show ?thesis
    using predict_uses_best_worker [OF demo_registry_wf _ demo_predict] by auto
qed

text \<open>C36: a failed \<open>Predict\<close> records no heartbeat. It fails with \<open>Unavailable\<close> before any call
  when no eligible worker is live; after the call, \<open>Unavailable\<close> means the call failed and
  \<open>Internal\<close> that the URL was refused, the status was not 200 or the reply was not decodable.\<close>

theorem predict_failures:
  assumes "Server_Predict ck call interfere reg req = (Inl e, reg')"
  shows "(\<exists>s. e = (Unavailable, RouteRequest s)) \<and> reg' = reg
      \<and> Predict_route ck reg req = Inl e
    \<or> reg' = interfere reg \<and>
      (\<exists>p w. Predict_route ck reg req = Inr p \<and> w = deref (interfere reg) p \<and>
        (case call (w_Endpoint (deref reg p) @ ''/predict'') (worker_request_body req) of
           BuildFailed err \<Rightarrow> e = (Internal, BuildWorkerRequest err)
         | CallFailed err \<Rightarrow> e = (Unavailable, CallWorker (wi_ID w) err)
         | Responded status raw b \<Rightarrow>
             e = (Internal, if status \<noteq> 200 then WorkerReturned (wi_ID w) status raw
                            else DecodeWorkerResponse)))"
proof (rule Server_Predict_cases [of ck reg req call interfere])
  fix p
  assume route: "Predict_route ck reg req = Inr p"
    and "Server_Predict ck call interfere reg req =
           Predict_finish ck req p (call (w_Endpoint (deref reg p) @ ''/predict'') (worker_request_body req))
             (interfere reg)"
  then have "Predict_finish ck req p
      (call (w_Endpoint (deref reg p) @ ''/predict'') (worker_request_body req)) (interfere reg)
        = (Inl e, reg')"
    using assms by simp
  then show ?thesis
    using route
    by (auto simp: Predict_finish_def Let_def split: http_result.splits if_splits option.splits)
qed (use assms in simp)

theorem predict_failures_witness:
  "snd (Server_Predict demo_clock (\<lambda>_ _. CallFailed ''refused'') id demo_registry demo_request) = demo_registry"
  using predict_failures [of demo_clock "\<lambda>_ _. CallFailed ''refused''" id demo_registry demo_request]
  by (cases "Server_Predict demo_clock (\<lambda>_ _. CallFailed ''refused'') id demo_registry demo_request")
     (auto simp: Server_Predict_def demo_route Predict_finish_def)

text \<open>The response repeats the requested precision, not the one the worker reports to have
  used, and takes model version, output, label and confidence from the worker's reply.\<close>

lemma predict_response_fields:
  assumes "Predict_finish ck req p (Responded 200 raw b) reg = (Inr resp, reg')"
  shows "\<exists>wr. decode_struct worker_response_field zero_worker_response b = Some wr
    \<and> resp = \<lparr>resp_RequestId = req_RequestId req, resp_WorkerId = wi_ID (deref reg p),
        resp_ModelName = req_ModelName req, resp_ModelVersion = wr_ModelVersion wr,
        resp_PrecisionUsed = req_PreferredPrecision req, resp_Output = wr_Output wr,
        resp_PredictedLabel = wr_PredictedLabel wr, resp_Confidence = wr_Confidence wr,
        resp_LatencyMs = since_ms (ck_done ck) (ck_start ck), resp_QueueTimeMs = queue_ms ck req\<rparr>"
  using assms by (auto simp: Predict_finish_def Let_def split: option.splits)

text \<open>The router keeps the order of a stream: the responses sent answer the requests
  received, one each and in order, and all of them when the stream ends normally.\<close>

lemma stream_answers_in_order:
  assumes "StreamPredict (Predict_nth cks calls interferes) send ms s [] = (out, sent, s')"
  shows "\<exists>rest. map req_RequestId (requests_before_eof ms) = map resp_RequestId sent @ rest
    \<and> (out = Some StreamDone \<longrightarrow> rest = [])"
proof -
  obtain new where "sent = [] @ new" "\<exists>rest. map req_RequestId (requests_before_eof ms)
      = map resp_RequestId new @ rest \<and> (out = Some StreamDone \<longrightarrow> rest = [])"
    using StreamPredict_ids [OF _ assms] Predict_nth_RequestId by blast
  then show ?thesis
    by simp
qed

section \<open>Properties: the running router\<close>

text \<open>C37: in every reachable state of the router, with any number of requests and
  registrations interleaved, every worker object records zero requests in flight.\<close>

theorem in_flight_always_zero:
  assumes "router_reachable stale s" and "w \<in> set (heap (rs_registry s))"
  shows "wi_InFlight w = 0"
  using router_reachable_inv [OF assms(1)] assms(2) by (simp add: router_inv_def)

theorem in_flight_always_zero_witness: "wi_InFlight (deref demo_registry 1) = 0"
  by (rule in_flight_always_zero [OF demo_reachable]) (simp add: demo_registry_eq deref_def)

text \<open>So the load term of the score never counts: in the running router a worker's score
  is its last latency, less the GPU bonus on critical requests.\<close>

lemma score_is_latency_only:
  assumes "router_reachable stale s" and "w \<in> set (heap (rs_registry s))"
    and "\<bar>sint (wi_LastLatencyMS w)\<bar> < 2 ^ 48"
  shows "worker_score prio w =
    sint (wi_LastLatencyMS w) - (if prio = PriorityCritical \<and> wi_GPUAvailable w then 25 else 0)"
proof -
  have "wi_InFlight w = 0"
    using router_reachable_inv [OF assms(1)] assms(2) by (simp add: router_inv_def)
  then show ?thesis
    using assms(3) worker_score_exact [of w prio] by (simp add: small_load_def ideal_score_def)
qed

text \<open>A worker that registers again, as the workers do to stay alive, starts over with
  latency 0 and load 0: what the router observed about it is forgotten. No other worker is
  affected.\<close>

lemma reregistration_forgets_latency:
  assumes "registry_wf reg" and "Server_RegisterWorker now req reg = (Inr True, reg')"
  shows "\<exists>w. view reg' = (view reg)(rw_WorkerId req \<mapsto> w) \<and>
    wi_LastLatencyMS w = 0 \<and> wi_InFlight w = 0 \<and> wi_LastHeartbeat w = now"
  using assms by (auto simp: Server_RegisterWorker_def step_simps split: if_splits)

end
