(* ===== verification/Decimal.thy ===== *)
theory Decimal
  imports Prelude
begin

text \<open>
  Decimal printing and reading of machine integers: the hand-written \<open>itoa\<close> of
  \<open>shared/pkg/queue/memory.go\<close> (which numbers the messages of the in-memory queue) and of
  \<open>cmd/router/main.go\<close> and \<open>cmd/simulator/main.go\<close>, and the \<open>strconv\<close> functions the
  configuration and the metrics use. The lemmas relate the loops to one specification,
  \<open>dec_digits\<close>, and show that reading undoes printing.
\<close>

section \<open>The loops\<close>

definition digit_char :: "int \<Rightarrow> char" where
  "digit_char d = char_of (48 + d)"

text \<open>
  The loop of \<open>queue.itoa\<close>: it fills the 20-byte buffer from its end. \<open>i\<close> is the index of
  the first byte written and \<open>b\<close> the bytes from \<open>i\<close> on; a write below index 0 is the
  run-time panic of Go, \<open>None\<close>.
\<close>

function itoa_loop :: "int \<Rightarrow> nat \<Rightarrow> string \<Rightarrow> (nat \<times> string) option" where
  "itoa_loop n i b =
     (if 0 < n
      then (if i = 0 then None else itoa_loop (n div 10) (i - 1) (digit_char (n mod 10) # b))
      else Some (i, b))"
  by pat_completeness auto
termination
  by (relation "measure (\<lambda>(n, i, b). nat n)") auto

declare itoa_loop.simps [simp del]

definition queue_itoa :: "go_int \<Rightarrow> string option" where
  "queue_itoa n =
     (if n = 0 then Some ''0''
      else let neg = sint n < 0;
               m = (if neg then - n else n)
           in case itoa_loop (sint m) 20 [] of
                None \<Rightarrow> None
              | Some (i, b) \<Rightarrow>
                  if neg then (if i = 0 then None else Some (CHR ''-'' # b)) else Some b)"

text \<open>The loop of the other two copies, which prepend to a growing slice.\<close>

function prepend_digits :: "int \<Rightarrow> string \<Rightarrow> string" where
  "prepend_digits n digits =
     (if 0 < n then prepend_digits (n div 10) (digit_char (n mod 10) # digits) else digits)"
  by pat_completeness auto
termination
  by (relation "measure (\<lambda>(n, b). nat n)") auto

declare prepend_digits.simps [simp del]

definition router_itoa :: "go_int \<Rightarrow> string" where
  "router_itoa n = (if n = 0 then ''0'' else prepend_digits (sint n) [])"

definition simulator_itoa :: "go_int \<Rightarrow> string" where
  "simulator_itoa n = (if n = 0 then ''0'' else prepend_digits (sint n) [])"

definition vehicleID :: "go_int \<Rightarrow> string" where
  "vehicleID i = ''vehicle-'' @ simulator_itoa i"

section \<open>The library's \<open>strconv.Atoi\<close> and \<open>strconv.Itoa\<close>\<close>

definition is_digit :: "char \<Rightarrow> bool" where
  "is_digit c = (48 \<le> (of_char c :: int) \<and> (of_char c :: int) \<le> 57)"

definition digit_val :: "char \<Rightarrow> int" where
  "digit_val c = of_char c - 48"

definition dec_val :: "string \<Rightarrow> int" where
  "dec_val s = foldl (\<lambda>v c. 10 * v + digit_val c) 0 s"

definition atoi :: "string \<Rightarrow> int option" where
  "atoi s =
     (let neg = (case s of c # _ \<Rightarrow> c = CHR ''-'' | [] \<Rightarrow> False);
          ds = (case s of c # cs \<Rightarrow> if c = CHR ''-'' \<or> c = CHR ''+'' then cs else s | [] \<Rightarrow> []);
          v = (if neg then - dec_val ds else dec_val ds)
      in if ds \<noteq> [] \<and> list_all is_digit ds \<and> - (2 ^ 63) \<le> v \<and> v < 2 ^ 63
         then Some v else None)"

text \<open>The decimal digits of a number, most significant first; none for 0.\<close>

fun dec_digits :: "nat \<Rightarrow> string" where
  "dec_digits n = (if n = 0 then [] else dec_digits (n div 10) @ [digit_char (int (n mod 10))])"

declare dec_digits.simps [simp del]

definition strconv_itoa :: "int \<Rightarrow> string" where
  "strconv_itoa n =
     (if n = 0 then ''0''
      else if n < 0 then CHR ''-'' # dec_digits (nat (- n)) else dec_digits (nat n))"

section \<open>What the loops compute\<close>

lemma dec_digits_0 [simp]: "dec_digits 0 = []"
  by (simp add: dec_digits.simps)

lemma dec_digits_Nil_iff [simp]: "dec_digits n = [] \<longleftrightarrow> n = 0"
  by (subst dec_digits.simps) simp

lemma length_dec_digits: "length (dec_digits n) \<le> k \<longleftrightarrow> n < 10 ^ k"
proof (induction n arbitrary: k rule: dec_digits.induct)
  case (1 n)
  show ?case
  proof (cases "n = 0")
    case False
    then have eq: "length (dec_digits n) = Suc (length (dec_digits (n div 10)))"
      by (subst dec_digits.simps) simp
    show ?thesis
    proof (cases k)
      case (Suc j)
      then show ?thesis
        using False "1.IH" [of j] by (simp add: eq) (simp add: div_less_iff_less_mult mult.commute)
    qed (use False in simp)
  qed simp
qed

lemma itoa_loop_eq:
  "itoa_loop n i b =
     (let d = dec_digits (nat n)
      in if length d \<le> i then Some (i - length d, d @ b) else None)"
proof (induction n i b rule: itoa_loop.induct)
  case (1 n i b)
  show ?case
  proof (cases "0 < n")
    case True
    have d: "dec_digits (nat n) = dec_digits (nat (n div 10)) @ [digit_char (n mod 10)]"
      using True by (subst dec_digits.simps) (simp add: nat_div_distrib nat_mod_distrib zmod_int)
    show ?thesis
    proof (cases "i = 0")
      case True
      with \<open>0 < n\<close> show ?thesis
        by (simp add: itoa_loop.simps [of n] d Let_def)
    next
      case False
      with \<open>0 < n\<close> show ?thesis
        using "1.IH" by (auto simp: itoa_loop.simps [of n] d Let_def)
    qed
  qed (simp add: itoa_loop.simps [of n])
qed

lemma prepend_digits_eq: "prepend_digits n b = dec_digits (nat n) @ b"
proof (induction n b rule: prepend_digits.induct)
  case (1 n b)
  show ?case
  proof (cases "0 < n")
    case True
    then have "dec_digits (nat n) = dec_digits (nat (n div 10)) @ [digit_char (n mod 10)]"
      by (subst dec_digits.simps) (simp add: nat_div_distrib nat_mod_distrib zmod_int)
    then show ?thesis
      using True "1.IH" by (simp add: prepend_digits.simps [of n])
  qed (simp add: prepend_digits.simps [of n])
qed

lemma digit_val_char: "0 \<le> d \<Longrightarrow> d < 10 \<Longrightarrow> digit_val (digit_char d) = d"
  by (simp add: digit_val_def digit_char_def)

lemma is_digit_char: "0 \<le> d \<Longrightarrow> d < 10 \<Longrightarrow> is_digit (digit_char d)"
  by (simp add: is_digit_def digit_char_def)

lemma dec_val_snoc [simp]: "dec_val (s @ [c]) = 10 * dec_val s + digit_val c"
  by (simp add: dec_val_def)

lemma dec_val_digits [simp]: "dec_val (dec_digits n) = int n"
proof (induction n rule: dec_digits.induct)
  case (1 n)
  show ?case
  proof (cases "n = 0")
    case False
    then have "dec_val (dec_digits n) = 10 * dec_val (dec_digits (n div 10)) + int (n mod 10)"
      by (subst dec_digits.simps) (simp add: digit_val_char)
    then show ?thesis
      using False "1.IH" by (simp add: zdiv_int zmod_int)
  qed (simp add: dec_val_def)
qed

lemma digits_dec_digits: "list_all is_digit (dec_digits n)"
proof (induction n rule: dec_digits.induct)
  case (1 n)
  then show ?case
    by (subst dec_digits.simps) (auto simp: is_digit_char)
qed

lemma hd_dec_digits: "0 < n \<Longrightarrow> \<exists>c cs. dec_digits n = c # cs \<and> is_digit c"
  using digits_dec_digits [of n] by (cases "dec_digits n") auto

lemma atoi_dec_digits:
  assumes "0 < n" and "int n < 2 ^ 63"
  shows "atoi (dec_digits n) = Some (int n)"
proof -
  obtain c cs where d: "dec_digits n = c # cs" and c: "is_digit c"
    using hd_dec_digits [OF assms(1)] by blast
  have "c \<noteq> CHR ''-''" and "c \<noteq> CHR ''+''"
    using c by (auto simp: is_digit_def)
  then show ?thesis
    using assms digits_dec_digits [of n] dec_val_digits [of n] by (simp add: atoi_def d Let_def)
qed

lemma atoi_neg_dec_digits:
  assumes "0 < n" and "int n \<le> 2 ^ 63"
  shows "atoi (CHR ''-'' # dec_digits n) = Some (- int n)"
  using assms digits_dec_digits [of n] by (simp add: atoi_def Let_def)

lemma atoi_zero: "atoi ''0'' = Some 0"
  by (simp add: atoi_def dec_val_def digit_val_def is_digit_def)

lemma atoi_strconv_itoa: "- (2 ^ 63) \<le> n \<Longrightarrow> n < 2 ^ 63 \<Longrightarrow> atoi (strconv_itoa n) = Some n"
  using atoi_dec_digits [of "nat n"] atoi_neg_dec_digits [of "nat (- n)"]
  by (auto simp: strconv_itoa_def atoi_zero)

section \<open>The copies agree with the library\<close>

definition min_int64 :: go_int where
  "min_int64 = 2 ^ 63"

lemma sint_min_int64 [simp]: "sint min_int64 = - (2 ^ 63)"
  by (simp add: min_int64_def)

lemma sint_neg64: "n \<noteq> min_int64 \<Longrightarrow> sint (- n :: go_int) = - sint n"
proof -
  assume "n \<noteq> min_int64"
  then have "sint n \<noteq> - (2 ^ 63)"
    by (metis sint_min_int64 signed_word_eqI)
  then have "signed_take_bit 63 (- sint n) = - sint n"
    using sint64_range [of n] by (intro signed_take_bit_int_eq_self) auto
  then show ?thesis
    by (simp add: sint_word_ariths)
qed

lemma queue_itoa_strconv:
  assumes "n \<noteq> min_int64"
  shows "queue_itoa n = Some (strconv_itoa (sint n))"
proof (cases "n = 0")
  case False
  define m where "m = (if sint n < 0 then - n else n)"
  have m: "sint m = \<bar>sint n\<bar>" and nz: "sint n \<noteq> 0"
    using False assms by (simp_all add: m_def sint_neg64 sint64_0_iff)
  have "nat (sint m) < 10 ^ 19"
    using sint64_range(2) [of m] by (simp add: m nat_less_iff)
  then have len: "length (dec_digits (nat (sint m))) \<le> 19"
    by (simp add: length_dec_digits)
  have "queue_itoa n =
      (case itoa_loop (sint m) 20 [] of
         None \<Rightarrow> None
       | Some (i, b) \<Rightarrow>
           if sint n < 0 then (if i = 0 then None else Some (CHR ''-'' # b)) else Some b)"
    using False unfolding queue_itoa_def Let_def m_def by (simp only: if_False)
  then show ?thesis
    using len nz by (auto simp: itoa_loop_eq strconv_itoa_def m Let_def)
qed (simp add: queue_itoa_def strconv_itoa_def)

end
