(* ===== verification/Queue.thy ===== *)
theory Queue
  imports Decimal Json
begin

text \<open>
  The job queue of \<open>shared/pkg/queue\<close>: the interface \<open>Queue\<close> of \<open>queue.go\<close> as a record of
  operations with a locale of the laws its users rely on, and the in-process backend of
  \<open>memory.go\<close>, which provides them.

  Go channels and contexts: a buffered channel is the list of its messages. An operation that
  waits for ever on a full channel is \<open>Blocked\<close>. A context is its error: \<open>None\<close> while it is
  live, \<open>Some err\<close> once it is done. When both cases of a \<open>select\<close> are ready Go picks one at
  random; the argument \<open>pick\<close> is that choice.
\<close>

datatype 'a run = Done 'a | Blocked | Panicked

type_synonym 'a call = "(string option \<times> 'a) run"

section \<open>The interface\<close>

record Message =
  msg_ID :: string
  msg_Payload :: body
  msg_Attempt :: go_int

record 'q queue_ops =
  q_Enqueue :: "string \<Rightarrow> body \<Rightarrow> 'q \<Rightarrow> 'q call"
  q_DeadLetter :: "string \<Rightarrow> body \<Rightarrow> string \<Rightarrow> 'q \<Rightarrow> 'q call"

section \<open>The in-memory backend\<close>

record Memory =
  topics :: "(string, Message list) gomap"
  dlq :: "(string, body list) gomap"
  seq :: go_int
  closed :: bool

definition NewMemory :: Memory where
  "NewMemory = \<lparr>topics = [], dlq = [], seq = 0, closed = False\<rparr>"

definition chan_capacity :: nat where
  "chan_capacity = 1024"

text \<open>The messages in a topic's channel; a topic without a channel has none.\<close>

definition chan :: "Memory \<Rightarrow> string \<Rightarrow> Message list" where
  "chan m topic = (case map_of (topics m) topic of None \<Rightarrow> [] | Some ch \<Rightarrow> ch)"

definition set_chan :: "string \<Rightarrow> Message list \<Rightarrow> Memory \<Rightarrow> Memory" where
  "set_chan topic ch m = m\<lparr>topics := AList.update topic ch (topics m)\<rparr>"

definition Memory_chanFor :: "string \<Rightarrow> Memory \<Rightarrow> Memory" where
  "Memory_chanFor topic m =
     (case map_of (topics m) topic of None \<Rightarrow> set_chan topic [] m | Some ch \<Rightarrow> m)"

definition Memory_Enqueue :: "string option \<Rightarrow> bool \<Rightarrow> string \<Rightarrow> body \<Rightarrow> Memory \<Rightarrow> Memory call" where
  "Memory_Enqueue ctx pick topic payload m =
     (let m1 = m\<lparr>seq := seq m + 1\<rparr> in
      case queue_itoa (seq m1) of
        None \<Rightarrow> Panicked
      | Some i \<Rightarrow>
          (let m2 = Memory_chanFor topic m1;
               ch = chan m2 topic;
               msg = \<lparr>msg_ID = i, msg_Payload = payload, msg_Attempt = 1\<rparr>;
               ready = length ch < chan_capacity
           in case ctx of
                None \<Rightarrow> if ready then Done (None, set_chan topic (ch @ [msg]) m2) else Blocked
              | Some err \<Rightarrow>
                  if ready \<and> pick then Done (None, set_chan topic (ch @ [msg]) m2)
                  else Done (Some err, m2)))"

definition Memory_DeadLetter :: "string \<Rightarrow> body \<Rightarrow> string \<Rightarrow> Memory \<Rightarrow> Memory call" where
  "Memory_DeadLetter topic payload reason m =
     Done (None, m\<lparr>dlq := AList.update topic
        ((case map_of (dlq m) topic of None \<Rightarrow> [] | Some ps \<Rightarrow> ps) @ [payload]) (dlq m)\<rparr>)"

definition Memory_DeadLettered :: "string \<Rightarrow> Memory \<Rightarrow> body list" where
  "Memory_DeadLettered topic m = (case map_of (dlq m) topic of None \<Rightarrow> [] | Some ps \<Rightarrow> ps)"

definition Memory_Close :: "Memory \<Rightarrow> Memory call" where
  "Memory_Close m = Done (None, m\<lparr>closed := True\<rparr>)"

text \<open>
  The consumer loop. The queue lives in a larger state \<open>'s\<close> that the handler changes too;
  \<open>get\<close> and \<open>put\<close> reach it. The argument lists what each \<open>select\<close> of the loop does:
  \<open>TakeDone\<close> (only possible once the context is done) returns, \<open>TakeMsg\<close> waits for a message.
  At the end of the list, and when it waits on an empty channel, the loop is still running.
\<close>

datatype consume_choice = TakeDone | TakeMsg

datatype consume_status = Returned | Running | Stuck

text \<open>What the loop does with one message: handle it, and on an error put it back if there is room.\<close>

definition Memory_deliver ::
  "('s \<Rightarrow> Memory) \<Rightarrow> (Memory \<Rightarrow> 's \<Rightarrow> 's) \<Rightarrow> string \<Rightarrow> (Message \<Rightarrow> 's \<Rightarrow> 's call) \<Rightarrow> Message \<Rightarrow> 's \<Rightarrow> 's option"
where
  "Memory_deliver get put topic handler msg s =
     (case handler msg s of
        Done (None, s') \<Rightarrow> Some s'
      | Done (Some err, s') \<Rightarrow>
          (let msg' = msg\<lparr>msg_Attempt := msg_Attempt msg + 1\<rparr>;
               ch = chan (get s') topic
           in if length ch < chan_capacity
              then Some (put (set_chan topic (ch @ [msg']) (get s')) s') else Some s')
      | Blocked \<Rightarrow> None
      | Panicked \<Rightarrow> None)"

fun Memory_loop ::
  "('s \<Rightarrow> Memory) \<Rightarrow> (Memory \<Rightarrow> 's \<Rightarrow> 's) \<Rightarrow> string \<Rightarrow> (Message \<Rightarrow> 's \<Rightarrow> 's call)
     \<Rightarrow> consume_choice list \<Rightarrow> 's \<Rightarrow> consume_status \<times> 's"
where
  "Memory_loop get put topic handler [] s = (Running, s)"
| "Memory_loop get put topic handler (TakeDone # cs) s = (Returned, s)"
| "Memory_loop get put topic handler (TakeMsg # cs) s =
     (case chan (get s) topic of
        [] \<Rightarrow> (Running, s)
      | msg # rest \<Rightarrow>
          (case Memory_deliver get put topic handler msg (put (set_chan topic rest (get s)) s) of
             None \<Rightarrow> (Stuck, s)
           | Some s' \<Rightarrow> Memory_loop get put topic handler cs s'))"

definition Memory_Consume ::
  "('s \<Rightarrow> Memory) \<Rightarrow> (Memory \<Rightarrow> 's \<Rightarrow> 's) \<Rightarrow> string \<Rightarrow> (Message \<Rightarrow> 's \<Rightarrow> 's call)
     \<Rightarrow> consume_choice list \<Rightarrow> 's \<Rightarrow> consume_status \<times> 's"
where
  "Memory_Consume get put topic handler cs s =
     Memory_loop get put topic handler cs (put (Memory_chanFor topic (get s)) s)"

section \<open>What its users rely on\<close>

text \<open>
  \<open>pending\<close> and \<open>dead\<close> observe a queue: the payloads waiting in a topic, oldest first, and
  those dead-lettered for it. A successful \<open>Enqueue\<close> appends to one topic and a successful
  \<open>DeadLetter\<close> to one dead-letter list; whatever fails changes neither.
\<close>

locale work_queue =
  fixes ops :: "'q queue_ops"
    and pending :: "'q \<Rightarrow> string \<Rightarrow> body list"
    and dead :: "'q \<Rightarrow> string \<Rightarrow> body list"
  assumes enqueue_ok: "q_Enqueue ops t b q = Done (None, q') \<Longrightarrow>
      pending q' = (pending q)(t := pending q t @ [b]) \<and> dead q' = dead q"
    and enqueue_err: "q_Enqueue ops t b q = Done (Some e, q') \<Longrightarrow> pending q' = pending q \<and> dead q' = dead q"
    and dead_ok: "q_DeadLetter ops t b r q = Done (None, q') \<Longrightarrow>
      dead q' = (dead q)(t := dead q t @ [b]) \<and> pending q' = pending q"
    and dead_err: "q_DeadLetter ops t b r q = Done (Some e, q') \<Longrightarrow> pending q' = pending q \<and> dead q' = dead q"
begin

lemma enqueue_done:
  "q_Enqueue ops t b q = Done (e, q') \<Longrightarrow> dead q' = dead q \<and>
     pending q' = (if e = None then (pending q)(t := pending q t @ [b]) else pending q)"
  using enqueue_ok [of t b q q'] enqueue_err [of t b q _ q'] by (cases e) auto

lemma dead_letter_done:
  "q_DeadLetter ops t b r q = Done (e, q') \<Longrightarrow> pending q' = pending q \<and>
     dead q' = (if e = None then (dead q)(t := dead q t @ [b]) else dead q)"
  using dead_ok [of t b r q q'] dead_err [of t b r q _ q'] by (cases e) auto

end

text \<open>A queue that takes what it is given, in the states in which a topic is \<open>ready\<close>.\<close>

locale accepting_queue = work_queue ops pending dead
  for ops :: "'q queue_ops" and pending dead +
  fixes ready :: "'q \<Rightarrow> string \<Rightarrow> bool"
  assumes enqueue_accepted: "ready q t \<Longrightarrow> \<exists>q'. q_Enqueue ops t b q = Done (None, q')"
    and dead_accepted: "ready q t \<Longrightarrow> \<exists>q'. q_DeadLetter ops t b r q = Done (None, q')"

definition Memory_ops :: "string option \<Rightarrow> bool \<Rightarrow> Memory queue_ops" where
  "Memory_ops ctx pick = \<lparr>q_Enqueue = Memory_Enqueue ctx pick, q_DeadLetter = Memory_DeadLetter\<rparr>"

definition payloads :: "Memory \<Rightarrow> string \<Rightarrow> body list" where
  "payloads m topic = map msg_Payload (chan m topic)"

definition dead_payloads :: "Memory \<Rightarrow> string \<Rightarrow> body list" where
  "dead_payloads m topic = Memory_DeadLettered topic m"

section \<open>The in-memory backend keeps the laws\<close>

lemma chan_set_chan [simp]: "chan (set_chan t ch m) u = (if u = t then ch else chan m u)"
  by (simp add: chan_def set_chan_def update_conv')

lemma chan_chanFor [simp]: "chan (Memory_chanFor t m) u = chan m u"
  by (simp add: chan_def Memory_chanFor_def set_chan_def update_conv' split: option.splits)

lemma chan_seq [simp]: "chan (m\<lparr>seq := n\<rparr>) t = chan m t"
  by (simp add: chan_def)

lemma chan_dlq [simp]: "chan (m\<lparr>dlq := d\<rparr>) t = chan m t"
  by (simp add: chan_def)

lemma dlq_set_chan [simp]: "dlq (set_chan t ch m) = dlq m"
  by (simp add: set_chan_def)

lemma dlq_chanFor [simp]: "dlq (Memory_chanFor t m) = dlq m"
  by (simp add: Memory_chanFor_def split: option.splits)

lemma queue_itoa_total: "\<exists>i. queue_itoa n = Some i"
proof (cases "n = min_int64")
  case True
  have "queue_itoa min_int64 = Some ''-''"
    by (simp add: queue_itoa_def min_int64_def itoa_loop_eq Let_def)
  then show ?thesis
    using True by blast
qed (simp add: queue_itoa_strconv)

lemma Memory_Enqueue_cases:
  obtains i where
    "queue_itoa (seq m + 1) = Some i"
    "Memory_Enqueue ctx pick t b m =
       (let m2 = Memory_chanFor t (m\<lparr>seq := seq m + 1\<rparr>);
            sent = set_chan t (chan m t @ [\<lparr>msg_ID = i, msg_Payload = b, msg_Attempt = 1\<rparr>]) m2
        in if length (chan m t) < chan_capacity \<and> (ctx = None \<or> pick) then Done (None, sent)
           else case ctx of None \<Rightarrow> Blocked | Some err \<Rightarrow> Done (Some err, m2))"
proof -
  obtain i where i: "queue_itoa (seq m + 1) = Some i"
    using queue_itoa_total by blast
  then show thesis
    by (intro that [OF i]) (simp add: Memory_Enqueue_def Let_def split: option.split)
qed

lemma dead_payloads_parts [simp]:
  "dead_payloads (set_chan t ch m) = dead_payloads m"
  "dead_payloads (Memory_chanFor t m) = dead_payloads m"
  "dead_payloads (m\<lparr>seq := n\<rparr>) = dead_payloads m"
  by (simp_all add: dead_payloads_def Memory_DeadLettered_def fun_eq_iff)

lemma payloads_parts [simp]:
  "payloads (set_chan t ch m) = (payloads m)(t := map msg_Payload ch)"
  "payloads (Memory_chanFor t m) = payloads m"
  "payloads (m\<lparr>seq := n\<rparr>) = payloads m"
  by (simp_all add: payloads_def fun_eq_iff)

interpretation memory: work_queue "Memory_ops ctx pick" payloads dead_payloads
proof unfold_locales
  fix t b q q'
  assume "q_Enqueue (Memory_ops ctx pick) t b q = Done (None, q')"
  then show "payloads q' = (payloads q)(t := payloads q t @ [b]) \<and> dead_payloads q' = dead_payloads q"
    by (rule_tac Memory_Enqueue_cases [of q ctx pick t b])
       (auto simp: Memory_ops_def Let_def payloads_def split: if_splits option.splits)
next
  fix t b q e q'
  assume "q_Enqueue (Memory_ops ctx pick) t b q = Done (Some e, q')"
  then show "payloads q' = payloads q \<and> dead_payloads q' = dead_payloads q"
    by (rule_tac Memory_Enqueue_cases [of q ctx pick t b])
       (auto simp: Memory_ops_def Let_def split: if_splits option.splits)
next
  fix t b r q q'
  assume "q_DeadLetter (Memory_ops ctx pick) t b r q = Done (None, q')"
  then show "dead_payloads q' = (dead_payloads q)(t := dead_payloads q t @ [b]) \<and> payloads q' = payloads q"
    by (auto simp: Memory_ops_def Memory_DeadLetter_def dead_payloads_def Memory_DeadLettered_def
        payloads_def update_conv' fun_eq_iff)
qed (simp add: Memory_ops_def Memory_DeadLetter_def)

text \<open>With a live context, \<open>Enqueue\<close> waits exactly when the topic's channel is full.\<close>

lemma Memory_Enqueue_live:
  "Memory_Enqueue None pick t b m =
     (if length (payloads m t) < chan_capacity
      then Done (None, set_chan t (chan m t @ [\<lparr>msg_ID = the (queue_itoa (seq m + 1)), msg_Payload = b,
                                               msg_Attempt = 1\<rparr>])
                         (Memory_chanFor t (m\<lparr>seq := seq m + 1\<rparr>)))
      else Blocked)"
  by (rule Memory_Enqueue_cases [of m None pick t b]) (simp add: payloads_def Let_def)

text \<open>With a context that is done it never waits: it accepts if there is room and \<open>select\<close> picks the send.\<close>

lemma Memory_Enqueue_done:
  "\<exists>e q. Memory_Enqueue (Some err) pick t b m = Done (e, q) \<and> (e = None \<longleftrightarrow> pick \<and> length (payloads m t) < chan_capacity)"
  by (rule Memory_Enqueue_cases [of m "Some err" pick t b]) (auto simp: payloads_def Let_def)

text \<open>With a live context the queue accepts where there is room.\<close>

interpretation memory_room: accepting_queue "Memory_ops None pick" payloads dead_payloads
  "\<lambda>m t. length (payloads m t) < chan_capacity"
  by unfold_locales (simp_all add: Memory_ops_def Memory_Enqueue_live Memory_DeadLetter_def)

section \<open>A consumer process that is killed\<close>

text \<open>
  A handler with a record of the messages it has handled, in a process that is killed at the first message
  after it has handled \<open>lives\<close> of them.
\<close>

definition recorded :: "nat \<Rightarrow> (Message \<Rightarrow> 's \<Rightarrow> 's call) \<Rightarrow> Message \<Rightarrow> 's \<times> Message list \<Rightarrow> ('s \<times> Message list) call" where
  "recorded lives handler msg st =
     (if lives \<le> length (snd st) then Panicked
      else case handler msg (fst st) of
             Done (e, s') \<Rightarrow> Done (e, (s', snd st @ [msg])) | Blocked \<Rightarrow> Blocked | Panicked \<Rightarrow> Panicked)"

definition below :: "('s \<Rightarrow> 'r) \<Rightarrow> 's \<times> Message list \<Rightarrow> 'r" where
  "below get st = get (fst st)"

definition set_below :: "('r \<Rightarrow> 's \<Rightarrow> 's) \<Rightarrow> 'r \<Rightarrow> 's \<times> Message list \<Rightarrow> 's \<times> Message list" where
  "set_below put r st = (put r (fst st), snd st)"

lemma below_simps [simp]: "below get (s, tr) = get s" "set_below put r (s, tr) = (put r s, tr)"
  by (simp_all add: below_def set_below_def)

lemma recorded_simps:
  "length tr < lives \<Longrightarrow> handler msg s = Done (e, s') \<Longrightarrow> recorded lives handler msg (s, tr) = Done (e, (s', tr @ [msg]))"
  "length tr < lives \<Longrightarrow> handler msg s = Blocked \<Longrightarrow> recorded lives handler msg (s, tr) = Blocked"
  "length tr < lives \<Longrightarrow> handler msg s = Panicked \<Longrightarrow> recorded lives handler msg (s, tr) = Panicked"
  "\<not> length tr < lives \<Longrightarrow> recorded lives handler msg (s, tr) = Panicked"
  by (simp_all add: recorded_def)

end
