(* ===== verification/Dispatcher.thy ===== *)
theory Dispatcher
  imports Queue
begin

text \<open>
  The scheduler's job dispatcher, \<open>services/scheduler-go/internal/worker/dispatcher.go\<close>: take a
  job from the queue, call the router, publish the result, or retry with backoff and finally
  dead-letter.

  The state records what the handler does to the outside: the queue, the metric counters, the
  durations it slept and the requests it sent. The router is an oracle: \<open>predict n req\<close> is its
  answer to the \<open>n\<close>-th request of this run.
\<close>

section \<open>The code\<close>

record dispatch_metrics =
  Processed :: nat
  Failed :: nat
  Retried :: nat
  DeadLettered :: nat

record dispatch_config =
  d_JobsTopic :: string
  d_ResultsTopic :: string
  d_RetryBackoff :: int64
  d_HasMetrics :: bool

record 'q world =
  wd_queue :: 'q
  wd_metrics :: dispatch_metrics
  wd_sleeps :: "int64 list"
  wd_calls :: "InferenceRequest list"

definition scheduler_precisionToProto :: "Precision \<Rightarrow> pb_Precision" where
  "scheduler_precisionToProto p =
     (if p = PrecisionFP32 then PRECISION_FP32
      else if p = PrecisionFP16 then PRECISION_FP16
      else if p = PrecisionINT8 then PRECISION_INT8
      else if p = PrecisionINT4 then PRECISION_INT4
      else PRECISION_UNSPECIFIED)"

definition scheduler_priorityToProto :: "Priority \<Rightarrow> pb_Priority" where
  "scheduler_priorityToProto p =
     (if p = PriorityHigh then PRIORITY_HIGH
      else if p = PriorityCritical then PRIORITY_CRITICAL
      else PRIORITY_NORMAL)"

text \<open>\<open>if d.Metrics != nil { d.Metrics.X() }\<close>\<close>

definition count_metric :: "dispatch_config \<Rightarrow> (dispatch_metrics \<Rightarrow> dispatch_metrics) \<Rightarrow> 'q world \<Rightarrow> 'q world" where
  "count_metric d f s = (if d_HasMetrics d then s\<lparr>wd_metrics := f (wd_metrics s)\<rparr> else s)"

definition dispatch_request :: "InferenceJob \<Rightarrow> InferenceRequest" where
  "dispatch_request job =
     \<lparr>req_RequestId = job_ID job, req_VehicleId = job_VehicleID job, req_ModelName = job_ModelName job,
      req_ModelVersion = job_ModelVersion job,
      req_PreferredPrecision = scheduler_precisionToProto (job_PreferPrecision job),
      req_Features = map narrow32 (job_Features job),
      req_Priority = scheduler_priorityToProto (job_Priority job),
      req_SubmittedAtUnixMs = UnixMilli (job_SubmittedAt job)\<rparr>"

definition dispatch_result :: "InferenceJob \<Rightarrow> InferenceResponse \<Rightarrow> InferenceResult" where
  "dispatch_result job resp =
     \<lparr>res_JobID = job_ID job, res_WorkerID = resp_WorkerId resp, res_ModelName = resp_ModelName resp,
      res_ModelVersion = resp_ModelVersion resp, res_PrecisionUsed = [], res_Output = [],
      res_PredictedLabel = resp_PredictedLabel resp,
      res_Confidence = widen64 (resp_Confidence resp), res_LatencyMS = resp_LatencyMs resp,
      res_QueueTimeMS = resp_QueueTimeMs resp, res_Error = []\<rparr>"

definition Dispatcher_handle ::
  "'q queue_ops \<Rightarrow> dispatch_config \<Rightarrow> (nat \<Rightarrow> InferenceRequest \<Rightarrow> string + InferenceResponse)
     \<Rightarrow> InferenceJob \<Rightarrow> body \<Rightarrow> 'q world \<Rightarrow> 'q world call"
where
  "Dispatcher_handle ops d predict job0 raw s =
     (let job = job0\<lparr>job_Attempt := job_Attempt job0 + 1\<rparr>;
          req = dispatch_request job;
          s1 = s\<lparr>wd_calls := wd_calls s @ [req]\<rparr>
      in case predict (length (wd_calls s)) req of
           Inl err \<Rightarrow>
             (let s2 = count_metric d (\<lambda>m. m\<lparr>Failed := Failed m + 1\<rparr>) s1 in
              if sint (job_MaxAttempts job) \<le> sint (job_Attempt job)
              then (let s3 = count_metric d (\<lambda>m. m\<lparr>DeadLettered := DeadLettered m + 1\<rparr>) s2 in
                    case q_DeadLetter ops (d_JobsTopic d) raw err (wd_queue s3) of
                      Done (e, q') \<Rightarrow> Done (e, s3\<lparr>wd_queue := q'\<rparr>)
                    | Blocked \<Rightarrow> Blocked
                    | Panicked \<Rightarrow> Panicked)
              else (let s3 = count_metric d (\<lambda>m. m\<lparr>Retried := Retried m + 1\<rparr>) s2;
                        s4 = s3\<lparr>wd_sleeps := wd_sleeps s3 @ [d_RetryBackoff d * job_Attempt job]\<rparr>
                    in case q_Enqueue ops (d_JobsTopic d) (marshal_job job) (wd_queue s4) of
                         Done (e, q') \<Rightarrow> Done (None, s4\<lparr>wd_queue := q'\<rparr>)
                       | Blocked \<Rightarrow> Blocked
                       | Panicked \<Rightarrow> Panicked))
         | Inr resp \<Rightarrow>
             (let s2 = count_metric d (\<lambda>m. m\<lparr>Processed := Processed m + 1\<rparr>) s1 in
              case q_Enqueue ops (d_ResultsTopic d) (marshal_result (dispatch_result job resp)) (wd_queue s2) of
                Done (e, q') \<Rightarrow> Done (None, s2\<lparr>wd_queue := q'\<rparr>)
              | Blocked \<Rightarrow> Blocked
              | Panicked \<Rightarrow> Panicked))"

text \<open>The handler \<open>Run\<close> gives to \<open>Consume\<close>.\<close>

definition Dispatcher_on_message ::
  "'q queue_ops \<Rightarrow> dispatch_config \<Rightarrow> (nat \<Rightarrow> InferenceRequest \<Rightarrow> string + InferenceResponse)
     \<Rightarrow> Message \<Rightarrow> 'q world \<Rightarrow> 'q world call"
where
  "Dispatcher_on_message ops d predict msg s =
     (case unmarshal_job (msg_Payload msg) of
        None \<Rightarrow> Done (None, s)
      | Some job \<Rightarrow> Dispatcher_handle ops d predict job (msg_Payload msg) s)"

text \<open>\<open>Run\<close> over the in-memory queue, whose operations see the context \<open>ctx\<close>.\<close>

definition Dispatcher_Run ::
  "string option \<Rightarrow> bool \<Rightarrow> dispatch_config \<Rightarrow> (nat \<Rightarrow> InferenceRequest \<Rightarrow> string + InferenceResponse)
     \<Rightarrow> consume_choice list \<Rightarrow> Memory world \<Rightarrow> consume_status \<times> Memory world"
where
  "Dispatcher_Run ctx pick d predict cs s =
     Memory_Consume wd_queue (\<lambda>q s. s\<lparr>wd_queue := q\<rparr>) (d_JobsTopic d)
       (Dispatcher_on_message (Memory_ops ctx pick) d predict) cs s"

section \<open>What handling one job does, over any queue that keeps the laws\<close>

lemma count_parts [simp]:
  "wd_queue (count_metric d f s) = wd_queue s" "wd_sleeps (count_metric d f s) = wd_sleeps s"
  "wd_calls (count_metric d f s) = wd_calls s"
  by (simp_all add: count_metric_def)

definition attempted :: "InferenceJob \<Rightarrow> InferenceJob" where
  "attempted job = job\<lparr>job_Attempt := job_Attempt job + 1\<rparr>"

definition exhausted :: "InferenceJob \<Rightarrow> bool" where
  "exhausted job \<longleftrightarrow> sint (job_MaxAttempts job) \<le> sint (job_Attempt job + 1)"

text \<open>
  \<open>Completed\<close>: the router answered. \<open>Requeued\<close>: it failed and attempts are left. \<open>Buried\<close>: it
  failed for the last time. In each case the one queue operation either succeeds or leaves the
  queue as it was; the first two report success to the queue in both cases.
\<close>

datatype fate = Completed InferenceResponse | Requeued | Buried string

definition fate_of ::
  "(nat \<Rightarrow> InferenceRequest \<Rightarrow> string + InferenceResponse) \<Rightarrow> InferenceJob \<Rightarrow> 'q world \<Rightarrow> fate"
where
  "fate_of predict job s =
     (case predict (length (wd_calls s)) (dispatch_request (attempted job)) of
        Inr resp \<Rightarrow> Completed resp
      | Inl err \<Rightarrow> if exhausted job then Buried err else Requeued)"

context work_queue
begin

lemma handle_effect:
  assumes "Dispatcher_handle ops d predict job raw s = Done (e, s')"
  shows "case fate_of predict job s of
      Completed resp \<Rightarrow> e = None \<and> dead (wd_queue s') = dead (wd_queue s) \<and>
        (pending (wd_queue s') = (pending (wd_queue s))
            (d_ResultsTopic d := pending (wd_queue s) (d_ResultsTopic d)
               @ [marshal_result (dispatch_result (attempted job) resp)])
         \<or> pending (wd_queue s') = pending (wd_queue s))
    | Requeued \<Rightarrow> e = None \<and> dead (wd_queue s') = dead (wd_queue s) \<and>
        (pending (wd_queue s') = (pending (wd_queue s))
            (d_JobsTopic d := pending (wd_queue s) (d_JobsTopic d) @ [marshal_job (attempted job)])
         \<or> pending (wd_queue s') = pending (wd_queue s))
    | Buried err \<Rightarrow> pending (wd_queue s') = pending (wd_queue s) \<and>
        (if e = None
         then dead (wd_queue s') = (dead (wd_queue s))(d_JobsTopic d := dead (wd_queue s) (d_JobsTopic d) @ [raw])
         else dead (wd_queue s') = dead (wd_queue s))"
proof (cases "predict (length (wd_calls s)) (dispatch_request (attempted job))")
  case (Inr resp)
  then show ?thesis
    using assms
    by (auto simp: Dispatcher_handle_def fate_of_def Let_def attempted_def split: run.splits
        dest!: enqueue_done)
next
  case (Inl err)
  show ?thesis
  proof (cases "exhausted job")
    case True
    then show ?thesis
      using Inl assms
      by (auto simp: Dispatcher_handle_def fate_of_def Let_def attempted_def exhausted_def split: run.splits
          dest!: dead_letter_done)
  next
    case False
    then show ?thesis
      using Inl assms
      by (auto simp: Dispatcher_handle_def fate_of_def Let_def attempted_def exhausted_def
          split: run.splits dest!: enqueue_done)
  qed
qed

text \<open>Handling a job takes no other payload out of the queue.\<close>

lemma handle_keeps:
  assumes "Dispatcher_handle ops d predict job raw s = Done (e, s')"
  shows "set (pending (wd_queue s) t) \<subseteq> set (pending (wd_queue s') t)"
    and "set (dead (wd_queue s) t) \<subseteq> set (dead (wd_queue s') t)"
  using handle_effect [OF assms] by (auto split: fate.splits if_splits)

end

lemma handle_calls:
  assumes "Dispatcher_handle ops d predict job raw s = Done (e, s')"
  shows "wd_calls s' = wd_calls s @ [dispatch_request (attempted job)]"
  using assms
  by (auto simp: Dispatcher_handle_def Let_def attempted_def split: sum.splits if_splits run.splits)

text \<open>Handling a message applies at most one operation to the queue, and dead-letters on the jobs
  topic only.\<close>

lemma on_message_queue:
  assumes "Dispatcher_on_message ops d predict msg s = Done (e, s')"
  shows "wd_queue s' = wd_queue s
    \<or> (\<exists>t b e. q_Enqueue ops t b (wd_queue s) = Done (e, wd_queue s'))
    \<or> (\<exists>b r e. q_DeadLetter ops (d_JobsTopic d) b r (wd_queue s) = Done (e, wd_queue s'))"
  using assms
  by (auto simp: Dispatcher_on_message_def Dispatcher_handle_def Let_def
      split: option.splits sum.splits if_splits run.splits)

section \<open>What the router is asked\<close>

text \<open>
  A request a protocol client may send: enumeration values the schema declares, and features that
  are single-precision numbers.
\<close>

definition wf_request :: "InferenceRequest \<Rightarrow> bool" where
  "wf_request req \<longleftrightarrow>
     req_PreferredPrecision req \<in> {PRECISION_UNSPECIFIED, PRECISION_FP32, PRECISION_FP16, PRECISION_INT8, PRECISION_INT4}
     \<and> req_Priority req \<in> {PRIORITY_NORMAL, PRIORITY_HIGH, PRIORITY_CRITICAL}
     \<and> list_all is_f32 (req_Features req)"

lemma narrowed_f32 [simp]: "list_all is_f32 (map narrow32 xs)"
  by (simp add: list_all_iff is_f32_narrow32)

lemma wf_dispatch_request [simp]: "wf_request (dispatch_request job)"
  unfolding wf_request_def dispatch_request_def
  by (simp add: scheduler_precisionToProto_def scheduler_priorityToProto_def)

lemma handle_asks_wf:
  assumes "\<forall>n q. wf_request q \<longrightarrow> predict n q = predict' n q"
  shows "Dispatcher_handle ops d predict = Dispatcher_handle ops d predict'"
  using assms by (simp add: Dispatcher_handle_def fun_eq_iff)

lemma on_message_asks_wf:
  assumes "\<forall>n q. wf_request q \<longrightarrow> predict n q = predict' n q"
  shows "Dispatcher_on_message ops d predict = Dispatcher_on_message ops d predict'"
  by (intro ext) (simp add: Dispatcher_on_message_def handle_asks_wf [OF assms] split: option.split)

lemma on_message_records_wf:
  assumes "Dispatcher_on_message ops d predict msg s = Done (e, s')" and "list_all wf_request (wd_calls s)"
  shows "list_all wf_request (wd_calls s')"
  using assms
  by (auto simp: Dispatcher_on_message_def split: option.splits dest!: handle_calls)

lemma loop_records_wf:
  assumes "list_all wf_request (wd_calls s)"
  shows "list_all wf_request (wd_calls (snd (Memory_loop wd_queue (\<lambda>q s. s\<lparr>wd_queue := q\<rparr>) t
    (Dispatcher_on_message ops d predict) cs s)))"
  using assms
proof (induction cs arbitrary: s)
  case Nil
  then show ?case by simp
next
  case (Cons c cs)
  have step: "list_all wf_request (wd_calls s')"
    if "Memory_deliver wd_queue (\<lambda>q s. s\<lparr>wd_queue := q\<rparr>) t (Dispatcher_on_message ops d predict) msg s0 = Some s'"
      "list_all wf_request (wd_calls s0)" for msg s0 s'
    using that by (auto simp: Memory_deliver_def Let_def split: run.splits option.splits if_splits dest!: on_message_records_wf)
  show ?case
    using Cons step
    by (cases c) (auto split: list.split option.split)
qed

end
