(* ===== verification/DispatchMachine.thy ===== *)
theory DispatchMachine
  imports Dispatcher
begin

text \<open>
  What the dispatcher does, apart from the queue it runs on: an abstract machine on the observable
  state (router calls, waiting jobs, results, dead letters, backoffs, counters), of which one
  message is one step, and the facts about runs of the machine. Over a queue that accepts what
  is put into it, handling a message is a step of the machine; the backends refine it.
\<close>

section \<open>The machine\<close>

record dispatch_obs =
  ob_calls :: "InferenceRequest list"
  ob_jobs :: "body list"
  ob_results :: "body list"
  ob_dead :: "body list"
  ob_sleeps :: "int64 list"
  ob_metrics :: dispatch_metrics

definition tally :: "dispatch_config \<Rightarrow> (dispatch_metrics \<Rightarrow> dispatch_metrics) \<Rightarrow> dispatch_metrics \<Rightarrow> dispatch_metrics" where
  "tally d f m = (if d_HasMetrics d then f m else m)"

lemma metrics_count [simp]: "wd_metrics (count_metric d f s) = tally d f (wd_metrics s)"
  by (simp add: count_metric_def tally_def)

definition dispatch_step ::
  "dispatch_config \<Rightarrow> (nat \<Rightarrow> InferenceRequest \<Rightarrow> string + InferenceResponse) \<Rightarrow> dispatch_obs \<Rightarrow> dispatch_obs"
where
  "dispatch_step d predict ob =
     (case ob_jobs ob of
        [] \<Rightarrow> ob
      | raw # jobs \<Rightarrow>
          (case unmarshal_job raw of
             None \<Rightarrow> ob\<lparr>ob_jobs := jobs\<rparr>
           | Some job0 \<Rightarrow>
               (let job = attempted job0;
                    req = dispatch_request job;
                    ob1 = ob\<lparr>ob_jobs := jobs, ob_calls := ob_calls ob @ [req]\<rparr>
                in case predict (length (ob_calls ob)) req of
                     Inr resp \<Rightarrow>
                       ob1\<lparr>ob_results := ob_results ob @ [marshal_result (dispatch_result job resp)],
                           ob_metrics := tally d (\<lambda>m. m\<lparr>Processed := Processed m + 1\<rparr>) (ob_metrics ob)\<rparr>
                   | Inl err \<Rightarrow>
                       if exhausted job0
                       then ob1\<lparr>ob_dead := ob_dead ob @ [raw],
                                ob_metrics := tally d (\<lambda>m. m\<lparr>Failed := Failed m + 1, DeadLettered := DeadLettered m + 1\<rparr>)
                                                (ob_metrics ob)\<rparr>
                       else ob1\<lparr>ob_jobs := jobs @ [marshal_job job],
                                ob_sleeps := ob_sleeps ob @ [d_RetryBackoff d * job_Attempt job],
                                ob_metrics := tally d (\<lambda>m. m\<lparr>Failed := Failed m + 1, Retried := Retried m + 1\<rparr>)
                                                (ob_metrics ob)\<rparr>)))"

lemma dispatch_idle: "ob_jobs ob = [] \<Longrightarrow> (dispatch_step d predict ^^ n) ob = ob"
  by (induction n) (auto simp: dispatch_step_def)

section \<open>Handling a message is a step\<close>

text \<open>
  The observable state of a run on some queue. \<open>held\<close> are payloads the consumer has received and
  not handled yet: Redis hands them out in batches.
\<close>

definition dispatch_view ::
  "('q \<Rightarrow> string \<Rightarrow> body list) \<Rightarrow> ('q \<Rightarrow> string \<Rightarrow> body list) \<Rightarrow> dispatch_config \<Rightarrow> body list \<Rightarrow> 'q world
     \<Rightarrow> dispatch_obs"
where
  "dispatch_view pending dead d held s =
     \<lparr>ob_calls = wd_calls s, ob_jobs = held @ pending (wd_queue s) (d_JobsTopic d),
      ob_results = pending (wd_queue s) (d_ResultsTopic d), ob_dead = dead (wd_queue s) (d_JobsTopic d),
      ob_sleeps = wd_sleeps s, ob_metrics = wd_metrics s\<rparr>"

context accepting_queue
begin

lemma handle_step:
  assumes topics: "d_JobsTopic d \<noteq> d_ResultsTopic d"
    and ready: "ready (wd_queue s) (d_JobsTopic d)" "ready (wd_queue s) (d_ResultsTopic d)"
    and job: "unmarshal_job raw = Some job"
  shows "\<exists>s'. Dispatcher_handle ops d predict job raw s = Done (None, s')
    \<and> dispatch_view pending dead d held s' = dispatch_step d predict (dispatch_view pending dead d (raw # held) s)"
proof (cases "predict (length (wd_calls s)) (dispatch_request (attempted job))")
  case (Inr resp)
  let ?b = "marshal_result (dispatch_result (attempted job) resp)"
  obtain q' where "q_Enqueue ops (d_ResultsTopic d) ?b (wd_queue s) = Done (None, q')"
    using enqueue_accepted [OF ready(2)] by blast
  then show ?thesis
    using Inr job topics enqueue_ok [of "d_ResultsTopic d" ?b "wd_queue s" q']
    by (simp add: Dispatcher_handle_def Let_def attempted_def [symmetric] dispatch_view_def dispatch_step_def)
next
  case (Inl err)
  show ?thesis
  proof (cases "exhausted job")
    case True
    obtain q' where "q_DeadLetter ops (d_JobsTopic d) raw err (wd_queue s) = Done (None, q')"
      using dead_accepted [OF ready(1)] by blast
    then show ?thesis
      using Inl True job topics dead_ok [of "d_JobsTopic d" raw err "wd_queue s" q']
      by (simp add: Dispatcher_handle_def Let_def attempted_def [symmetric] dispatch_view_def dispatch_step_def)
        (simp add: exhausted_def attempted_def tally_def)
  next
    case False
    let ?b = "marshal_job (attempted job)"
    obtain q' where "q_Enqueue ops (d_JobsTopic d) ?b (wd_queue s) = Done (None, q')"
      using enqueue_accepted [OF ready(1)] by blast
    then show ?thesis
      using Inl False job topics enqueue_ok [of "d_JobsTopic d" ?b "wd_queue s" q']
      by (simp add: Dispatcher_handle_def Let_def attempted_def [symmetric] dispatch_view_def dispatch_step_def)
        (simp add: exhausted_def attempted_def tally_def)
  qed
qed

lemma message_step:
  assumes "d_JobsTopic d \<noteq> d_ResultsTopic d"
    and "ready (wd_queue s) (d_JobsTopic d)" "ready (wd_queue s) (d_ResultsTopic d)"
  shows "\<exists>s'. Dispatcher_on_message ops d predict msg s = Done (None, s') \<and>
    dispatch_view pending dead d held s' =
      dispatch_step d predict (dispatch_view pending dead d (msg_Payload msg # held) s)"
proof (cases "unmarshal_job (msg_Payload msg)")
  case None
  then show ?thesis
    by (simp add: Dispatcher_on_message_def dispatch_view_def dispatch_step_def)
next
  case (Some job)
  then show ?thesis
    using handle_step [OF assms Some] by (simp add: Dispatcher_on_message_def)
qed

end

section \<open>Every job ends, exactly once\<close>

text \<open>
  \<open>ledger\<close> relates a state to where it started: the jobs still waiting, and those completed and
  dead-lettered since, whose identifiers together are those of the jobs at the start.
\<close>

definition retryable :: "InferenceJob \<Rightarrow> bool" where
  "retryable j \<longleftrightarrow> job_marshals j \<and> 0 \<le> sint (job_Attempt j) \<and> sint (job_Attempt j) < 2 ^ 63 - 1"

definition budget :: "InferenceJob \<Rightarrow> nat" where
  "budget j = max 1 (nat (sint (job_MaxAttempts j) - sint (job_Attempt j)))"

definition ledger ::
  "dispatch_obs \<Rightarrow> InferenceJob list \<Rightarrow> (InferenceJob \<times> InferenceResponse) list \<Rightarrow> InferenceJob list
     \<Rightarrow> InferenceJob list \<Rightarrow> dispatch_obs \<Rightarrow> bool"
where
  "ledger ob0 js0 oks failed js ob \<longleftrightarrow>
     ob_jobs ob = map marshal_job js \<and> list_all retryable js \<and>
     ob_results ob = ob_results ob0 @ map (\<lambda>(j, resp). marshal_result (dispatch_result j resp)) oks \<and>
     ob_dead ob = ob_dead ob0 @ map marshal_job failed \<and>
     mset (map job_ID js0) = mset (map (\<lambda>(j, resp). job_ID j) oks) + mset (map job_ID failed) + mset (map job_ID js)"

lemma attempted_parts [simp]:
  "job_ID (attempted j) = job_ID j" "job_MaxAttempts (attempted j) = job_MaxAttempts j"
  "job_marshals (attempted j) = job_marshals j" "job_Attempt (attempted j) = job_Attempt j + 1"
  by (simp_all add: attempted_def job_marshals_def)

lemma retry_budget:
  assumes "retryable j" and "\<not> exhausted j"
  shows "retryable (attempted j)" and "Suc (budget (attempted j)) = budget j"
proof -
  have a: "sint (job_Attempt j + 1) = sint (job_Attempt j) + 1"
    using assms(1) by (intro sint64_inc) (simp add: retryable_def)
  then have lt: "sint (job_Attempt j) + 1 < sint (job_MaxAttempts j)"
    using assms(2) by (simp add: exhausted_def)
  then show "retryable (attempted j)"
    using assms(1) a sint64_range(2) [of "job_MaxAttempts j"] by (simp add: retryable_def)
  show "Suc (budget (attempted j)) = budget j"
    unfolding budget_def attempted_parts a
    using lt by linarith
qed

lemma ledger_step:
  assumes "ledger ob0 js0 oks failed (j # js) ob"
  shows "\<exists>oks' failed' js'. ledger ob0 js0 oks' failed' js' (dispatch_step d predict ob) \<and>
    (\<Sum>j\<leftarrow>js'. budget j) < (\<Sum>j\<leftarrow>j # js. budget j)"
proof -
  have led: "ob_jobs ob = marshal_job j # map marshal_job js" "retryable j" "list_all retryable js"
    "ob_results ob = ob_results ob0 @ map (\<lambda>(j, resp). marshal_result (dispatch_result j resp)) oks"
    "ob_dead ob = ob_dead ob0 @ map marshal_job failed"
    "mset (map job_ID js0) =
       mset (map (\<lambda>(j, resp). job_ID j) oks) + mset (map job_ID failed) + mset (map job_ID (j # js))"
    using assms by (auto simp: ledger_def)
  have job: "unmarshal_job (marshal_job j) = Some j"
    using led(2) by (simp add: unmarshal_marshal_job retryable_def)
  have pos: "0 < budget j"
    by (simp add: budget_def)
  show ?thesis
  proof (cases "predict (length (ob_calls ob)) (dispatch_request (attempted j))")
    case (Inr resp)
    have "ledger ob0 js0 (oks @ [(attempted j, resp)]) failed js (dispatch_step d predict ob)"
      using led Inr by (simp add: ledger_def dispatch_step_def job Let_def)
    then show ?thesis
      using pos by (intro exI conjI) auto
  next
    case (Inl err)
    show ?thesis
    proof (cases "exhausted j")
      case True
      have "ledger ob0 js0 oks (failed @ [j]) js (dispatch_step d predict ob)"
        using led Inl True by (simp add: ledger_def dispatch_step_def job Let_def)
      then show ?thesis
        using pos by (intro exI conjI) auto
    next
      case False
      have "ledger ob0 js0 oks failed (js @ [attempted j]) (dispatch_step d predict ob)"
        using led Inl False retry_budget(1) [OF led(2) False]
        by (simp add: ledger_def dispatch_step_def job Let_def)
      then show ?thesis
        using retry_budget(2) [OF led(2) False] by (intro exI conjI) auto
    qed
  qed
qed

lemma ledger_drains:
  assumes "ledger ob0 js0 oks failed js ob" and "(\<Sum>j\<leftarrow>js. budget j) \<le> n"
  shows "\<exists>oks' failed'. ledger ob0 js0 oks' failed' [] ((dispatch_step d predict ^^ n) ob)"
  using assms
proof (induction n arbitrary: oks failed js ob)
  case 0
  then have "js = []"
    by (cases js) (auto simp: budget_def)
  then show ?case
    using 0 by auto
next
  case (Suc n)
  show ?case
  proof (cases js)
    case Nil
    have "dispatch_step d predict ob = ob"
      using Suc.prems(1) Nil by (simp add: ledger_def dispatch_step_def)
    then show ?thesis
      using Suc.IH [of oks failed js ob] Suc.prems(1) Nil
      by (simp add: funpow_Suc_right del: funpow.simps)
  next
    case (Cons j js1)
    then obtain oks' failed' js' where "ledger ob0 js0 oks' failed' js' (dispatch_step d predict ob)"
      and "(\<Sum>j\<leftarrow>js'. budget j) < (\<Sum>j\<leftarrow>js. budget j)"
      using ledger_step [of ob0 js0 oks failed j js1 ob d predict] Suc.prems(1) by auto
    then show ?thesis
      using Suc.IH [of oks' failed' js' "dispatch_step d predict ob"] Suc.prems(2)
      by (simp add: funpow_Suc_right del: funpow.simps)
  qed
qed

section \<open>A single job\<close>

lemma dispatch_request_attempt [simp]: "dispatch_request (j\<lparr>job_Attempt := a\<rparr>) = dispatch_request j"
  by (simp add: dispatch_request_def)

lemma dispatch_request_attempted [simp]: "dispatch_request (attempted j) = dispatch_request j"
  by (simp add: attempted_def)

text \<open>The outcome of a single job, and what decides it: it is asked for until the router answers, its
  attempts left at most, and the first answer is published.\<close>

definition answered_at ::
  "(nat \<Rightarrow> InferenceRequest \<Rightarrow> string + InferenceResponse) \<Rightarrow> InferenceRequest \<Rightarrow> nat \<Rightarrow> nat \<Rightarrow> InferenceResponse \<Rightarrow> bool"
where
  "answered_at predict req n i resp \<longleftrightarrow>
     predict (n + i) req = Inr resp \<and> (\<forall>k < i. \<exists>err. predict (n + k) req = Inl err)"

lemma answered_at_Suc:
  "predict n req = Inl err \<Longrightarrow> answered_at predict req (Suc n) i resp \<Longrightarrow> answered_at predict req n (Suc i) resp"
  by (auto simp: answered_at_def less_Suc_eq_0_disj)

lemma dispatch_result_attempted: "dispatch_result (attempted j) resp = dispatch_result j resp"
  by (simp add: dispatch_result_def attempted_def)

lemma single_job_outcome:
  fixes d :: dispatch_config and predict :: "nat \<Rightarrow> InferenceRequest \<Rightarrow> string + InferenceResponse"
  assumes "ob_jobs ob = [marshal_job j]" and "retryable j" and "budget j \<le> m"
  shows "ob_jobs ((dispatch_step d predict ^^ m) ob) = [] \<and>
    ((\<exists>i < budget j. \<exists>resp. answered_at predict (dispatch_request j) (length (ob_calls ob)) i resp \<and>
        ob_results ((dispatch_step d predict ^^ m) ob) = ob_results ob @ [marshal_result (dispatch_result j resp)] \<and>
        ob_dead ((dispatch_step d predict ^^ m) ob) = ob_dead ob)
     \<or> (\<forall>k < budget j. \<exists>err. predict (length (ob_calls ob) + k) (dispatch_request j) = Inl err) \<and>
        ob_results ((dispatch_step d predict ^^ m) ob) = ob_results ob \<and>
        ob_dead ((dispatch_step d predict ^^ m) ob) =
          ob_dead ob @ [marshal_job (j\<lparr>job_Attempt := job_Attempt j + of_nat (budget j - 1)\<rparr>)])"
  using assms
proof (induction "budget j" arbitrary: j ob m)
  case 0
  then show ?case
    by (simp add: budget_def)
next
  case (Suc n)
  let ?ob = "dispatch_step d predict ob"
  obtain m' where m: "m = Suc m'"
    using Suc.hyps(2) Suc.prems(3) by (cases m) auto
  have iter: "(dispatch_step d predict ^^ m) ob = (dispatch_step d predict ^^ m') ?ob"
    unfolding m by (simp add: funpow_Suc_right del: funpow.simps)
  have job: "unmarshal_job (marshal_job j) = Some j"
    using Suc.prems(2) by (simp add: unmarshal_marshal_job retryable_def)
  have pos: "0 < budget j"
    by (simp add: budget_def)
  show ?case
  proof (cases "predict (length (ob_calls ob)) (dispatch_request j)")
    case (Inr resp)
    have "ob_jobs ?ob = []" "ob_results ?ob = ob_results ob @ [marshal_result (dispatch_result j resp)]" "ob_dead ?ob = ob_dead ob"
      using Suc.prems(1) Inr by (simp_all add: dispatch_step_def job Let_def attempted_def dispatch_result_def dispatch_request_def)
    moreover have "answered_at predict (dispatch_request j) (length (ob_calls ob)) 0 resp"
      using Inr by (simp add: answered_at_def)
    ultimately show ?thesis
      using pos unfolding iter by (auto simp: dispatch_idle)
  next
    case (Inl err)
    show ?thesis
    proof (cases "exhausted j")
      case True
      have "sint (job_Attempt j + 1) = sint (job_Attempt j) + 1"
        using Suc.prems(2) by (intro sint64_inc) (simp add: retryable_def)
      then have "budget j = 1"
        using True by (simp add: exhausted_def budget_def)
      moreover have "ob_jobs ?ob = []" "ob_results ?ob = ob_results ob" "ob_dead ?ob = ob_dead ob @ [marshal_job j]"
        using Suc.prems(1) Inl True by (simp_all add: dispatch_step_def job Let_def)
      ultimately show ?thesis
        using Inl unfolding iter by (auto simp: dispatch_idle)
    next
      case False
      have next_job: "retryable (attempted j)" "n = budget (attempted j)" "budget (attempted j) \<le> m'"
        using retry_budget [OF Suc.prems(2) False] Suc.hyps(2) Suc.prems(3) m by simp_all
      have step: "ob_jobs ?ob = [marshal_job (attempted j)]" "ob_results ?ob = ob_results ob" "ob_dead ?ob = ob_dead ob"
        "length (ob_calls ?ob) = Suc (length (ob_calls ob))"
        using Suc.prems(1) Inl False by (simp_all add: dispatch_step_def job Let_def)
      have b: "budget j = Suc n" and n: "0 < n"
        using Suc.hyps(2) next_job(2) by (simp_all add: budget_def)
      have last: "attempted j\<lparr>job_Attempt := job_Attempt (attempted j) + of_nat (budget (attempted j) - 1)\<rparr>
          = j\<lparr>job_Attempt := job_Attempt j + of_nat (budget j - 1)\<rparr>"
        unfolding b next_job(2) [symmetric] using n by (cases n) (simp_all add: attempted_def)
      let ?o = "(dispatch_step d predict ^^ m) ob" and ?n = "length (ob_calls ob)" and ?req = "dispatch_request j"
      have "ob_jobs ?o = []" and "(\<exists>i < n. \<exists>resp. answered_at predict ?req (Suc ?n) i resp \<and>
          ob_results ?o = ob_results ob @ [marshal_result (dispatch_result j resp)] \<and> ob_dead ?o = ob_dead ob)
        \<or> (\<forall>k < n. \<exists>err. predict (Suc ?n + k) ?req = Inl err) \<and> ob_results ?o = ob_results ob \<and>
          ob_dead ?o = ob_dead ob @ [marshal_job (j\<lparr>job_Attempt := job_Attempt j + of_nat (budget j - 1)\<rparr>)]"
        using Suc.hyps(1) [OF next_job(2) step(1) next_job(1,3)] unfolding iter last
        unfolding dispatch_request_attempted step(2-4) dispatch_result_attempted next_job(2) [symmetric] by blast+
      moreover have "\<forall>k < Suc n. \<exists>err. predict (?n + k) ?req = Inl err" if "\<forall>k < n. \<exists>err. predict (Suc ?n + k) ?req = Inl err"
        using that Inl by (auto simp: less_Suc_eq_0_disj)
      ultimately show ?thesis
        unfolding b using answered_at_Suc [where predict = predict and req = ?req and n = ?n, OF Inl] by (metis Suc_less_eq)
    qed
  qed
qed

definition refused :: "dispatch_config \<Rightarrow> InferenceJob \<Rightarrow> nat \<Rightarrow> dispatch_obs \<Rightarrow> dispatch_obs" where
  "refused d j n ob =
     ob\<lparr>ob_jobs := [], ob_calls := ob_calls ob @ replicate n (dispatch_request j),
        ob_dead := ob_dead ob @ [marshal_job (j\<lparr>job_Attempt := job_Attempt j + of_nat (n - 1)\<rparr>)],
        ob_sleeps := ob_sleeps ob @ map (\<lambda>i. d_RetryBackoff d * (job_Attempt j + of_nat i)) [1..<n],
        ob_metrics := tally d (\<lambda>m. m\<lparr>Failed := Failed m + n, Retried := Retried m + (n - 1),
                                     DeadLettered := DeadLettered m + 1\<rparr>) (ob_metrics ob)\<rparr>"

lemma upt_shift: "0 < n \<Longrightarrow> f 1 # map (\<lambda>i. f (Suc i)) [1..<n] = map f [1..<Suc n]"
  by (induction n) (auto simp: le_Suc_eq)

lemma refused_run:
  assumes "\<forall>n req. \<exists>err. predict n req = Inl err" and "ob_jobs ob = [marshal_job j]" and "retryable j"
  shows "(dispatch_step d predict ^^ budget j) ob = refused d j (budget j) ob"
  using assms(2,3)
proof (induction "budget j" arbitrary: j ob)
  case 0
  then show ?case
    by (simp add: budget_def)
next
  case (Suc n)
  obtain err where err: "predict (length (ob_calls ob)) (dispatch_request j) = Inl err"
    using assms(1) by blast
  have job: "unmarshal_job (marshal_job j) = Some j"
    using Suc.prems(2) by (simp add: unmarshal_marshal_job retryable_def)
  show ?case
  proof (cases "exhausted j")
    case True
    have "sint (job_Attempt j + 1) = sint (job_Attempt j) + 1"
      using Suc.prems(2) by (intro sint64_inc) (simp add: retryable_def)
    then have one: "budget j = 1"
      using True by (simp add: exhausted_def budget_def)
    show ?thesis
      unfolding one using Suc.prems(1) True
      by (simp add: dispatch_step_def job Let_def err refused_def)
  next
    case False
    have n: "n = budget (attempted j)"
      using retry_budget(2) [OF Suc.prems(2) False] Suc.hyps(2) by simp
    let ?ob = "dispatch_step d predict ob"
    have "(dispatch_step d predict ^^ budget j) ob = (dispatch_step d predict ^^ n) ?ob"
      by (simp add: Suc.hyps(2) [symmetric] funpow_Suc_right del: funpow.simps)
    also have "\<dots> = refused d (attempted j) n ?ob"
      unfolding n using Suc.prems False retry_budget(1) [OF Suc.prems(2) False]
      by (intro Suc.hyps(1) n) (simp_all add: dispatch_step_def job Let_def err)
    also have "\<dots> = refused d j (budget j) ob"
    proof -
      have "0 < n"
        unfolding n by (simp add: budget_def)
      then obtain k where k: "n = Suc k"
        using gr0_implies_Suc by blast
      let ?f = "\<lambda>i. d_RetryBackoff d * (job_Attempt j + of_nat i)"
      have "?f 1 # map (\<lambda>i. ?f (Suc i)) [1..<n] = map ?f [1..<Suc n]"
        by (rule upt_shift [OF \<open>0 < n\<close>])
      then show ?thesis
        using Suc.prems False Suc.hyps(2) [symmetric] k
        by (simp add: dispatch_step_def job Let_def err refused_def tally_def attempted_def
            ac_simps del: upt.simps)
    qed
    finally show ?thesis .
  qed
qed

section \<open>Jobs the router answers\<close>

lemma fifo_run:
  assumes answers: "\<forall>n req. predict n req = Inr (answer n req)"
    and "ob_jobs ob = map marshal_job js" and "list_all job_marshals js"
  shows "\<exists>m. (dispatch_step d predict ^^ length js) ob =
    ob\<lparr>ob_jobs := [], ob_calls := ob_calls ob @ map dispatch_request js,
       ob_results := ob_results ob @
         map (\<lambda>(n, j). marshal_result (dispatch_result (attempted j) (answer n (dispatch_request j))))
           (enumerate (length (ob_calls ob)) js),
       ob_metrics := m\<rparr>"
  using assms(2,3)
proof (induction js arbitrary: ob)
  case Nil
  then show ?case
    by (intro exI [of _ "ob_metrics ob"]) simp
next
  case (Cons j js)
  let ?ob = "dispatch_step d predict ob"
  have step: "?ob = ob\<lparr>ob_jobs := map marshal_job js, ob_calls := ob_calls ob @ [dispatch_request j],
      ob_results := ob_results ob @ [marshal_result (dispatch_result (attempted j)
        (answer (length (ob_calls ob)) (dispatch_request j)))],
      ob_metrics := tally d (\<lambda>m. m\<lparr>Processed := Processed m + 1\<rparr>) (ob_metrics ob)\<rparr>"
    using Cons.prems answers by (simp add: dispatch_step_def unmarshal_marshal_job Let_def)
  have "\<exists>m. (dispatch_step d predict ^^ length js) ?ob =
    ?ob\<lparr>ob_jobs := [], ob_calls := ob_calls ?ob @ map dispatch_request js,
       ob_results := ob_results ?ob @
         map (\<lambda>(n, j). marshal_result (dispatch_result (attempted j) (answer n (dispatch_request j))))
           (enumerate (length (ob_calls ?ob)) js),
       ob_metrics := m\<rparr>"
    using Cons.prems by (intro Cons.IH) (simp_all add: step)
  then show ?case
    by (simp add: step funpow_Suc_right del: funpow.simps)
qed

section \<open>The machine always comes to rest\<close>

text \<open>
  How often a payload can be received at most, whatever it is. The attempt count wraps, so a job is
  tried again until the next count reaches the greatest integer at the latest.
\<close>

definition attempts_left :: "body \<Rightarrow> nat" where
  "attempts_left raw =
     (case unmarshal_job raw of None \<Rightarrow> 1 | Some j \<Rightarrow> unat (0x7FFFFFFFFFFFFFFF - (job_Attempt j + 1)) + 2)"

lemma attempts_left_retry:
  assumes "unmarshal_job raw = Some j" and "\<not> exhausted j"
  shows "attempts_left (marshal_job (attempted j)) < attempts_left raw"
proof -
  let ?w = "0x7FFFFFFFFFFFFFFF - (job_Attempt j + 1) :: 64 word"
  have "job_Attempt j + 1 \<noteq> 0x7FFFFFFFFFFFFFFF"
  proof
    assume top: "job_Attempt j + 1 = 0x7FFFFFFFFFFFFFFF"
    have "sint (0x7FFFFFFFFFFFFFFF :: 64 word) = 2 ^ 63 - 1"
      by simp
    then show False
      using assms(2) sint64_range(2) [of "job_MaxAttempts j"] unfolding exhausted_def top by linarith
  qed
  then have "?w \<noteq> 0"
    by auto
  then have less: "unat (?w - 1) < unat ?w"
    by (metis unat_minus_one unat_gt_0 diff_less zero_less_one)
  have shift: "0x7FFFFFFFFFFFFFFF - (job_Attempt (attempted j) + 1) = ?w - 1"
    by simp
  show ?thesis
  proof (cases "job_marshals j")
    case True
    then have "unmarshal_job (marshal_job (attempted j)) = Some (attempted j)"
      by (simp add: unmarshal_marshal_job)
    then show ?thesis
      using less unfolding attempts_left_def assms(1) option.case shift by simp
  next
    case False
    then have "marshal_job (attempted j) = Malformed"
      by (simp add: marshal_job_def)
    then show ?thesis
      by (simp add: attempts_left_def assms(1))
  qed
qed

lemma attempts_left_pos [simp]: "0 < attempts_left raw"
  by (simp add: attempts_left_def split: option.split)

lemma step_decreases:
  assumes "ob_jobs ob \<noteq> []"
  shows "(\<Sum>raw\<leftarrow>ob_jobs (dispatch_step d predict ob). attempts_left raw) < (\<Sum>raw\<leftarrow>ob_jobs ob. attempts_left raw)"
proof -
  obtain raw jobs where "ob_jobs ob = raw # jobs"
    using assms by (cases "ob_jobs ob") auto
  then show ?thesis
    using attempts_left_retry [of raw]
    by (auto simp: dispatch_step_def Let_def split: option.splits sum.splits)
qed

lemma machine_rests:
  assumes "(\<Sum>raw\<leftarrow>ob_jobs ob. attempts_left raw) \<le> n"
  shows "ob_jobs ((dispatch_step d predict ^^ n) ob) = []"
  using assms
proof (induction n arbitrary: ob)
  case 0
  then show ?case
    by (cases "ob_jobs ob") (auto simp: attempts_left_def split: option.splits)
next
  case (Suc n)
  show ?case
  proof (cases "ob_jobs ob = []")
    case True
    then show ?thesis
      by (simp only: dispatch_idle)
  next
    case False
    then show ?thesis
      using step_decreases [OF False, of d predict] Suc.IH [of "dispatch_step d predict ob"] Suc.prems
      by (simp add: funpow_Suc_right del: funpow.simps)
  qed
qed

end
