(* ===== verification/DispatchRun.thy ===== *)
theory DispatchRun
  imports DispatchMachine
begin

text \<open>
  The dispatcher run over the in-memory queue: each message the consumer loop takes is one step
  of the abstract machine, as long as no channel is full.
\<close>

section \<open>The in-memory queue accepts while there is room\<close>

definition observe :: "dispatch_config \<Rightarrow> Memory world \<Rightarrow> dispatch_obs" where
  "observe d s =
     \<lparr>ob_calls = wd_calls s, ob_jobs = payloads (wd_queue s) (d_JobsTopic d),
      ob_results = payloads (wd_queue s) (d_ResultsTopic d),
      ob_dead = dead_payloads (wd_queue s) (d_JobsTopic d),
      ob_sleeps = wd_sleeps s, ob_metrics = wd_metrics s\<rparr>"

lemma observe_view: "observe d s = dispatch_view payloads dead_payloads d [] s"
  by (simp add: observe_def dispatch_view_def)

text \<open>Room for every result and retry: then no \<open>Enqueue\<close> of the dispatcher blocks.\<close>

definition room :: "dispatch_obs \<Rightarrow> bool" where
  "room ob \<longleftrightarrow> length (ob_jobs ob) + length (ob_results ob) \<le> chan_capacity"

lemma room_step: "room ob \<Longrightarrow> room (dispatch_step d predict ob)"
  by (auto simp: room_def dispatch_step_def Let_def split: list.splits option.splits sum.splits)

definition pop_job :: "dispatch_config \<Rightarrow> Memory world \<Rightarrow> Memory world" where
  "pop_job d s = s\<lparr>wd_queue := set_chan (d_JobsTopic d) (tl (chan (wd_queue s) (d_JobsTopic d))) (wd_queue s)\<rparr>"

text \<open>Handling the message in front, in a state with room, is a step of the machine.\<close>

lemma pop_step:
  assumes topics: "d_JobsTopic d \<noteq> d_ResultsTopic d"
    and ch: "chan (wd_queue s) (d_JobsTopic d) = msg # rest" and room: "room (observe d s)"
  shows "\<exists>s'. Dispatcher_on_message (Memory_ops None pick) d predict msg (pop_job d s) = Done (None, s')
    \<and> observe d s' = dispatch_step d predict (observe d s)"
proof -
  have "observe d s = dispatch_view payloads dead_payloads d [msg_Payload msg] (pop_job d s)"
    using ch topics by (simp add: dispatch_view_def observe_def pop_job_def) (simp add: payloads_def)
  moreover have "length (payloads (wd_queue (pop_job d s)) (d_JobsTopic d)) < chan_capacity"
    "length (payloads (wd_queue (pop_job d s)) (d_ResultsTopic d)) < chan_capacity"
    using ch room topics by (auto simp: pop_job_def room_def observe_def payloads_def)
  ultimately show ?thesis
    using memory_room.message_step [OF topics] by (simp add: observe_view)
qed

definition dispatch_loop ::
  "bool \<Rightarrow> dispatch_config \<Rightarrow> (nat \<Rightarrow> InferenceRequest \<Rightarrow> string + InferenceResponse)
     \<Rightarrow> consume_choice list \<Rightarrow> Memory world \<Rightarrow> consume_status \<times> Memory world"
where
  "dispatch_loop pick d predict =
     Memory_loop wd_queue (\<lambda>q s. s\<lparr>wd_queue := q\<rparr>) (d_JobsTopic d)
       (Dispatcher_on_message (Memory_ops None pick) d predict)"

lemma loop_step:
  assumes topics: "d_JobsTopic d \<noteq> d_ResultsTopic d"
    and ch: "chan (wd_queue s) (d_JobsTopic d) = msg # rest" and room: "room (observe d s)"
  shows "\<exists>s'. (\<forall>cs. dispatch_loop pick d predict (TakeMsg # cs) s = dispatch_loop pick d predict cs s')
    \<and> observe d s' = dispatch_step d predict (observe d s)"
  using pop_step [OF assms, where pick = pick and predict = predict] ch
  by (auto simp: dispatch_loop_def pop_job_def Memory_deliver_def)

section \<open>A run is the abstract machine\<close>

lemma loop_refines:
  assumes topics: "d_JobsTopic d \<noteq> d_ResultsTopic d" and room: "room (observe d s)"
  shows "\<exists>s'. dispatch_loop pick d predict (replicate k TakeMsg) s = (Running, s') \<and>
           observe d s' = (dispatch_step d predict ^^ k) (observe d s)"
  using room
proof (induction k arbitrary: s)
  case 0
  show ?case
    by (simp add: dispatch_loop_def)
next
  case (Suc k)
  show ?case
  proof (cases "chan (wd_queue s) (d_JobsTopic d)")
    case Nil
    then have "ob_jobs (observe d s) = []"
      by (simp add: observe_def payloads_def)
    then show ?thesis
      using Nil dispatch_idle [of "observe d s" "Suc k" d predict] by (simp add: dispatch_loop_def)
  next
    case (Cons msg rest)
    then obtain s1 where s1: "dispatch_loop pick d predict (TakeMsg # cs) s = dispatch_loop pick d predict cs s1"
      and ob: "observe d s1 = dispatch_step d predict (observe d s)" for cs
      using loop_step [OF topics Cons Suc.prems, where pick = pick and predict = predict] by blast
    have "room (observe d s1)"
      using Suc.prems by (simp add: ob room_step)
    from Suc.IH [OF this] show ?thesis
      by (simp add: s1 ob funpow_Suc_right del: funpow.simps)
  qed
qed

lemma observe_chanFor [simp]:
  "observe d (s\<lparr>wd_queue := Memory_chanFor t (wd_queue s)\<rparr>) = observe d s"
  by (simp add: observe_def)

lemma Run_loop:
  "Dispatcher_Run None pick d predict cs s =
     dispatch_loop pick d predict cs (s\<lparr>wd_queue := Memory_chanFor (d_JobsTopic d) (wd_queue s)\<rparr>)"
  by (simp add: Dispatcher_Run_def Memory_Consume_def dispatch_loop_def)

lemma Run_refines:
  assumes "d_JobsTopic d \<noteq> d_ResultsTopic d" and "room (observe d s)"
  shows "\<exists>s'. Dispatcher_Run None pick d predict (replicate k TakeMsg) s = (Running, s') \<and>
           observe d s' = (dispatch_step d predict ^^ k) (observe d s)"
  using loop_refines [of d "s\<lparr>wd_queue := Memory_chanFor (d_JobsTopic d) (wd_queue s)\<rparr>"] assms
  by (simp add: Run_loop)

section \<open>A full results topic, a stop during a retry\<close>

lemma loop_blocks:
  assumes "d_JobsTopic d \<noteq> d_ResultsTopic d" and "payloads (wd_queue s) (d_JobsTopic d) = raw # jobs"
    and "unmarshal_job raw = Some job"
    and "predict (length (wd_calls s)) (dispatch_request job) = Inr resp"
    and "chan_capacity \<le> length (payloads (wd_queue s) (d_ResultsTopic d))"
  shows "dispatch_loop pick d predict (TakeMsg # cs) s = (Stuck, s)"
proof -
  obtain msg rest where ch: "chan (wd_queue s) (d_JobsTopic d) = msg # rest" and raw: "raw = msg_Payload msg"
    using assms(2) by (auto simp: payloads_def)
  let ?q = "wd_queue (pop_job d s)"
  have full: "chan_capacity \<le> length (payloads ?q (d_ResultsTopic d))"
    using assms(1,5) by (simp add: pop_job_def)
  have "Dispatcher_handle (Memory_ops None pick) d predict job raw (pop_job d s) = Blocked"
    using assms(4) full
    by (simp add: Dispatcher_handle_def Let_def attempted_def [symmetric] pop_job_def Memory_ops_def
        Memory_Enqueue_live)
  moreover have "s\<lparr>wd_queue := set_chan (d_JobsTopic d) rest (wd_queue s)\<rparr> = pop_job d s"
    using ch by (simp add: pop_job_def)
  ultimately show ?thesis
    using ch assms(3) raw
    by (simp add: dispatch_loop_def Memory_deliver_def Dispatcher_on_message_def)
qed

text \<open>Handling a job while the context is done: \<open>sent\<close> is what \<open>Enqueue\<close> then makes of the waiting payloads.\<close>

definition sent_late :: "bool \<Rightarrow> (string \<Rightarrow> body list) \<Rightarrow> string \<Rightarrow> body \<Rightarrow> string \<Rightarrow> body list" where
  "sent_late pick waiting t b = (if pick \<and> length (waiting t) < chan_capacity then waiting(t := waiting t @ [b]) else waiting)"

lemma enqueue_late:
  "\<exists>e q'. Memory_Enqueue (Some err) pick t b q = Done (e, q') \<and> payloads q' = sent_late pick (payloads q) t b \<and>
     dead_payloads q' = dead_payloads q"
proof -
  obtain e q' where q': "Memory_Enqueue (Some err) pick t b q = Done (e, q')"
    and e: "e = None \<longleftrightarrow> pick \<and> length (payloads q t) < chan_capacity"
    using Memory_Enqueue_done by blast
  have "q_Enqueue (Memory_ops (Some err) pick) t b q = Done (e, q')"
    using q' by (simp add: Memory_ops_def)
  then show ?thesis
    using memory.enqueue_done [of "Some err" pick t b q e q'] q' e by (auto simp: sent_late_def)
qed

lemma handle_late:
  "\<exists>s'. Dispatcher_handle (Memory_ops (Some err) pick) d predict job raw s = Done (None, s')
    \<and> (case fate_of predict job s of
         Completed resp \<Rightarrow>
           payloads (wd_queue s') = sent_late pick (payloads (wd_queue s)) (d_ResultsTopic d)
             (marshal_result (dispatch_result (attempted job) resp)) \<and>
           dead_payloads (wd_queue s') = dead_payloads (wd_queue s)
       | Requeued \<Rightarrow>
           payloads (wd_queue s') = sent_late pick (payloads (wd_queue s)) (d_JobsTopic d) (marshal_job (attempted job)) \<and>
           dead_payloads (wd_queue s') = dead_payloads (wd_queue s)
       | Buried e \<Rightarrow>
           payloads (wd_queue s') = payloads (wd_queue s) \<and>
           dead_payloads (wd_queue s') = (dead_payloads (wd_queue s))
             (d_JobsTopic d := dead_payloads (wd_queue s) (d_JobsTopic d) @ [raw]))"
proof (cases "fate_of predict job s")
  case (Completed resp)
  let ?b = "marshal_result (dispatch_result (attempted job) resp)"
  obtain e q' where "Memory_Enqueue (Some err) pick (d_ResultsTopic d) ?b (wd_queue s) = Done (e, q')"
    "payloads q' = sent_late pick (payloads (wd_queue s)) (d_ResultsTopic d) ?b" "dead_payloads q' = dead_payloads (wd_queue s)"
    using enqueue_late by blast
  then show ?thesis
    using Completed
    by (auto simp: Dispatcher_handle_def Let_def attempted_def [symmetric] Memory_ops_def fate_of_def
        split: sum.splits if_splits)
next
  case Requeued
  obtain e q' where "Memory_Enqueue (Some err) pick (d_JobsTopic d) (marshal_job (attempted job)) (wd_queue s) = Done (e, q')"
    "payloads q' = sent_late pick (payloads (wd_queue s)) (d_JobsTopic d) (marshal_job (attempted job))"
    "dead_payloads q' = dead_payloads (wd_queue s)"
    using enqueue_late by blast
  moreover have "\<not> sint (job_MaxAttempts (attempted job)) \<le> sint (job_Attempt (attempted job))"
    using Requeued by (auto simp: fate_of_def exhausted_def attempted_def split: sum.splits if_splits)
  ultimately show ?thesis
    using Requeued
    by (auto simp: Dispatcher_handle_def Let_def attempted_def [symmetric] Memory_ops_def fate_of_def
        split: sum.splits if_splits)
next
  case (Buried e)
  then have "sint (job_MaxAttempts (attempted job)) \<le> sint (job_Attempt (attempted job))"
    by (auto simp: fate_of_def exhausted_def attempted_def split: sum.splits if_splits)
  moreover have "dead_payloads q' = (dead_payloads q)(t := dead_payloads q t @ [raw])" "payloads q' = payloads q"
    if "Memory_DeadLetter t raw r q = Done (None, q')" for t r q q'
    using memory.dead_ok [of "Some err" pick t raw r q q'] that by (simp_all add: Memory_ops_def)
  ultimately show ?thesis
    using Buried
    by (auto simp: Dispatcher_handle_def Let_def attempted_def [symmetric] Memory_ops_def fate_of_def Memory_DeadLetter_def
        split: sum.splits if_splits)
qed

end
