(* ===== verification/Scheduler.thy ===== *)
theory Scheduler
  imports DispatchRun
begin

text \<open>
  What the scheduler does with jobs on the in-memory queue: the properties of the dispatcher and
  of the queue under it, with a concrete scheduler for their instances.
\<close>

section \<open>A concrete scheduler\<close>

definition demo_job :: InferenceJob where
  "demo_job = \<lparr>job_ID = ''j1'', job_VehicleID = ''vehicle-1'', job_ModelName = ''m'', job_ModelVersion = [],
     job_PreferPrecision = PrecisionFP16, job_Features = [Fin False 1 0], job_Priority = PriorityCritical,
     job_SubmittedAt = 10 ^ 18, job_Attempt = 0, job_MaxAttempts = 3\<rparr>"

definition demo_dispatch :: dispatch_config where
  "demo_dispatch = \<lparr>d_JobsTopic = ''jobs'', d_ResultsTopic = ''results'', d_RetryBackoff = 5, d_HasMetrics = True\<rparr>"

definition demo_world :: "nat \<Rightarrow> InferenceJob list \<Rightarrow> Memory world" where
  "demo_world full js =
     \<lparr>wd_queue = set_chan ''results'' (replicate full \<lparr>msg_ID = [], msg_Payload = Malformed, msg_Attempt = 1\<rparr>)
        (set_chan ''jobs'' (map (\<lambda>j. \<lparr>msg_ID = [], msg_Payload = marshal_job j, msg_Attempt = 1\<rparr>) js) NewMemory),
      wd_metrics = \<lparr>Processed = 0, Failed = 0, Retried = 0, DeadLettered = 0\<rparr>, wd_sleeps = [], wd_calls = []\<rparr>"

definition demo_answer :: InferenceResponse where
  "demo_answer = \<lparr>resp_RequestId = ''j1'', resp_WorkerId = ''w'', resp_ModelName = ''m'', resp_ModelVersion = ''1'',
     resp_PrecisionUsed = 2, resp_Output = [], resp_PredictedLabel = ''cat'', resp_Confidence = Fin False 1 0,
     resp_LatencyMs = 4, resp_QueueTimeMs = 1\<rparr>"

lemma demo_payloads [simp]:
  "payloads (wd_queue (demo_world full js)) t =
     (if t = ''results'' then replicate full Malformed else if t = ''jobs'' then map marshal_job js else [])"
  by (simp add: demo_world_def payloads_def chan_def NewMemory_def)

lemma demo_dead [simp]: "dead_payloads (wd_queue (demo_world full js)) t = []"
  by (simp add: demo_world_def) (simp add: dead_payloads_def Memory_DeadLettered_def NewMemory_def)

lemma demo_calls [simp]: "wd_calls (demo_world full js) = []" "wd_sleeps (demo_world full js) = []"
  by (simp_all add: demo_world_def)

lemma demo_dispatch_parts [simp]:
  "d_JobsTopic demo_dispatch = ''jobs''" "d_ResultsTopic demo_dispatch = ''results''"
  "d_RetryBackoff demo_dispatch = 5" "d_HasMetrics demo_dispatch"
  by (simp_all add: demo_dispatch_def)

lemma demo_job_facts [simp]:
  "job_marshals demo_job" "retryable demo_job" "budget demo_job = 3" "\<not> exhausted demo_job" "job_ID demo_job = ''j1''"
  "job_Attempt demo_job = 0" "job_MaxAttempts demo_job = 3"
  "retryable (demo_job\<lparr>job_ID := i\<rparr>)" "budget (demo_job\<lparr>job_ID := i\<rparr>) = 3" "job_marshals (demo_job\<lparr>job_ID := i\<rparr>)"
  by (simp_all add: demo_job_def job_marshals_def time_ok_def is_finite_def retryable_def budget_def exhausted_def)

section \<open>Properties\<close>

text \<open>C9: from any state in which the waiting jobs and the published results together fit one
  channel, the consumer loop of the dispatcher is the abstract machine: after the loop has
  received k times, every observable of the run is that of k abstract steps, and the loop is still
  running (it never hangs, panics or returns).\<close>

theorem dispatcher_refines_abstract_machine:
  assumes "d_JobsTopic d \<noteq> d_ResultsTopic d"
    and "length (payloads (wd_queue s) (d_JobsTopic d)) + length (payloads (wd_queue s) (d_ResultsTopic d)) \<le> 1024"
  shows "\<exists>s'. Dispatcher_Run None pick d predict (replicate k TakeMsg) s = (Running, s') \<and>
    observe d s' = (dispatch_step d predict ^^ k) (observe d s)"
  using Run_refines [OF assms(1)] assms(2) by (simp add: room_def observe_def chan_capacity_def)

theorem dispatcher_refines_abstract_machine_witness:
  "\<exists>s'. Dispatcher_Run None True demo_dispatch (\<lambda>n req. Inr demo_answer) [TakeMsg, TakeMsg]
      (demo_world 0 [demo_job]) = (Running, s') \<and> ob_jobs (observe demo_dispatch s') = []"
  using dispatcher_refines_abstract_machine [of demo_dispatch "demo_world 0 [demo_job]" True "\<lambda>n req. Inr demo_answer" 2]
  by (auto simp: numeral_2_eq_2 dispatch_step_def observe_def unmarshal_marshal_job Let_def)

text \<open>C5: while the results topic has room for them, every job ends, and exactly once, whatever the router answers: if the
  waiting jobs and the results already published together are at most 1024 (beyond that
  the dispatcher may hang, as is shown below), then once the loop has received as often as the jobs have attempts left, no job waits, and the jobs at
  the start are, up to order, those whose result was published and those that were dead-lettered.\<close>

theorem every_job_settles_once:
  assumes "d_JobsTopic d \<noteq> d_ResultsTopic d"
    and jobs: "payloads (wd_queue s) (d_JobsTopic d) = map marshal_job js" "list_all retryable js"
    and "length js + length (payloads (wd_queue s) (d_ResultsTopic d)) \<le> 1024"
    and enough: "(\<Sum>j\<leftarrow>js. max 1 (nat (sint (job_MaxAttempts j) - sint (job_Attempt j)))) \<le> n"
  shows "\<exists>s' published buried. Dispatcher_Run None pick d predict (replicate n TakeMsg) s = (Running, s')
    \<and> payloads (wd_queue s') (d_JobsTopic d) = []
    \<and> payloads (wd_queue s') (d_ResultsTopic d) = payloads (wd_queue s) (d_ResultsTopic d)
        @ map (\<lambda>(j, resp). marshal_result (dispatch_result j resp)) published
    \<and> dead_payloads (wd_queue s') (d_JobsTopic d) = dead_payloads (wd_queue s) (d_JobsTopic d) @ map marshal_job buried
    \<and> mset (map job_ID js) = mset (map (\<lambda>(j, resp). job_ID j) published) + mset (map job_ID buried)"
proof -
  have room: "room (observe d s)"
    using assms by (simp add: room_def observe_def chan_capacity_def)
  obtain s' where run: "Dispatcher_Run None pick d predict (replicate n TakeMsg) s = (Running, s')"
    and ob: "observe d s' = (dispatch_step d predict ^^ n) (observe d s)"
    using Run_refines [OF assms(1) room] by blast
  have "ledger (observe d s) js [] [] js (observe d s)"
    using jobs by (simp add: ledger_def observe_def)
  then obtain published buried where "ledger (observe d s) js published buried [] (observe d s')"
    using ledger_drains [where d = d and predict = predict] enough unfolding ob budget_def by blast
  then show ?thesis
    using run by (auto simp: ledger_def observe_def)
qed

theorem every_job_settles_once_witness:
  "\<exists>s'. Dispatcher_Run None True demo_dispatch
      (\<lambda>n req. if n = 0 then Inl ''down'' else Inr demo_answer) (replicate 6 TakeMsg)
      (demo_world 0 [demo_job, demo_job\<lparr>job_ID := ''j2''\<rparr>]) = (Running, s')
    \<and> length (payloads (wd_queue s') ''results'') + length (dead_payloads (wd_queue s') ''jobs'') = 2"
proof -
  let ?js = "[demo_job, demo_job\<lparr>job_ID := ''j2''\<rparr>]"
  obtain s' published buried where "Dispatcher_Run None True demo_dispatch
      (\<lambda>n req. if n = 0 then Inl ''down'' else Inr demo_answer) (replicate 6 TakeMsg)
      (demo_world 0 ?js) = (Running, s')"
    and "payloads (wd_queue s') ''results'' = map (\<lambda>(j, resp). marshal_result (dispatch_result j resp)) published"
    and "dead_payloads (wd_queue s') ''jobs'' = map marshal_job buried"
    and "mset (map job_ID ?js) = mset (map (\<lambda>(j, resp). job_ID j) published) + mset (map job_ID buried)"
    using every_job_settles_once [of demo_dispatch "demo_world 0 ?js" ?js 6 True
        "\<lambda>n req. if n = 0 then Inl ''down'' else Inr demo_answer"]
    by (simp del: mset_map) blast
  moreover from this(4) have "2 = length published + length buried"
    by (auto dest: arg_cong [of _ _ size])
  ultimately show ?thesis
    by auto
qed

text \<open>C10: the dispatcher comes to rest: whatever waits in its channel when it starts (malformed payloads
  and jobs with any attempt counts included), as long as the waiting payloads and the results already
  published together are at most 1024, and whatever the router answers, there is a number of receptions after which no job waits and nothing observable changes any more, however long the
  loop goes on receiving.\<close>

theorem dispatcher_comes_to_rest:
  assumes "d_JobsTopic d \<noteq> d_ResultsTopic d"
    and "length (payloads (wd_queue s) (d_JobsTopic d)) + length (payloads (wd_queue s) (d_ResultsTopic d)) \<le> 1024"
  shows "\<exists>N ob. ob_jobs ob = [] \<and>
    (\<forall>n \<ge> N. \<exists>s'. Dispatcher_Run None pick d predict (replicate n TakeMsg) s = (Running, s') \<and> observe d s' = ob)"
proof -
  let ?step = "\<lambda>n. (dispatch_step d predict ^^ n) (observe d s)"
  obtain N where rest: "ob_jobs (?step N) = []"
    using machine_rests by blast
  have "?step n = ?step N" if "N \<le> n" for n
    using that dispatch_idle [OF rest, of "n - N" d predict]
    by (metis add.commute comp_apply funpow_add le_add_diff_inverse)
  moreover have "room (observe d s)"
    using assms(2) by (simp add: room_def observe_def chan_capacity_def)
  ultimately show ?thesis
    using rest Run_refines [OF assms(1)] by metis
qed

theorem dispatcher_comes_to_rest_witness:
  "\<exists>N ob. ob_jobs ob = [] \<and> (\<forall>n \<ge> N. \<exists>s'. Dispatcher_Run None True demo_dispatch (\<lambda>n req. Inl ''down'')
     (replicate n TakeMsg) (demo_world 0 [demo_job, demo_job\<lparr>job_ID := ''j2'', job_MaxAttempts := -1\<rparr>]) = (Running, s') \<and>
     observe demo_dispatch s' = ob)"
  by (rule dispatcher_comes_to_rest) simp_all

text \<open>C8: a job the router refuses every time is tried exactly as often as it has attempts left
  (once if it has none), always with the same request; the backoffs grow linearly with the
  attempt number; the job is then dead-lettered, once, with the attempt count before its last try, and
  the counters say so.\<close>

theorem refused_job_is_dead_lettered:
  assumes "d_JobsTopic d \<noteq> d_ResultsTopic d" and "d_HasMetrics d"
    and refuses: "\<forall>n req. \<exists>err. predict n req = Inl err"
    and job: "payloads (wd_queue s) (d_JobsTopic d) = [marshal_job j]" "retryable j"
    and "length (payloads (wd_queue s) (d_ResultsTopic d)) < 1024"
  defines "tries \<equiv> max 1 (nat (sint (job_MaxAttempts j) - sint (job_Attempt j)))"
  shows "\<exists>s'. Dispatcher_Run None pick d predict (replicate tries TakeMsg) s = (Running, s')
    \<and> payloads (wd_queue s') (d_JobsTopic d) = []
    \<and> payloads (wd_queue s') (d_ResultsTopic d) = payloads (wd_queue s) (d_ResultsTopic d)
    \<and> wd_calls s' = wd_calls s @ replicate tries (dispatch_request j)
    \<and> wd_sleeps s' = wd_sleeps s @ map (\<lambda>i. d_RetryBackoff d * (job_Attempt j + of_nat i)) [1..<tries]
    \<and> dead_payloads (wd_queue s') (d_JobsTopic d) = dead_payloads (wd_queue s) (d_JobsTopic d)
        @ [marshal_job (j\<lparr>job_Attempt := job_Attempt j + of_nat (tries - 1)\<rparr>)]
    \<and> wd_metrics s' = (wd_metrics s)\<lparr>Failed := Failed (wd_metrics s) + tries,
        Retried := Retried (wd_metrics s) + (tries - 1), DeadLettered := DeadLettered (wd_metrics s) + 1\<rparr>"
proof -
  have room: "room (observe d s)"
    using assms by (simp add: room_def observe_def chan_capacity_def)
  have tries: "tries = budget j"
    by (simp add: tries_def budget_def)
  obtain s' where run: "Dispatcher_Run None pick d predict (replicate tries TakeMsg) s = (Running, s')"
    and "observe d s' = (dispatch_step d predict ^^ tries) (observe d s)"
    using Run_refines [OF assms(1) room] by blast
  then have "observe d s' = refused d j tries (observe d s)"
    using refused_run [OF refuses _ job(2)] job(1) by (simp add: tries observe_def)
  then show ?thesis
    using run assms(2) by (simp add: refused_def observe_def tally_def)
qed

theorem refused_job_is_dead_lettered_witness:
  "\<exists>s'. Dispatcher_Run None True demo_dispatch (\<lambda>n req. Inl ''down'') (replicate 3 TakeMsg)
      (demo_world 0 [demo_job]) = (Running, s')
    \<and> wd_sleeps s' = [5, 10] \<and> length (wd_calls s') = 3
    \<and> dead_payloads (wd_queue s') ''jobs'' = [marshal_job (demo_job\<lparr>job_Attempt := 2\<rparr>)]"
  using refused_job_is_dead_lettered [of demo_dispatch "\<lambda>n req. Inl ''down''" "demo_world 0 [demo_job]" demo_job True]
  by (auto simp: upt_rec [of "Suc 0" 3] upt_rec [of "Suc (Suc 0)" 3])

text \<open>C33: jobs are dispatched in arrival order: when the router answers every request, the requests
  sent and the results published follow the order the jobs were queued in. The priorities of the
  jobs, which the statement leaves arbitrary, play no part.\<close>

theorem jobs_run_in_arrival_order:
  assumes "d_JobsTopic d \<noteq> d_ResultsTopic d"
    and jobs: "payloads (wd_queue s) (d_JobsTopic d) = map marshal_job js" "list_all job_marshals js"
    and "length js + length (payloads (wd_queue s) (d_ResultsTopic d)) \<le> 1024"
  shows "\<exists>s'. Dispatcher_Run None pick d (\<lambda>n req. Inr (answer n req)) (replicate (length js) TakeMsg) s = (Running, s')
    \<and> wd_calls s' = wd_calls s @ map dispatch_request js
    \<and> payloads (wd_queue s') (d_JobsTopic d) = []
    \<and> payloads (wd_queue s') (d_ResultsTopic d) = payloads (wd_queue s) (d_ResultsTopic d)
        @ map (\<lambda>(n, j). marshal_result (dispatch_result j (answer n (dispatch_request j))))
            (enumerate (length (wd_calls s)) js)"
proof -
  have room: "room (observe d s)"
    using assms by (simp add: room_def observe_def chan_capacity_def)
  obtain s' where run: "Dispatcher_Run None pick d (\<lambda>n req. Inr (answer n req)) (replicate (length js) TakeMsg) s
      = (Running, s')"
    and ob: "observe d s' = (dispatch_step d (\<lambda>n req. Inr (answer n req)) ^^ length js) (observe d s)"
    using Run_refines [OF assms(1) room] by blast
  have "dispatch_result (attempted j) = dispatch_result j" for j
    by (simp add: dispatch_result_def attempted_def fun_eq_iff)
  then show ?thesis
    using run ob fifo_run [of "\<lambda>n req. Inr (answer n req)" answer "observe d s" js d] jobs
    by (auto simp: observe_def)
qed

theorem jobs_run_in_arrival_order_witness:
  "\<exists>s'. Dispatcher_Run None True demo_dispatch (\<lambda>n req. Inr demo_answer) [TakeMsg, TakeMsg]
      (demo_world 0 [demo_job\<lparr>job_ID := ''low'', job_Priority := PriorityNormal\<rparr>, demo_job]) = (Running, s')
    \<and> map req_RequestId (wd_calls s') = [''low'', ''j1'']"
proof -
  let ?js = "[demo_job\<lparr>job_ID := ''low'', job_Priority := PriorityNormal\<rparr>, demo_job]"
  have "list_all job_marshals ?js"
    by (simp add: demo_job_def job_marshals_def time_ok_def is_finite_def)
  from jobs_run_in_arrival_order [OF _ _ this, of demo_dispatch "demo_world 0 ?js" True "\<lambda>n req. demo_answer"]
  show ?thesis
    by (auto simp: numeral_2_eq_2 dispatch_request_def)
qed

text \<open>C35: nothing consumes the results topic in this repository, and its channel holds 1024
  messages: once it is full, the next job the router answers blocks the dispatcher for good, with
  the job taken off its topic.\<close>

theorem full_results_topic_hangs_dispatcher:
  assumes "d_JobsTopic d \<noteq> d_ResultsTopic d" and "payloads (wd_queue s) (d_JobsTopic d) = raw # jobs"
    and "unmarshal_job raw = Some job"
    and "predict (length (wd_calls s)) (dispatch_request job) = Inr resp"
    and "1024 \<le> length (payloads (wd_queue s) (d_ResultsTopic d))"
  shows "fst (Dispatcher_Run None pick d predict (TakeMsg # cs) s) = Stuck"
  unfolding Run_loop
  by (subst loop_blocks [of d _ raw jobs job predict resp pick cs]) (use assms in \<open>simp_all add: chan_capacity_def\<close>)

theorem full_results_topic_hangs_dispatcher_witness:
  "fst (Dispatcher_Run None True demo_dispatch (\<lambda>n req. Inr demo_answer) [TakeMsg, TakeDone]
     (demo_world 1024 [demo_job])) = Stuck"
  by (rule full_results_topic_hangs_dispatcher [where job = demo_job and raw = "marshal_job demo_job" and jobs = "[]"])
     (simp_all add: unmarshal_marshal_job)

text \<open>C34: what becomes of the job that is being handled when the scheduler is told to stop. What it would queue, its
  result or its next attempt, is queued only if there is room and \<open>select\<close>, which chooses at random between the send and
  the context that is done, picks the send. Otherwise it is lost: an answered job without its result, a
  failed one that has attempts left without being waiting, published or dead-lettered, and in both cases the
  delivery counts as handled. A job that failed for the last time is dead-lettered in any case.\<close>

theorem shutdown_may_lose_job:
  assumes "payloads (wd_queue s) (d_JobsTopic d) = raw # jobs" and "unmarshal_job raw = Some job"
  shows "\<exists>s'. Dispatcher_Run (Some err) pick d predict [TakeMsg, TakeDone] s = (Returned, s')
    \<and> (let left = (payloads (wd_queue s))(d_JobsTopic d := jobs);
           queued = (\<lambda>t b. if pick \<and> length (left t) < 1024 then left(t := left t @ [b]) else left)
       in case predict (length (wd_calls s)) (dispatch_request job) of
            Inr resp \<Rightarrow>
              payloads (wd_queue s') = queued (d_ResultsTopic d) (marshal_result (dispatch_result job resp)) \<and>
              dead_payloads (wd_queue s') = dead_payloads (wd_queue s)
          | Inl e \<Rightarrow>
              if sint (job_Attempt job + 1) < sint (job_MaxAttempts job)
              then payloads (wd_queue s') = queued (d_JobsTopic d) (marshal_job (job\<lparr>job_Attempt := job_Attempt job + 1\<rparr>)) \<and>
                dead_payloads (wd_queue s') = dead_payloads (wd_queue s)
              else payloads (wd_queue s') = left \<and>
                dead_payloads (wd_queue s') = (dead_payloads (wd_queue s))
                  (d_JobsTopic d := dead_payloads (wd_queue s) (d_JobsTopic d) @ [raw]))"
proof -
  let ?s = "s\<lparr>wd_queue := Memory_chanFor (d_JobsTopic d) (wd_queue s)\<rparr>"
  obtain msg rest where ch: "chan (wd_queue ?s) (d_JobsTopic d) = msg # rest"
    and parts: "raw = msg_Payload msg" "jobs = map msg_Payload rest"
    using assms(1) by (auto simp: payloads_def)
  obtain s' where h: "Dispatcher_handle (Memory_ops (Some err) pick) d predict job raw (pop_job d ?s) = Done (None, s')"
    and eff: "case fate_of predict job (pop_job d ?s) of
         Completed resp \<Rightarrow>
           payloads (wd_queue s') = sent_late pick (payloads (wd_queue (pop_job d ?s))) (d_ResultsTopic d)
             (marshal_result (dispatch_result (attempted job) resp)) \<and>
           dead_payloads (wd_queue s') = dead_payloads (wd_queue (pop_job d ?s))
       | Requeued \<Rightarrow>
           payloads (wd_queue s') = sent_late pick (payloads (wd_queue (pop_job d ?s))) (d_JobsTopic d)
             (marshal_job (attempted job)) \<and>
           dead_payloads (wd_queue s') = dead_payloads (wd_queue (pop_job d ?s))
       | Buried e \<Rightarrow>
           payloads (wd_queue s') = payloads (wd_queue (pop_job d ?s)) \<and>
           dead_payloads (wd_queue s') = (dead_payloads (wd_queue (pop_job d ?s)))
             (d_JobsTopic d := dead_payloads (wd_queue (pop_job d ?s)) (d_JobsTopic d) @ [raw])"
    using handle_late [of err pick d predict job raw "pop_job d ?s"] by blast
  have popped: "payloads (wd_queue (pop_job d ?s)) = (payloads (wd_queue s))(d_JobsTopic d := jobs)"
    "dead_payloads (wd_queue (pop_job d ?s)) = dead_payloads (wd_queue s)" "wd_calls (pop_job d ?s) = wd_calls s"
    using ch parts(2) by (simp_all add: pop_job_def)
  have pop: "?s\<lparr>wd_queue := set_chan (d_JobsTopic d) rest (wd_queue ?s)\<rparr> = pop_job d ?s"
    using ch by (simp add: pop_job_def)
  have "Dispatcher_on_message (Memory_ops (Some err) pick) d predict msg (pop_job d ?s) = Done (None, s')"
    using h assms(2) parts(1) by (simp only: Dispatcher_on_message_def option.case)
  then have "Dispatcher_Run (Some err) pick d predict [TakeMsg, TakeDone] s = (Returned, s')"
    unfolding Dispatcher_Run_def Memory_Consume_def Memory_loop.simps ch list.case pop Memory_deliver_def
    by simp
  moreover have "dispatch_result (attempted job) = dispatch_result job"
    by (simp add: dispatch_result_def attempted_def fun_eq_iff)
  moreover have "exhausted job \<longleftrightarrow> \<not> sint (job_Attempt job + 1) < sint (job_MaxAttempts job)"
    by (auto simp: exhausted_def)
  ultimately show ?thesis
    using eff
    by (intro exI [of _ s']) (simp add: popped fate_of_def Let_def sent_late_def chan_capacity_def attempted_def
        split: sum.splits if_splits)
qed

theorem shutdown_may_lose_job_witness:
  "\<exists>s'. Dispatcher_Run (Some ''context canceled'') False demo_dispatch (\<lambda>n req. Inl ''down'') [TakeMsg, TakeDone]
      (demo_world 0 [demo_job]) = (Returned, s')
    \<and> payloads (wd_queue s') ''jobs'' = [] \<and> dead_payloads (wd_queue s') ''jobs'' = []"
  using shutdown_may_lose_job [of "demo_world 0 [demo_job]" demo_dispatch "marshal_job demo_job" "[]" demo_job
      "''context canceled''" False "\<lambda>n req. Inl ''down''"]
  by (auto simp: unmarshal_marshal_job)

end
