(* ===== verification/Redis.thy ===== *)
theory Redis
  imports Queue "HOL-Library.Sublist"
begin

text \<open>
  The Redis backend of the job queue, \<open>shared/pkg/queue/redis.go\<close>: streams and a consumer group.

  The client library is a parameter, \<open>redis_client\<close>, with one function per command the code uses;
  \<open>'r\<close> is the state of the server and the connection. A value of a stream entry is a byte string,
  read as a document; \<open>rc_text\<close> is that reading of a Go string. What the properties rely on of the
  server's documentation is the definition \<open>redis_documented\<close> below.
\<close>

section \<open>The client\<close>

record XAddArgs =
  xa_Stream :: string
  xa_Values :: "(string, body) gomap"

record XMessage =
  xm_ID :: string
  xm_Values :: "(string, body) gomap"

record XStream =
  xs_Stream :: string
  xs_Messages :: "XMessage list"

record XReadGroupArgs =
  xr_Group :: string
  xr_Consumer :: string
  xr_Streams :: "string list"
  xr_Count :: int64
  xr_Block :: int64

datatype redis_error = RedisNil | RedisFailure string

record 'r redis_client =
  rc_XAdd :: "XAddArgs \<Rightarrow> 'r \<Rightarrow> string option \<times> 'r"
  rc_XGroupCreateMkStream :: "string \<Rightarrow> string \<Rightarrow> string \<Rightarrow> 'r \<Rightarrow> string option \<times> 'r"
  rc_XReadGroup :: "XReadGroupArgs \<Rightarrow> 'r \<Rightarrow> (redis_error + XStream list) \<times> 'r"
  rc_XAck :: "string \<Rightarrow> string \<Rightarrow> string \<Rightarrow> 'r \<Rightarrow> string option \<times> 'r"
  rc_Close :: "'r \<Rightarrow> string option \<times> 'r"
  rc_text :: "string \<Rightarrow> body"

section \<open>The code\<close>

definition Redis_Enqueue :: "'r redis_client \<Rightarrow> string \<Rightarrow> body \<Rightarrow> 'r \<Rightarrow> 'r call" where
  "Redis_Enqueue rc topic payload r =
     Done (rc_XAdd rc \<lparr>xa_Stream = topic, xa_Values = [(''payload'', payload)]\<rparr> r)"

definition Redis_DeadLetter :: "'r redis_client \<Rightarrow> string \<Rightarrow> body \<Rightarrow> string \<Rightarrow> 'r \<Rightarrow> 'r call" where
  "Redis_DeadLetter rc topic payload reason r =
     Done (rc_XAdd rc \<lparr>xa_Stream = topic @ ''.dlq'',
                       xa_Values = [(''payload'', payload), (''reason'', rc_text rc reason)]\<rparr> r)"

definition Redis_Close :: "'r redis_client \<Rightarrow> 'r \<Rightarrow> 'r call" where
  "Redis_Close rc r = Done (rc_Close rc r)"

definition Redis_ops :: "'r redis_client \<Rightarrow> 'r queue_ops" where
  "Redis_ops rc = \<lparr>q_Enqueue = Redis_Enqueue rc, q_DeadLetter = Redis_DeadLetter rc\<rparr>"

text \<open>\<open>payload, _ := xmsg.Values["payload"].(string)\<close>: without the key, the empty string, which
  is no document.\<close>

definition entry_payload :: "XMessage \<Rightarrow> body" where
  "entry_payload x = (case map_of (xm_Values x) ''payload'' of Some b \<Rightarrow> b | None \<Rightarrow> Malformed)"

definition entry_message :: "XMessage \<Rightarrow> Message" where
  "entry_message x = \<lparr>msg_ID = xm_ID x, msg_Payload = entry_payload x, msg_Attempt = 1\<rparr>"

text \<open>
  The inner loops, over the entries of one answer. The first component of the result says whether
  the loop came to its end; otherwise the state is the one in which the handler was called that
  never returned.
\<close>

fun Redis_entries ::
  "'r redis_client \<Rightarrow> ('s \<Rightarrow> 'r) \<Rightarrow> ('r \<Rightarrow> 's \<Rightarrow> 's) \<Rightarrow> string \<Rightarrow> string \<Rightarrow> (Message \<Rightarrow> 's \<Rightarrow> 's call)
     \<Rightarrow> XMessage list \<Rightarrow> 's \<Rightarrow> bool \<times> 's"
where
  "Redis_entries rc get put topic grp handler [] s = (True, s)"
| "Redis_entries rc get put topic grp handler (x # xs) s =
     (case handler (entry_message x) s of
        Done (Some err, s') \<Rightarrow> Redis_entries rc get put topic grp handler xs s'
      | Done (None, s') \<Rightarrow>
          (let (_, r) = rc_XAck rc topic grp (xm_ID x) (get s')
           in Redis_entries rc get put topic grp handler xs (put r s'))
      | Blocked \<Rightarrow> (False, s)
      | Panicked \<Rightarrow> (False, s))"

definition Redis_streams ::
  "'r redis_client \<Rightarrow> ('s \<Rightarrow> 'r) \<Rightarrow> ('r \<Rightarrow> 's \<Rightarrow> 's) \<Rightarrow> string \<Rightarrow> string \<Rightarrow> (Message \<Rightarrow> 's \<Rightarrow> 's call)
     \<Rightarrow> XStream list \<Rightarrow> 's \<Rightarrow> bool \<times> 's"
where
  "Redis_streams rc get put topic grp handler ss s =
     Redis_entries rc get put topic grp handler (concat (map xs_Messages ss)) s"

definition read_args :: "string \<Rightarrow> string \<Rightarrow> XReadGroupArgs" where
  "read_args topic grp =
     \<lparr>xr_Group = grp, xr_Consumer = grp @ ''-consumer'', xr_Streams = [topic, ''>''],
      xr_Count = 10, xr_Block = 2000000000\<rparr>"

text \<open>
  The consumer loop, driven by what its \<open>select\<close> finds: \<open>CtxDone\<close> returns, \<open>Poll\<close> reads once.
  Every error of the read continues the loop.
\<close>

datatype poll_choice = CtxDone | Poll

fun Redis_loop ::
  "'r redis_client \<Rightarrow> ('s \<Rightarrow> 'r) \<Rightarrow> ('r \<Rightarrow> 's \<Rightarrow> 's) \<Rightarrow> string \<Rightarrow> string \<Rightarrow> (Message \<Rightarrow> 's \<Rightarrow> 's call)
     \<Rightarrow> poll_choice list \<Rightarrow> 's \<Rightarrow> consume_status \<times> 's"
where
  "Redis_loop rc get put topic grp handler [] s = (Running, s)"
| "Redis_loop rc get put topic grp handler (CtxDone # cs) s = (Returned, s)"
| "Redis_loop rc get put topic grp handler (Poll # cs) s =
     (let (answer, r) = rc_XReadGroup rc (read_args topic grp) (get s); s1 = put r s in
      case answer of
        Inl err \<Rightarrow> Redis_loop rc get put topic grp handler cs s1
      | Inr streams \<Rightarrow>
          (case Redis_streams rc get put topic grp handler streams s1 of
             (True, s') \<Rightarrow> Redis_loop rc get put topic grp handler cs s'
           | (False, s') \<Rightarrow> (Stuck, s')))"

definition Redis_Consume ::
  "'r redis_client \<Rightarrow> ('s \<Rightarrow> 'r) \<Rightarrow> ('r \<Rightarrow> 's \<Rightarrow> 's) \<Rightarrow> string \<Rightarrow> string \<Rightarrow> (Message \<Rightarrow> 's \<Rightarrow> 's call)
     \<Rightarrow> poll_choice list \<Rightarrow> 's \<Rightarrow> consume_status \<times> 's"
where
  "Redis_Consume rc get put topic grp handler cs s =
     (let (_, r) = rc_XGroupCreateMkStream rc topic grp ''0'' (get s)
      in Redis_loop rc get put topic grp handler cs (put r s))"

section \<open>What the server documents\<close>

text \<open>
  A view of the server: the entries of each stream, oldest first, how many of them each group has
  been given (0 for a group that does not exist yet), and the identifiers each group has been given and not
  acknowledged (its pending entries list).
\<close>

record 'r redis_view =
  rv_entries :: "'r \<Rightarrow> string \<Rightarrow> XMessage list"
  rv_cursor :: "'r \<Rightarrow> string \<Rightarrow> string \<Rightarrow> nat"
  rv_pending :: "'r \<Rightarrow> string \<Rightarrow> string \<Rightarrow> string list"

definition same_groups :: "'r redis_view \<Rightarrow> 'r \<Rightarrow> 'r \<Rightarrow> bool" where
  "same_groups V r r' \<longleftrightarrow> rv_cursor V r' = rv_cursor V r \<and> rv_pending V r' = rv_pending V r"

text \<open>\<open>XADD\<close> appends one entry; after an error it may have been carried out or not.\<close>

definition appended :: "'r redis_view \<Rightarrow> XAddArgs \<Rightarrow> 'r \<Rightarrow> 'r \<Rightarrow> bool" where
  "appended V a r r' \<longleftrightarrow> (\<exists>i. rv_entries V r' = (rv_entries V r)
      (xa_Stream a := rv_entries V r (xa_Stream a) @ [\<lparr>xm_ID = i, xm_Values = xa_Values a\<rparr>]))"

definition adds_entries :: "'r redis_client \<Rightarrow> 'r redis_view \<Rightarrow> bool" where
  "adds_entries rc V \<longleftrightarrow> (\<forall>a r. case rc_XAdd rc a r of (e, r') \<Rightarrow>
      same_groups V r r' \<and> (appended V a r r' \<or> e \<noteq> None \<and> rv_entries V r' = rv_entries V r))"

text \<open>
  \<open>XREADGROUP ... >\<close> gives the group the next entries, at least one and at most \<open>COUNT\<close>, and puts
  them on its pending list. An error may come after the server has done so.
\<close>

definition given :: "'r redis_view \<Rightarrow> string \<Rightarrow> string \<Rightarrow> nat \<Rightarrow> 'r \<Rightarrow> 'r \<Rightarrow> bool" where
  "given V topic grp n r r' \<longleftrightarrow>
     rv_cursor V r topic grp + n \<le> length (rv_entries V r topic) \<and>
     rv_entries V r' = rv_entries V r \<and>
     rv_cursor V r' topic grp = rv_cursor V r topic grp + n \<and>
     rv_pending V r' topic grp = rv_pending V r topic grp
       @ map xm_ID (take n (drop (rv_cursor V r topic grp) (rv_entries V r topic))) \<and>
     (\<forall>t g. (t, g) \<noteq> (topic, grp) \<longrightarrow> rv_cursor V r' t g = rv_cursor V r t g)"

definition reads_next :: "'r redis_client \<Rightarrow> 'r redis_view \<Rightarrow> bool" where
  "reads_next rc V \<longleftrightarrow> (\<forall>topic grp r. case rc_XReadGroup rc (read_args topic grp) r of
       (Inr streams, r') \<Rightarrow> \<exists>n>0. n \<le> 10 \<and> given V topic grp n r r' \<and> streams =
           [\<lparr>xs_Stream = topic,
             xs_Messages = take n (drop (rv_cursor V r topic grp) (rv_entries V r topic))\<rparr>]
     | (Inl err, r') \<Rightarrow> \<exists>n. given V topic grp n r r')"

text \<open>\<open>XACK\<close> takes an entry off the pending list; \<open>XGROUP CREATE ... 0 MKSTREAM\<close> makes a group that
  has been given nothing, or fails because there is one.\<close>

definition acks_entries :: "'r redis_client \<Rightarrow> 'r redis_view \<Rightarrow> bool" where
  "acks_entries rc V \<longleftrightarrow> (\<forall>topic grp i r. case rc_XAck rc topic grp i r of (e, r') \<Rightarrow>
       rv_entries V r' = rv_entries V r \<and> rv_cursor V r' = rv_cursor V r \<and>
       (rv_pending V r' topic grp = filter (\<lambda>j. j \<noteq> i) (rv_pending V r topic grp)
        \<or> e \<noteq> None \<and> rv_pending V r' topic grp = rv_pending V r topic grp))"

definition creates_groups :: "'r redis_client \<Rightarrow> 'r redis_view \<Rightarrow> bool" where
  "creates_groups rc V \<longleftrightarrow> (\<forall>topic grp r. case rc_XGroupCreateMkStream rc topic grp ''0'' r of (e, r') \<Rightarrow>
       rv_entries V r' = rv_entries V r \<and> same_groups V r r')"

text \<open>The identifiers of a stream's entries are distinct, and a group has not been given more than there is.\<close>

definition proper_streams :: "'r redis_view \<Rightarrow> bool" where
  "proper_streams V \<longleftrightarrow> (\<forall>r topic grp. distinct (map xm_ID (rv_entries V r topic)) \<and>
       rv_cursor V r topic grp \<le> length (rv_entries V r topic))"

definition redis_documented :: "'r redis_client \<Rightarrow> 'r redis_view \<Rightarrow> bool" where
  "redis_documented rc V \<longleftrightarrow> adds_entries rc V \<and> reads_next rc V \<and> acks_entries rc V \<and> creates_groups rc V
     \<and> proper_streams V"

text \<open>A server that is reachable: no command fails, and a read finds what is there.\<close>

definition redis_reachable :: "'r redis_client \<Rightarrow> 'r redis_view \<Rightarrow> bool" where
  "redis_reachable rc V \<longleftrightarrow>
     (\<forall>a r. fst (rc_XAdd rc a r) = None) \<and> (\<forall>t g i r. fst (rc_XAck rc t g i r) = None) \<and>
     (\<forall>t g r. rv_cursor V r t g < length (rv_entries V r t) \<longrightarrow>
        (\<exists>streams r'. rc_XReadGroup rc (read_args t g) r = (Inr streams, r')))"

section \<open>The queue the server provides\<close>

text \<open>A dead-lettered entry is told by its reason.\<close>

definition has_reason :: "XMessage \<Rightarrow> bool" where
  "has_reason x \<longleftrightarrow> map_of (xm_Values x) ''reason'' \<noteq> None"

definition redis_unread :: "'r redis_view \<Rightarrow> string \<Rightarrow> 'r \<Rightarrow> string \<Rightarrow> XMessage list" where
  "redis_unread V grp r topic = drop (rv_cursor V r topic grp) (rv_entries V r topic)"

definition redis_waiting :: "'r redis_view \<Rightarrow> string \<Rightarrow> 'r \<Rightarrow> string \<Rightarrow> body list" where
  "redis_waiting V grp r topic = map entry_payload (filter (\<lambda>x. \<not> has_reason x) (redis_unread V grp r topic))"

definition redis_dead :: "'r redis_view \<Rightarrow> 'r \<Rightarrow> string \<Rightarrow> body list" where
  "redis_dead V r topic = map entry_payload (filter has_reason (rv_entries V r (topic @ ''.dlq'')))"

lemma documentedD:
  assumes "redis_documented rc V"
  shows "adds_entries rc V" "reads_next rc V" "acks_entries rc V" "creates_groups rc V"
    "distinct (map xm_ID (rv_entries V r topic))" "rv_cursor V r topic grp \<le> length (rv_entries V r topic)"
  using assms by (simp_all add: redis_documented_def proper_streams_def)

lemma new_entry_parts:
  "entry_payload \<lparr>xm_ID = i, xm_Values = [(''payload'', b)]\<rparr> = b"
  "entry_payload \<lparr>xm_ID = i, xm_Values = [(''payload'', b), (''reason'', c)]\<rparr> = b"
  "\<not> has_reason \<lparr>xm_ID = i, xm_Values = [(''payload'', b)]\<rparr>"
  "has_reason \<lparr>xm_ID = i, xm_Values = [(''payload'', b), (''reason'', c)]\<rparr>"
  by (simp_all add: entry_payload_def has_reason_def)

lemma redis_added:
  assumes doc: "redis_documented rc V" and "rc_XAdd rc a r = (e, r')"
  shows "same_groups V r r'" and "appended V a r r' \<or> e \<noteq> None \<and> rv_entries V r' = rv_entries V r"
  using assms documentedD(1) [OF doc] by (auto simp: adds_entries_def split: prod.splits)

lemma waiting_added:
  assumes doc: "redis_documented rc V" and groups: "same_groups V r r'"
  shows "appended V \<lparr>xa_Stream = t, xa_Values = [(''payload'', b)]\<rparr> r r' \<Longrightarrow>
      redis_waiting V grp r' = (redis_waiting V grp r)(t := redis_waiting V grp r t @ [b]) \<and>
      redis_dead V r' = redis_dead V r"
    and "appended V \<lparr>xa_Stream = t @ ''.dlq'', xa_Values = [(''payload'', b), (''reason'', c)]\<rparr> r r' \<Longrightarrow>
      redis_dead V r' = (redis_dead V r)(t := redis_dead V r t @ [b]) \<and> redis_waiting V grp r' = redis_waiting V grp r"
proof -
  have c: "rv_cursor V r' = rv_cursor V r"
    using groups by (simp add: same_groups_def)
  show "appended V \<lparr>xa_Stream = t, xa_Values = [(''payload'', b)]\<rparr> r r' \<Longrightarrow>
      redis_waiting V grp r' = (redis_waiting V grp r)(t := redis_waiting V grp r t @ [b]) \<and>
      redis_dead V r' = redis_dead V r"
    using documentedD(6) [OF doc, of r]
    by (auto simp: appended_def redis_waiting_def redis_unread_def redis_dead_def c new_entry_parts fun_eq_iff)
  show "appended V \<lparr>xa_Stream = t @ ''.dlq'', xa_Values = [(''payload'', b), (''reason'', c)]\<rparr> r r' \<Longrightarrow>
      redis_dead V r' = (redis_dead V r)(t := redis_dead V r t @ [b]) \<and> redis_waiting V grp r' = redis_waiting V grp r"
    using documentedD(6) [OF doc, of r]
    by (auto simp: appended_def redis_waiting_def redis_unread_def redis_dead_def c new_entry_parts fun_eq_iff)
qed

text \<open>Over a reachable server the backend is a queue that accepts everything.\<close>

lemma redis_accepting:
  assumes doc: "redis_documented rc V" and up: "redis_reachable rc V"
  shows "accepting_queue (Redis_ops rc) (redis_waiting V grp) (redis_dead V) (\<lambda>_ _. True)"
proof -
  have ok: "fst (rc_XAdd rc a r) = None" for a r
    using up by (simp add: redis_reachable_def)
  show ?thesis
  proof unfold_locales
    fix t b q q'
    assume "q_Enqueue (Redis_ops rc) t b q = Done (None, q')"
    then have "rc_XAdd rc \<lparr>xa_Stream = t, xa_Values = [(''payload'', b)]\<rparr> q = (None, q')"
      by (simp add: Redis_ops_def Redis_Enqueue_def)
    from redis_added [OF doc this]
    show "redis_waiting V grp q' = (redis_waiting V grp q)(t := redis_waiting V grp q t @ [b]) \<and>
        redis_dead V q' = redis_dead V q"
      by (intro waiting_added(1) [OF doc]) auto
  next
    fix t b q e q'
    assume "q_Enqueue (Redis_ops rc) t b q = Done (Some e, q')"
    then show "redis_waiting V grp q' = redis_waiting V grp q \<and> redis_dead V q' = redis_dead V q"
      using ok [of "\<lparr>xa_Stream = t, xa_Values = [(''payload'', b)]\<rparr>" q]
      by (simp add: Redis_ops_def Redis_Enqueue_def)
  next
    fix t b r q q'
    assume "q_DeadLetter (Redis_ops rc) t b r q = Done (None, q')"
    then have "rc_XAdd rc \<lparr>xa_Stream = t @ ''.dlq'', xa_Values = [(''payload'', b), (''reason'', rc_text rc r)]\<rparr> q
        = (None, q')"
      by (simp add: Redis_ops_def Redis_DeadLetter_def)
    from redis_added [OF doc this]
    show "redis_dead V q' = (redis_dead V q)(t := redis_dead V q t @ [b]) \<and> redis_waiting V grp q' = redis_waiting V grp q"
      by (intro waiting_added(2) [OF doc]) auto
  next
    fix t b r q e q'
    assume "q_DeadLetter (Redis_ops rc) t b r q = Done (Some e, q')"
    then show "redis_waiting V grp q' = redis_waiting V grp q \<and> redis_dead V q' = redis_dead V q"
      using ok [of "\<lparr>xa_Stream = t @ ''.dlq'', xa_Values = [(''payload'', b), (''reason'', rc_text rc r)]\<rparr>" q]
      by (simp add: Redis_ops_def Redis_DeadLetter_def)
  next
    fix t b q
    show "\<exists>q'. q_Enqueue (Redis_ops rc) t b q = Done (None, q')"
      using ok by (simp add: Redis_ops_def Redis_Enqueue_def prod_eq_iff)
  next
    fix t b r q
    show "\<exists>q'. q_DeadLetter (Redis_ops rc) t b r q = Done (None, q')"
      using ok by (simp add: Redis_ops_def Redis_DeadLetter_def prod_eq_iff)
  qed
qed

section \<open>What a consumer is given\<close>

text \<open>A process started again and again: for each life, the messages handled by its end and what its \<open>select\<close> finds.\<close>

fun Redis_sessions ::
  "'r redis_client \<Rightarrow> ('s \<Rightarrow> 'r) \<Rightarrow> ('r \<Rightarrow> 's \<Rightarrow> 's) \<Rightarrow> string \<Rightarrow> string \<Rightarrow> (Message \<Rightarrow> 's \<Rightarrow> 's call)
     \<Rightarrow> (nat \<times> poll_choice list) list \<Rightarrow> 's \<times> Message list \<Rightarrow> 's \<times> Message list"
where
  "Redis_sessions rc get put topic grp handler [] st = st"
| "Redis_sessions rc get put topic grp handler ((lives, cs) # css) st =
     Redis_sessions rc get put topic grp handler css
       (snd (Redis_Consume rc (below get) (set_below put) topic grp (recorded lives handler) cs st))"

text \<open>The stream only grows, and nobody else reads for the group.\<close>

definition grows :: "'r redis_view \<Rightarrow> string \<Rightarrow> string \<Rightarrow> 'r \<Rightarrow> 'r \<Rightarrow> bool" where
  "grows V topic grp r r' \<longleftrightarrow> rv_cursor V r' topic grp = rv_cursor V r topic grp \<and>
     prefix (rv_entries V r topic) (rv_entries V r' topic)"

lemma grows_refl [simp]: "grows V topic grp r r"
  by (simp add: grows_def)

lemma grows_trans: "grows V topic grp r r' \<Longrightarrow> grows V topic grp r' r'' \<Longrightarrow> grows V topic grp r r''"
  by (auto simp: grows_def intro: prefix_order.trans)

lemma redis_ops_grow:
  assumes doc: "redis_documented rc V"
  shows "q_Enqueue (Redis_ops rc) t b r = Done (e, r') \<Longrightarrow> grows V topic grp r r'"
    and "q_DeadLetter (Redis_ops rc) t b reason r = Done (e, r') \<Longrightarrow> grows V topic grp r r'"
  using redis_added [OF doc]
  by (force simp: Redis_ops_def Redis_Enqueue_def Redis_DeadLetter_def grows_def same_groups_def appended_def)+

text \<open>
  What one run of the loop hands out: \<open>ys\<close> are entries the group was given in it, in the order of
  the stream and none twice.
\<close>

definition handed :: "'r redis_view \<Rightarrow> string \<Rightarrow> string \<Rightarrow> 'r \<Rightarrow> 'r \<Rightarrow> XMessage list \<Rightarrow> bool" where
  "handed V topic grp r r' ys \<longleftrightarrow>
     prefix (rv_entries V r topic) (rv_entries V r' topic) \<and> rv_cursor V r topic grp \<le> rv_cursor V r' topic grp \<and>
     subseq ys (take (rv_cursor V r' topic grp - rv_cursor V r topic grp)
                  (drop (rv_cursor V r topic grp) (rv_entries V r' topic)))"

lemma take_drop_prefix:
  "prefix xs xs' \<Longrightarrow> k + n \<le> length xs \<Longrightarrow> take n (drop k xs') = take n (drop k xs)"
  by (auto simp: prefix_def)

lemma take_drop_add: "a \<le> b \<Longrightarrow> b \<le> c \<Longrightarrow>
  take (c - a) (drop a xs) = take (b - a) (drop a xs) @ take (c - b) (drop b xs)"
  using take_add [of "b - a" "c - b" "drop a xs"] by (simp add: add.commute)

lemma handed_trans:
  assumes "handed V topic grp r r' ys" and "handed V topic grp r' r'' zs"
    and "rv_cursor V r' topic grp \<le> length (rv_entries V r' topic)"
  shows "handed V topic grp r r'' (ys @ zs)"
proof -
  have "take (rv_cursor V r' topic grp - rv_cursor V r topic grp) (drop (rv_cursor V r topic grp) (rv_entries V r'' topic))
      = take (rv_cursor V r' topic grp - rv_cursor V r topic grp) (drop (rv_cursor V r topic grp) (rv_entries V r' topic))"
    using assms by (intro take_drop_prefix) (auto simp: handed_def)
  then show ?thesis
    using assms take_drop_add [of "rv_cursor V r topic grp" "rv_cursor V r' topic grp" "rv_cursor V r'' topic grp"
        "rv_entries V r'' topic"]
    by (auto simp: handed_def intro: prefix_order.trans list_emb_append_mono)
qed

lemma entries_handed:
  assumes doc: "redis_documented rc V" and lens: "\<forall>r s. get (put r s) = r"
    and handler: "\<forall>msg s e s'. handler msg s = Done (e, s') \<longrightarrow> grows V topic grp (get s) (get s')"
    and run: "Redis_entries rc (below get) (set_below put) topic grp (recorded lives handler) xs (s, tr)
      = (fin, (s', tr'))"
  shows "grows V topic grp (get s) (get s') \<and>
    (\<exists>ys. tr' = tr @ map entry_message ys \<and> prefix ys xs \<and> (fin \<longrightarrow> ys = xs))"
  using run
proof (induction xs arbitrary: s tr)
  case Nil
  then show ?case
    by simp
next
  case (Cons x xs)
  show ?case
  proof (cases "length tr < lives \<and> (\<exists>res. handler (entry_message x) s = Done res)")
    case True
    then have live: "length tr < lives"
      by simp
    obtain e s1 where s1: "handler (entry_message x) s = Done (e, s1)"
      using True by auto
    obtain s2 where s2: "Redis_entries rc (below get) (set_below put) topic grp (recorded lives handler) xs
        (s2, tr @ [entry_message x]) = (fin, (s', tr'))" and "grows V topic grp (get s1) (get s2)"
    proof (cases e)
      case None
      obtain e' r where ack: "rc_XAck rc topic grp (xm_ID x) (get s1) = (e', r)"
        by fastforce
      then have "grows V topic grp (get s1) (get (put r s1))"
        using documentedD(3) [OF doc] by (auto simp: acks_entries_def lens grows_def split: prod.splits)
      then show thesis
        using that [of "put r s1"] Cons.prems None ack by (simp add: recorded_simps(1) [where handler = handler, OF live s1])
    next
      case (Some err)
      then show thesis
        using that [of s1] Cons.prems by (simp add: recorded_simps(1) [where handler = handler, OF live s1])
    qed
    obtain ys where "grows V topic grp (get s2) (get s')" and ys: "tr' = (tr @ [entry_message x]) @ map entry_message ys"
      "prefix ys xs" "fin \<longrightarrow> ys = xs"
      using Cons.IH [OF s2] by blast
    moreover have "grows V topic grp (get s) (get s1)"
      using handler s1 by blast
    ultimately show ?thesis
      using grows_trans [OF grows_trans [OF _ \<open>grows V topic grp (get s1) (get s2)\<close>]] by (intro conjI exI [of _ "x # ys"]) auto
  next
    case False
    then have "recorded lives handler (entry_message x) (s, tr) \<in> {Blocked, Panicked}"
      by (cases "handler (entry_message x) s") (auto simp: recorded_def)
    then show ?thesis
      using Cons.prems by auto
  qed
qed

lemma loop_handed:
  assumes doc: "redis_documented rc V" and lens: "\<forall>r s. get (put r s) = r"
    and handler: "\<forall>msg s e s'. handler msg s = Done (e, s') \<longrightarrow> grows V topic grp (get s) (get s')"
    and run: "Redis_loop rc (below get) (set_below put) topic grp (recorded lives handler) cs (s, tr) = (st, (s', tr'))"
  shows "\<exists>ys. tr' = tr @ map entry_message ys \<and> handed V topic grp (get s) (get s') ys"
  using run
proof (induction cs arbitrary: s tr)
  case Nil
  then show ?case
    by (simp add: handed_def)
next
  case (Cons c cs)
  show ?case
  proof (cases c)
    case CtxDone
    then show ?thesis
      using Cons.prems by (simp add: handed_def)
  next
    case Poll
    obtain answer r where read: "rc_XReadGroup rc (read_args topic grp) (get s) = (answer, r)"
      by fastforce
    have nxt: "case answer of Inr streams \<Rightarrow> \<exists>n>0. n \<le> 10 \<and> given V topic grp n (get s) r \<and> streams =
           [\<lparr>xs_Stream = topic, xs_Messages = take n (redis_unread V grp (get s) topic)\<rparr>]
        | Inl err \<Rightarrow> \<exists>n. given V topic grp n (get s) r"
      using documentedD(2) [OF doc, unfolded reads_next_def, rule_format, of topic grp "get s"] read
      by (simp add: redis_unread_def split: sum.splits)
    show ?thesis
    proof (cases answer)
      case (Inl err)
      then have "handed V topic grp (get s) (get (put r s)) []"
        using nxt by (auto simp: handed_def given_def lens)
      moreover obtain ys where "tr' = tr @ map entry_message ys" "handed V topic grp (get (put r s)) (get s') ys"
        using Cons.IH [of "put r s" tr] Cons.prems Inl Poll read by auto
      ultimately show ?thesis
        using handed_trans [of V topic grp "get s" "get (put r s)" "[]" "get s'" ys] documentedD(6) [OF doc]
        by auto
    next
      case (Inr streams)
      then obtain n where n: "given V topic grp n (get s) r"
        and streams: "streams = [\<lparr>xs_Stream = topic, xs_Messages = take n (redis_unread V grp (get s) topic)\<rparr>]"
        using nxt by auto
      obtain fin s1 tr1 where batch: "Redis_entries rc (below get) (set_below put) topic grp (recorded lives handler)
          (take n (redis_unread V grp (get s) topic)) (put r s, tr) = (fin, (s1, tr1))"
        by (metis prod_cases3)
      obtain ys where g: "grows V topic grp r (get s1)" and ys: "tr1 = tr @ map entry_message ys"
        "prefix ys (take n (redis_unread V grp (get s) topic))"
        using entries_handed [OF doc lens handler batch] by (auto simp: lens)
      have h: "handed V topic grp (get s) (get s1) ys"
        using g n ys(2) take_drop_prefix [of "rv_entries V (get s) topic" "rv_entries V (get s1) topic"
            "rv_cursor V (get s) topic grp" n]
        by (auto simp: handed_def grows_def given_def redis_unread_def prefix_imp_subseq)
      show ?thesis
      proof (cases fin)
        case True
        then obtain zs where "tr' = tr1 @ map entry_message zs" "handed V topic grp (get s1) (get s') zs"
          using Cons.IH [of s1 tr1] Cons.prems Inr Poll read batch by (auto simp: Redis_streams_def streams)
        then show ?thesis
          using handed_trans [OF h] ys(1) documentedD(6) [OF doc] by (intro exI [of _ "ys @ zs"]) auto
      next
        case False
        then have "s' = s1" "tr' = tr1"
          using Cons.prems Inr Poll read batch by (auto simp: Redis_streams_def streams)
        then show ?thesis
          using h ys(1) by blast
      qed
    qed
  qed
qed

lemma sessions_handed:
  assumes doc: "redis_documented rc V" and lens: "\<forall>r s. get (put r s) = r"
    and handler: "\<forall>msg s e s'. handler msg s = Done (e, s') \<longrightarrow> grows V topic grp (get s) (get s')"
    and run: "Redis_sessions rc get put topic grp handler css (s, tr) = (s', tr')"
  shows "\<exists>ys. tr' = tr @ map entry_message ys \<and> handed V topic grp (get s) (get s') ys"
  using run
proof (induction css arbitrary: s tr)
  case Nil
  then show ?case
    by (simp add: handed_def)
next
  case (Cons life css)
  obtain lives cs where life: "life = (lives, cs)"
    by fastforce
  obtain e r where mk: "rc_XGroupCreateMkStream rc topic grp ''0'' (get s) = (e, r)"
    by fastforce
  then have same: "rv_entries V r = rv_entries V (get s)" "rv_cursor V r = rv_cursor V (get s)"
    using documentedD(4) [OF doc] by (auto simp: creates_groups_def same_groups_def split: prod.splits)
  obtain st s1 tr1 where run1: "Redis_loop rc (below get) (set_below put) topic grp (recorded lives handler) cs (put r s, tr)
      = (st, (s1, tr1))"
    by (metis prod_cases3)
  obtain ys where ys: "tr1 = tr @ map entry_message ys" "handed V topic grp (get s) (get s1) ys"
    using loop_handed [OF doc lens handler run1] same by (auto simp: handed_def lens)
  obtain zs where "tr' = tr1 @ map entry_message zs" "handed V topic grp (get s1) (get s') zs"
    using Cons.IH [of s1 tr1] Cons.prems run1 by (auto simp: life Redis_Consume_def mk)
  then show ?case
    using handed_trans [OF ys(2)] ys(1) documentedD(6) [OF doc] by (intro exI [of _ "ys @ zs"]) auto
qed

end
