(* ===== verification/RedisRun.thy ===== *)
theory RedisRun
  imports Scheduler Redis
begin

text \<open>
  The dispatcher of the scheduler on the Redis queue: it refines the same abstract machine as on
  the in-memory queue while the server is reachable, and no message is handled twice however
  often the process is killed.
\<close>

section \<open>The scheduler on Redis\<close>

text \<open>\<open>Run\<close> of the dispatcher over the Redis queue.\<close>

definition Redis_dispatch ::
  "'r redis_client \<Rightarrow> dispatch_config \<Rightarrow> (nat \<Rightarrow> InferenceRequest \<Rightarrow> string + InferenceResponse)
     \<Rightarrow> poll_choice list \<Rightarrow> 'r world \<Rightarrow> consume_status \<times> 'r world"
where
  "Redis_dispatch rc d predict cs s =
     Redis_Consume rc wd_queue (\<lambda>q s. s\<lparr>wd_queue := q\<rparr>) (d_JobsTopic d) ''scheduler''
       (Dispatcher_on_message (Redis_ops rc) d predict) cs s"

text \<open>
  The scheduler killed and started again, any number of times: each of its lives is the number of
  messages handled by its end and what its \<open>select\<close> finds. The second component of the result is
  the record of the messages handled.
\<close>

definition Redis_restarts ::
  "'r redis_client \<Rightarrow> dispatch_config \<Rightarrow> (nat \<Rightarrow> InferenceRequest \<Rightarrow> string + InferenceResponse)
     \<Rightarrow> (nat \<times> poll_choice list) list \<Rightarrow> 'r world \<Rightarrow> 'r world \<times> Message list"
where
  "Redis_restarts rc d predict css s =
     Redis_sessions rc wd_queue (\<lambda>q s. s\<lparr>wd_queue := q\<rparr>) (d_JobsTopic d) ''scheduler''
       (Dispatcher_on_message (Redis_ops rc) d predict) css (s, [])"

lemma dispatch_grows:
  assumes doc: "redis_documented rc V" and "Dispatcher_on_message (Redis_ops rc) d predict msg s = Done (e, s')"
  shows "grows V topic grp (wd_queue s) (wd_queue s')"
  using on_message_queue [OF assms(2)] redis_ops_grow [OF doc] by (metis grows_refl)

lemma restarts_handed:
  assumes doc: "redis_documented rc V" and "Redis_restarts rc d predict css s = (s', handled)"
  shows "\<exists>ys. handled = map entry_message ys \<and> handed V (d_JobsTopic d) ''scheduler'' (wd_queue s) (wd_queue s') ys"
  using sessions_handed [OF doc _ _ assms(2) [unfolded Redis_restarts_def]] dispatch_grows [OF doc] by simp

section \<open>Refinement\<close>

text \<open>The observable state; \<open>held\<close> are the entries read and not handled yet.\<close>

definition redis_observe :: "'r redis_view \<Rightarrow> dispatch_config \<Rightarrow> XMessage list \<Rightarrow> 'r world \<Rightarrow> dispatch_obs" where
  "redis_observe V d held s =
     dispatch_view (redis_waiting V ''scheduler'') (redis_dead V) d (map entry_payload held) s"

text \<open>
  What holds between two messages: the entries of the jobs stream carry no reason, and the group's
  pending list consists of \<open>old\<close>, entries given before, and of the entries held.
\<close>

definition batch_ok :: "'r redis_view \<Rightarrow> dispatch_config \<Rightarrow> string list \<Rightarrow> XMessage list \<Rightarrow> 'r \<Rightarrow> bool" where
  "batch_ok V d old held r \<longleftrightarrow>
     (\<forall>x\<in>set (rv_entries V r (d_JobsTopic d)). \<not> has_reason x) \<and>
     rv_pending V r (d_JobsTopic d) ''scheduler'' = old @ map xm_ID held \<and>
     (\<exists>done_before. take (rv_cursor V r (d_JobsTopic d) ''scheduler'') (rv_entries V r (d_JobsTopic d))
          = done_before @ held \<and> set old \<subseteq> xm_ID ` set done_before)"

lemma batch_ok_ids:
  assumes doc: "redis_documented rc V" and "batch_ok V d old held r"
  shows "distinct (map xm_ID held)" and "set old \<inter> xm_ID ` set held = {}"
proof -
  obtain b where b: "take (rv_cursor V r (d_JobsTopic d) ''scheduler'') (rv_entries V r (d_JobsTopic d)) = b @ held"
    and old: "set old \<subseteq> xm_ID ` set b"
    using assms(2) by (auto simp: batch_ok_def)
  have "distinct (take k (map xm_ID (rv_entries V r t)))" for k t
    using documentedD(5) [OF doc] by (rule distinct_take)
  from this [of "rv_cursor V r (d_JobsTopic d) ''scheduler''" "d_JobsTopic d"]
  have "distinct (map xm_ID (b @ held))"
    by (simp add: take_map b)
  then show "distinct (map xm_ID held)" and "set old \<inter> xm_ID ` set held = {}"
    using old by auto
qed

lemma batch_ok_added:
  assumes doc: "redis_documented rc V" and ok: "batch_ok V d old held r"
    and groups: "same_groups V r r'" and added: "appended V a r r' \<or> rv_entries V r' = rv_entries V r"
    and plain: "xa_Stream a = d_JobsTopic d \<Longrightarrow> map_of (xa_Values a) ''reason'' = None"
  shows "batch_ok V d old held r'"
  using ok groups added plain documentedD(6) [OF doc, of r "d_JobsTopic d" "''scheduler''"]
  by (auto simp: batch_ok_def same_groups_def appended_def has_reason_def split: if_splits)

lemma batch_ok_dispatch:
  assumes doc: "redis_documented rc V" and ok: "batch_ok V d old held (wd_queue s)"
    and run: "Dispatcher_on_message (Redis_ops rc) d predict msg s = Done (e, s')"
  shows "batch_ok V d old held (wd_queue s')"
  using on_message_queue [OF run]
proof (elim disjE exE)
  fix t b e
  assume "q_Enqueue (Redis_ops rc) t b (wd_queue s) = Done (e, wd_queue s')"
  then have "rc_XAdd rc \<lparr>xa_Stream = t, xa_Values = [(''payload'', b)]\<rparr> (wd_queue s) = (e, wd_queue s')"
    by (simp add: Redis_ops_def Redis_Enqueue_def)
  from redis_added [OF doc this] show ?thesis
    by (intro batch_ok_added [OF doc ok]) auto
next
  fix b r e
  assume "q_DeadLetter (Redis_ops rc) (d_JobsTopic d) b r (wd_queue s) = Done (e, wd_queue s')"
  then have "rc_XAdd rc \<lparr>xa_Stream = d_JobsTopic d @ ''.dlq'', xa_Values = [(''payload'', b), (''reason'', rc_text rc r)]\<rparr>
      (wd_queue s) = (e, wd_queue s')"
    by (simp add: Redis_ops_def Redis_DeadLetter_def)
  from redis_added [OF doc this] show ?thesis
    by (intro batch_ok_added [OF doc ok]) auto
qed (use ok in simp)

lemma batch_ok_acked:
  assumes doc: "redis_documented rc V" and up: "redis_reachable rc V"
    and ok: "batch_ok V d old (x # held) r"
    and ack: "rc_XAck rc (d_JobsTopic d) ''scheduler'' (xm_ID x) r = (e, r')"
  shows "batch_ok V d old held r'" and "redis_waiting V grp r' = redis_waiting V grp r" "redis_dead V r' = redis_dead V r"
proof -
  have "e = None"
    using up ack by (metis fst_conv redis_reachable_def)
  then have same: "rv_entries V r' = rv_entries V r" "rv_cursor V r' = rv_cursor V r"
    and pel: "rv_pending V r' (d_JobsTopic d) ''scheduler''
      = filter (\<lambda>j. j \<noteq> xm_ID x) (rv_pending V r (d_JobsTopic d) ''scheduler'')"
    using documentedD(3) [OF doc, unfolded acks_entries_def, rule_format, where topic = "d_JobsTopic d" and grp = "''scheduler''"
        and i = "xm_ID x" and r = r] ack
    by auto
  have ids: "xm_ID x \<notin> set (map xm_ID held)" "xm_ID x \<notin> set old"
    using batch_ok_ids [OF doc ok] by auto
  have "filter (\<lambda>j. j \<noteq> xm_ID x) ks = ks" if "xm_ID x \<notin> set ks" for ks
    using that by (induction ks) auto
  from this [OF ids(1)] this [OF ids(2)]
  have "filter (\<lambda>j. j \<noteq> xm_ID x) (old @ map xm_ID (x # held)) = old @ map xm_ID held"
    by simp
  then show "batch_ok V d old held r'"
    using ok pel same by (auto simp: batch_ok_def)
  show "redis_waiting V grp r' = redis_waiting V grp r" "redis_dead V r' = redis_dead V r"
    by (simp_all add: redis_waiting_def redis_unread_def redis_dead_def same fun_eq_iff)
qed

lemma batch_run:
  assumes doc: "redis_documented rc V" and up: "redis_reachable rc V" and topics: "d_JobsTopic d \<noteq> d_ResultsTopic d"
    and "batch_ok V d old held (wd_queue s)"
  shows "\<exists>s'. Redis_entries rc wd_queue (\<lambda>q s. s\<lparr>wd_queue := q\<rparr>) (d_JobsTopic d) ''scheduler''
      (Dispatcher_on_message (Redis_ops rc) d predict) held s = (True, s')
    \<and> redis_observe V d [] s' = (dispatch_step d predict ^^ length held) (redis_observe V d held s)
    \<and> batch_ok V d old [] (wd_queue s')"
  using assms(4)
proof (induction held arbitrary: s)
  case Nil
  then show ?case
    by simp
next
  case (Cons x held)
  note step = accepting_queue.message_step [OF redis_accepting [OF doc up, where grp = "''scheduler''"] topics TrueI TrueI]
  obtain s1 where s1: "Dispatcher_on_message (Redis_ops rc) d predict (entry_message x) s = Done (None, s1)"
    and step: "redis_observe V d held s1 = dispatch_step d predict (redis_observe V d (x # held) s)"
    using step [where msg = "entry_message x" and s = s and held = "map entry_payload held" and predict = predict]
    by (auto simp: redis_observe_def entry_message_def)
  obtain e r where ack: "rc_XAck rc (d_JobsTopic d) ''scheduler'' (xm_ID x) (wd_queue s1) = (e, r)"
    by fastforce
  note acked = batch_ok_acked [OF doc up batch_ok_dispatch [OF doc Cons.prems s1] ack]
  let ?s2 = "s1\<lparr>wd_queue := r\<rparr>"
  have "redis_observe V d held ?s2 = redis_observe V d held s1"
    by (simp add: redis_observe_def dispatch_view_def acked)
  then show ?case
    using Cons.IH [of ?s2] acked(1) step
    by (simp add: s1 ack funpow_Suc_right del: funpow.simps)
qed

text \<open>Reading a batch moves its entries from the stream to those held.\<close>

lemma read_batch:
  assumes topics: "d_JobsTopic d \<noteq> d_ResultsTopic d" and ok: "batch_ok V d old [] (wd_queue s)"
    and n: "given V (d_JobsTopic d) ''scheduler'' n (wd_queue s) r"
  defines "held \<equiv> take n (redis_unread V ''scheduler'' (wd_queue s) (d_JobsTopic d))"
  shows "batch_ok V d old held r" and "redis_observe V d held (s\<lparr>wd_queue := r\<rparr>) = redis_observe V d [] s"
    and "length held = n"
    and "ob_jobs (redis_observe V d [] s) =
      map entry_payload (redis_unread V ''scheduler'' (wd_queue s) (d_JobsTopic d))"
proof -
  let ?c = "rv_cursor V (wd_queue s) (d_JobsTopic d) ''scheduler''" and ?E = "rv_entries V (wd_queue s)"
  have plain: "\<forall>x\<in>set (?E (d_JobsTopic d)). \<not> has_reason x"
    using ok by (auto simp: batch_ok_def)
  have jobs_only: "filter (\<lambda>x. \<not> has_reason x) (drop k (?E (d_JobsTopic d))) = drop k (?E (d_JobsTopic d))" for k
    using plain by (intro filter_True) (auto dest: in_set_dropD)
  show "batch_ok V d old held r"
    using n ok by (auto simp: held_def batch_ok_def given_def take_add redis_unread_def)
  have waiting: "redis_waiting V ''scheduler'' r = (redis_waiting V ''scheduler'' (wd_queue s))
      (d_JobsTopic d := map entry_payload (drop (?c + n) (?E (d_JobsTopic d))))"
    using n by (auto simp: redis_waiting_def redis_unread_def given_def fun_eq_iff jobs_only)
  have all: "redis_waiting V ''scheduler'' (wd_queue s) (d_JobsTopic d) = map entry_payload (drop ?c (?E (d_JobsTopic d)))"
    by (simp add: redis_waiting_def redis_unread_def jobs_only)
  have split: "map entry_payload (take n (drop ?c (?E (d_JobsTopic d)))) @ map entry_payload (drop (?c + n) (?E (d_JobsTopic d)))
      = map entry_payload (drop ?c (?E (d_JobsTopic d)))"
    using append_take_drop_id [of n "drop ?c (?E (d_JobsTopic d))"]
    by (simp only: drop_drop add.commute map_append [symmetric])
  show "redis_observe V d held (s\<lparr>wd_queue := r\<rparr>) = redis_observe V d [] s"
    using topics n
    by (simp add: held_def redis_unread_def redis_observe_def dispatch_view_def waiting all redis_dead_def split given_def)
  show "length held = n"
    using n by (auto simp: held_def redis_unread_def given_def min_def)
  show "ob_jobs (redis_observe V d [] s) =
      map entry_payload (redis_unread V ''scheduler'' (wd_queue s) (d_JobsTopic d))"
    by (simp add: redis_observe_def dispatch_view_def all redis_unread_def)
qed

lemma poll_run:
  assumes doc: "redis_documented rc V" and up: "redis_reachable rc V" and topics: "d_JobsTopic d \<noteq> d_ResultsTopic d"
    and ok: "batch_ok V d old [] (wd_queue s)"
  shows "\<exists>s' n. (\<forall>cs. Redis_loop rc wd_queue (\<lambda>q s. s\<lparr>wd_queue := q\<rparr>) (d_JobsTopic d) ''scheduler''
        (Dispatcher_on_message (Redis_ops rc) d predict) (Poll # cs) s
      = Redis_loop rc wd_queue (\<lambda>q s. s\<lparr>wd_queue := q\<rparr>) (d_JobsTopic d) ''scheduler''
        (Dispatcher_on_message (Redis_ops rc) d predict) cs s')
    \<and> 0 < n \<and> redis_observe V d [] s' = (dispatch_step d predict ^^ n) (redis_observe V d [] s)
    \<and> batch_ok V d old [] (wd_queue s')"
proof -
  let ?unread = "redis_unread V ''scheduler'' (wd_queue s) (d_JobsTopic d)"
  obtain answer r where read: "rc_XReadGroup rc (read_args (d_JobsTopic d) ''scheduler'') (wd_queue s) = (answer, r)"
    by fastforce
  have nxt: "case answer of Inr streams \<Rightarrow> \<exists>n>0. n \<le> 10 \<and> given V (d_JobsTopic d) ''scheduler'' n (wd_queue s) r \<and>
           streams = [\<lparr>xs_Stream = d_JobsTopic d, xs_Messages = take n ?unread\<rparr>]
        | Inl err \<Rightarrow> \<exists>n. given V (d_JobsTopic d) ''scheduler'' n (wd_queue s) r"
    using documentedD(2) [OF doc, unfolded reads_next_def, rule_format, where topic = "d_JobsTopic d"
        and grp = "''scheduler''" and r = "wd_queue s"] read
    by (simp add: redis_unread_def split: sum.splits)
  show ?thesis
  proof (cases answer)
    case (Inl err)
    obtain n where n: "given V (d_JobsTopic d) ''scheduler'' n (wd_queue s) r"
      using nxt Inl by auto
    have empty: "?unread = []"
      using up read Inl unfolding redis_reachable_def redis_unread_def
      by (metis Inl_Inr_False drop_all fst_conv not_less)
    then show ?thesis
      using read_batch [OF topics ok n] read Inl dispatch_idle [of "redis_observe V d [] s" 1 d predict]
      by (intro exI [of _ "s\<lparr>wd_queue := r\<rparr>"] exI [of _ 1]) simp
  next
    case (Inr streams)
    then obtain n where "0 < n" and n: "given V (d_JobsTopic d) ''scheduler'' n (wd_queue s) r"
      and streams: "streams = [\<lparr>xs_Stream = d_JobsTopic d, xs_Messages = take n ?unread\<rparr>]"
      using nxt by auto
    note batch = read_batch [OF topics ok n]
    have "batch_ok V d old (take n ?unread) (wd_queue (s\<lparr>wd_queue := r\<rparr>))"
      using batch(1) by simp
    from batch_run [OF doc up topics this, where predict = predict] obtain s' where
      "Redis_entries rc wd_queue (\<lambda>q s. s\<lparr>wd_queue := q\<rparr>) (d_JobsTopic d) ''scheduler''
        (Dispatcher_on_message (Redis_ops rc) d predict) (take n ?unread) (s\<lparr>wd_queue := r\<rparr>) = (True, s')"
      and "redis_observe V d [] s' = (dispatch_step d predict ^^ n) (redis_observe V d [] s)"
      and "batch_ok V d old [] (wd_queue s')"
      unfolding batch(2,3) by blast
    then show ?thesis
      using \<open>0 < n\<close> Inr read streams
      by (intro exI [of _ s'] exI [of _ n]) (simp add: Redis_streams_def)
  qed
qed

lemma poll_runs:
  assumes doc: "redis_documented rc V" and up: "redis_reachable rc V" and topics: "d_JobsTopic d \<noteq> d_ResultsTopic d"
    and ok: "batch_ok V d old [] (wd_queue s)"
  shows "\<exists>s' n. Redis_loop rc wd_queue (\<lambda>q s. s\<lparr>wd_queue := q\<rparr>) (d_JobsTopic d) ''scheduler''
        (Dispatcher_on_message (Redis_ops rc) d predict) (replicate k Poll) s = (Running, s')
    \<and> k \<le> n \<and> redis_observe V d [] s' = (dispatch_step d predict ^^ n) (redis_observe V d [] s)
    \<and> batch_ok V d old [] (wd_queue s')"
  using ok
proof (induction k arbitrary: s)
  case 0
  then show ?case
    by (intro exI [of _ s] exI [of _ 0]) simp
next
  case (Suc k)
  obtain s1 m where poll: "Redis_loop rc wd_queue (\<lambda>q s. s\<lparr>wd_queue := q\<rparr>) (d_JobsTopic d) ''scheduler''
        (Dispatcher_on_message (Redis_ops rc) d predict) (Poll # cs) s
      = Redis_loop rc wd_queue (\<lambda>q s. s\<lparr>wd_queue := q\<rparr>) (d_JobsTopic d) ''scheduler''
        (Dispatcher_on_message (Redis_ops rc) d predict) cs s1"
    and m: "0 < m" "redis_observe V d [] s1 = (dispatch_step d predict ^^ m) (redis_observe V d [] s)"
    and ok1: "batch_ok V d old [] (wd_queue s1)" for cs
    using poll_run [OF doc up topics Suc.prems, where predict = predict] by blast
  obtain s' n where run: "Redis_loop rc wd_queue (\<lambda>q s. s\<lparr>wd_queue := q\<rparr>) (d_JobsTopic d) ''scheduler''
        (Dispatcher_on_message (Redis_ops rc) d predict) (replicate k Poll) s1 = (Running, s')"
    and n: "k \<le> n" "redis_observe V d [] s' = (dispatch_step d predict ^^ n) (redis_observe V d [] s1)"
    and ok': "batch_ok V d old [] (wd_queue s')"
    using Suc.IH [OF ok1] by blast
  have "redis_observe V d [] s' = (dispatch_step d predict ^^ (n + m)) (redis_observe V d [] s)"
    by (simp add: n m funpow_add)
  then show ?case
    using run ok' n(1) m(1) unfolding replicate_Suc poll
    by (intro exI [of _ s'] exI [of _ "n + m"]) simp
qed

section \<open>A concrete server\<close>

record demo_redis =
  dr_streams :: "string \<Rightarrow> (string, body) gomap list"
  dr_cursors :: "string \<Rightarrow> string \<Rightarrow> nat"
  dr_pending :: "string \<Rightarrow> string \<Rightarrow> string list"

definition demo_id :: "nat \<Rightarrow> string" where
  "demo_id i = ''0-'' @ replicate i CHR ''1''"

definition demo_entries :: "demo_redis \<Rightarrow> string \<Rightarrow> XMessage list" where
  "demo_entries r t = map (\<lambda>i. \<lparr>xm_ID = demo_id i, xm_Values = dr_streams r t ! i\<rparr>) [0..<length (dr_streams r t)]"

definition demo_cursor :: "demo_redis \<Rightarrow> string \<Rightarrow> string \<Rightarrow> nat" where
  "demo_cursor r t g = min (dr_cursors r t g) (length (dr_streams r t))"

definition demo_view :: "demo_redis redis_view" where
  "demo_view = \<lparr>rv_entries = demo_entries, rv_cursor = demo_cursor, rv_pending = dr_pending\<rparr>"

definition demo_read :: "XReadGroupArgs \<Rightarrow> demo_redis \<Rightarrow> (redis_error + XStream list) \<times> demo_redis" where
  "demo_read a r =
     (let t = hd (xr_Streams a); g = xr_Group a; c = demo_cursor r t g; news = take 10 (drop c (demo_entries r t)) in
      if news = [] then (Inl RedisNil, r)
      else (Inr [\<lparr>xs_Stream = t, xs_Messages = news\<rparr>],
            r\<lparr>dr_cursors := (dr_cursors r)(t := (dr_cursors r t)(g := c + length news)),
              dr_pending := (dr_pending r)(t := (dr_pending r t)(g := dr_pending r t g @ map xm_ID news))\<rparr>))"

definition demo_add :: "XAddArgs \<Rightarrow> demo_redis \<Rightarrow> string option \<times> demo_redis" where
  "demo_add a r =
     (None, r\<lparr>dr_streams := (dr_streams r)(xa_Stream a := dr_streams r (xa_Stream a) @ [xa_Values a]),
              dr_cursors := demo_cursor r\<rparr>)"

definition demo_ack :: "string \<Rightarrow> string \<Rightarrow> string \<Rightarrow> demo_redis \<Rightarrow> string option \<times> demo_redis" where
  "demo_ack t g i r =
     (None, r\<lparr>dr_pending := (dr_pending r)(t := (dr_pending r t)(g := filter (\<lambda>j. j \<noteq> i) (dr_pending r t g)))\<rparr>)"

definition demo_client :: "demo_redis redis_client" where
  "demo_client = \<lparr>rc_XAdd = demo_add, rc_XGroupCreateMkStream = (\<lambda>t g from r. (None, r)), rc_XReadGroup = demo_read,
     rc_XAck = demo_ack, rc_Close = (\<lambda>r. (None, r)), rc_text = (\<lambda>s. Malformed)\<rparr>"

definition demo_server :: "body list \<Rightarrow> demo_redis world" where
  "demo_server bs =
     \<lparr>wd_queue = \<lparr>dr_streams = (\<lambda>t. if t = ''jobs'' then map (\<lambda>b. [(''payload'', b)]) bs else []),
                  dr_cursors = (\<lambda>t g. 0), dr_pending = (\<lambda>t g. [])\<rparr>,
      wd_metrics = \<lparr>Processed = 0, Failed = 0, Retried = 0, DeadLettered = 0\<rparr>, wd_sleeps = [], wd_calls = []\<rparr>"

lemma demo_ids: "distinct (map xm_ID (demo_entries r t))" "length (demo_entries r t) = length (dr_streams r t)"
  by (simp_all add: demo_entries_def o_def distinct_map inj_on_def demo_id_def)

lemma demo_entries_append:
  "dr_streams r' t = dr_streams r t @ [v] \<Longrightarrow>
     demo_entries r' t = demo_entries r t @ [\<lparr>xm_ID = demo_id (length (dr_streams r t)), xm_Values = v\<rparr>]"
  by (auto simp: demo_entries_def nth_append)

lemma demo_entries_same: "dr_streams r' t = dr_streams r t \<Longrightarrow> demo_entries r' t = demo_entries r t"
  by (simp add: demo_entries_def)

lemma demo_documented: "redis_documented demo_client demo_view"
proof -
  have "adds_entries demo_client demo_view"
  proof (unfold adds_entries_def, intro allI)
    fix a :: XAddArgs and r :: demo_redis
    let ?r = "snd (demo_add a r)"
    have "demo_entries ?r = (demo_entries r)(xa_Stream a := demo_entries r (xa_Stream a)
        @ [\<lparr>xm_ID = demo_id (length (dr_streams r (xa_Stream a))), xm_Values = xa_Values a\<rparr>])"
      by (auto simp: fun_eq_iff demo_add_def intro!: demo_entries_append demo_entries_same)
    moreover have "demo_cursor ?r = demo_cursor r" "dr_pending ?r = dr_pending r"
      by (auto simp: demo_add_def demo_cursor_def fun_eq_iff)
    ultimately show "case rc_XAdd demo_client a r of (e, r') \<Rightarrow> same_groups demo_view r r' \<and>
        (appended demo_view a r r' \<or> e \<noteq> None \<and> rv_entries demo_view r' = rv_entries demo_view r)"
      by (auto simp: demo_client_def demo_add_def demo_view_def same_groups_def appended_def)
  qed
  moreover have "reads_next demo_client demo_view"
  proof (unfold reads_next_def, intro allI)
    fix topic grp :: string and r :: demo_redis
    let ?c = "demo_cursor r topic grp" and ?news = "take 10 (drop (demo_cursor r topic grp) (demo_entries r topic))"
    have c: "?c \<le> length (dr_streams r topic)"
      by (simp add: demo_cursor_def)
    have none: "given demo_view topic grp 0 r r"
      using c by (simp add: given_def demo_view_def demo_ids)
    define r' where "r' = snd (demo_read (read_args topic grp) r)"
    show "case rc_XReadGroup demo_client (read_args topic grp) r of
       (Inr streams, r') \<Rightarrow> \<exists>n>0. n \<le> 10 \<and> given demo_view topic grp n r r' \<and> streams =
           [\<lparr>xs_Stream = topic,
             xs_Messages = take n (drop (rv_cursor demo_view r topic grp) (rv_entries demo_view r topic))\<rparr>]
     | (Inl err, r') \<Rightarrow> \<exists>n. given demo_view topic grp n r r'"
    proof (cases "?news = []")
      case True
      then show ?thesis
        using none by (auto simp: demo_client_def demo_read_def read_args_def Let_def)
    next
      case False
      obtain news where news: "?news = news" and len: "take (length news) (drop ?c (demo_entries r topic)) = news"
        and short: "length news \<le> 10" "?c + length news \<le> length (dr_streams r topic)"
      proof (rule that [OF refl])
        show "take (length ?news) (drop ?c (demo_entries r topic)) = ?news"
          by (cases "length (drop ?c (demo_entries r topic)) \<le> 10") simp_all
        show "length ?news \<le> 10" "?c + length ?news \<le> length (dr_streams r topic)"
          using c by (simp_all add: demo_ids)
      qed
      let ?r = "r\<lparr>dr_cursors := (dr_cursors r)(topic := (dr_cursors r topic)(grp := ?c + length news)),
            dr_pending := (dr_pending r)(topic := (dr_pending r topic)(grp := dr_pending r topic grp @ map xm_ID news))\<rparr>"
      have "demo_cursor ?r topic grp = ?c + length news"
        using short(2) by (simp add: demo_cursor_def)
      then have "given demo_view topic grp (length news) r ?r"
        using short(2) by (auto simp: given_def demo_view_def len demo_ids fun_eq_iff intro!: demo_entries_same)
          (simp_all add: demo_cursor_def)
      then show ?thesis
        using False len short(1) unfolding news
        by (auto simp: demo_client_def demo_read_def read_args_def Let_def demo_view_def news intro!: exI [of _ "length news"])
    qed
  qed
  moreover have "acks_entries demo_client demo_view" "creates_groups demo_client demo_view"
    by (auto simp: acks_entries_def creates_groups_def demo_client_def demo_ack_def demo_view_def same_groups_def
        demo_cursor_def fun_eq_iff intro!: demo_entries_same)
  moreover have "proper_streams demo_view"
    by (auto simp: proper_streams_def demo_view_def demo_ids demo_cursor_def)
  ultimately show ?thesis
    by (simp add: redis_documented_def)
qed

lemma demo_redis_reachable: "redis_reachable demo_client demo_view"
  by (auto simp: redis_reachable_def demo_client_def demo_add_def demo_ack_def demo_read_def read_args_def demo_view_def
      Let_def)

section \<open>A run from the creation of the group\<close>

lemma dispatch_runs:
  assumes doc: "redis_documented rc V" and up: "redis_reachable rc V" and topics: "d_JobsTopic d \<noteq> d_ResultsTopic d"
    and ok: "batch_ok V d old [] (wd_queue s)"
  shows "\<exists>s' n. Redis_dispatch rc d predict (replicate k Poll) s = (Running, s') \<and> k \<le> n
    \<and> redis_observe V d [] s' = (dispatch_step d predict ^^ n) (redis_observe V d [] s)
    \<and> batch_ok V d old [] (wd_queue s')"
proof -
  obtain e r where mk: "rc_XGroupCreateMkStream rc (d_JobsTopic d) ''scheduler'' ''0'' (wd_queue s) = (e, r)"
    by fastforce
  then have same: "rv_entries V r = rv_entries V (wd_queue s)" "rv_cursor V r = rv_cursor V (wd_queue s)"
    "rv_pending V r = rv_pending V (wd_queue s)"
    using documentedD(4) [OF doc] by (auto simp: creates_groups_def same_groups_def split: prod.splits)
  let ?s = "s\<lparr>wd_queue := r\<rparr>"
  have "batch_ok V d old [] (wd_queue ?s)"
    using ok by (simp add: batch_ok_def same)
  moreover have "redis_observe V d [] ?s = redis_observe V d [] s"
    by (simp add: redis_observe_def dispatch_view_def redis_waiting_def redis_unread_def redis_dead_def same)
  ultimately show ?thesis
    using poll_runs [OF doc up topics, where s = ?s and predict = predict and k = k and old = old]
    by (simp add: Redis_dispatch_def Redis_Consume_def mk)
qed

lemma batch_ok_start:
  "batch_ok V d (rv_pending V r (d_JobsTopic d) ''scheduler'') [] r \<longleftrightarrow>
     (\<forall>x\<in>set (rv_entries V r (d_JobsTopic d)). \<not> has_reason x) \<and>
     set (rv_pending V r (d_JobsTopic d) ''scheduler'')
       \<subseteq> xm_ID ` set (take (rv_cursor V r (d_JobsTopic d) ''scheduler'') (rv_entries V r (d_JobsTopic d)))"
  by (simp add: batch_ok_def)

lemma batch_ok_pending: "batch_ok V d old [] r \<Longrightarrow> rv_pending V r (d_JobsTopic d) ''scheduler'' = old"
  by (simp add: batch_ok_def)

lemma demo_server_parts:
  "rv_entries demo_view (wd_queue (demo_server bs)) t = (if t = ''jobs''
     then map (\<lambda>i. \<lparr>xm_ID = demo_id i, xm_Values = [(''payload'', bs ! i)]\<rparr>) [0..<length bs] else [])"
  "rv_pending demo_view (wd_queue (demo_server bs)) t g = []"
  "rv_cursor demo_view (wd_queue (demo_server bs)) t g = 0"
  "redis_waiting demo_view g (wd_queue (demo_server bs)) t = (if t = ''jobs'' then bs else [])"
  "redis_dead demo_view (wd_queue (demo_server bs)) ''jobs'' = []"
proof -
  have entries: "demo_entries (wd_queue (demo_server bs)) t = (if t = ''jobs''
     then map (\<lambda>i. \<lparr>xm_ID = demo_id i, xm_Values = [(''payload'', bs ! i)]\<rparr>) [0..<length bs] else [])" for t
    by (simp add: demo_server_def demo_entries_def)
  have cursor: "demo_cursor (wd_queue (demo_server bs)) t g = 0" "dr_pending (wd_queue (demo_server bs)) t g = []" for t g
    by (simp_all add: demo_server_def demo_cursor_def)
  have "filter (\<lambda>x. \<not> has_reason x) (map (\<lambda>i. \<lparr>xm_ID = demo_id i, xm_Values = [(''payload'', bs ! i)]\<rparr>) is)
      = map (\<lambda>i. \<lparr>xm_ID = demo_id i, xm_Values = [(''payload'', bs ! i)]\<rparr>) is" for "is"
    by (intro filter_True) (auto simp: new_entry_parts)
  then show "rv_entries demo_view (wd_queue (demo_server bs)) t = (if t = ''jobs''
     then map (\<lambda>i. \<lparr>xm_ID = demo_id i, xm_Values = [(''payload'', bs ! i)]\<rparr>) [0..<length bs] else [])"
    "rv_pending demo_view (wd_queue (demo_server bs)) t g = []"
    "rv_cursor demo_view (wd_queue (demo_server bs)) t g = 0"
    "redis_waiting demo_view g (wd_queue (demo_server bs)) t = (if t = ''jobs'' then bs else [])"
    "redis_dead demo_view (wd_queue (demo_server bs)) ''jobs'' = []"
    by (simp_all add: demo_view_def entries cursor redis_waiting_def redis_unread_def redis_dead_def o_def new_entry_parts map_nth)
qed

lemma demo_server_plain: "\<forall>x\<in>set (rv_entries demo_view (wd_queue (demo_server bs)) t). \<not> has_reason x"
  by (auto simp: demo_server_parts new_entry_parts)

section \<open>Properties\<close>

text \<open>On Redis no job is handed to the dispatcher twice, however often the scheduler is killed and
  started again and whatever commands fail: the messages handled are entries of the stream, in its
  order, each at most once, and all of them from behind the group's position at the start. So a job that was
  given to the group before, and was not handled because the process died or the answer was lost,
  is never handled: the backend delivers at most once, not at least once.\<close>

lemma redis_delivers_at_most_once:
  assumes "redis_documented rc V"
    and "Redis_restarts rc d predict lives s = (s', handled)"
  shows "\<exists>ys. handled = map entry_message ys \<and> distinct (map xm_ID ys)
    \<and> subseq ys (drop (rv_cursor V (wd_queue s) (d_JobsTopic d) ''scheduler'')
                   (take (rv_cursor V (wd_queue s') (d_JobsTopic d) ''scheduler'')
                      (rv_entries V (wd_queue s') (d_JobsTopic d))))"
proof -
  obtain ys where ys: "handled = map entry_message ys"
    and "handed V (d_JobsTopic d) ''scheduler'' (wd_queue s) (wd_queue s') ys"
    using restarts_handed [OF assms] by blast
  then have sub: "subseq ys (drop (rv_cursor V (wd_queue s) (d_JobsTopic d) ''scheduler'')
                   (take (rv_cursor V (wd_queue s') (d_JobsTopic d) ''scheduler'')
                      (rv_entries V (wd_queue s') (d_JobsTopic d))))"
    by (simp add: handed_def drop_take)
  have "distinct (map xm_ID (rv_entries V (wd_queue s') (d_JobsTopic d)))"
    using documentedD(5) [OF assms(1)] .
  then have "distinct (map xm_ID (drop a (take b (rv_entries V (wd_queue s') (d_JobsTopic d)))))" for a b
    by (metis distinct_drop distinct_take drop_map take_map)
  then have "distinct (map xm_ID ys)"
    using subseq_map [OF sub, of xm_ID] by (metis subseq_conv_nths distinct_nthsI)
  then show ?thesis
    using ys sub by blast
qed

text \<open>While the Redis server is reachable the scheduler is the same abstract machine on it as on the
  in-memory queue: after k polls every observable of the run is that of at least k
  steps, the loop is still running, and everything the group was given is acknowledged.\<close>

lemma redis_dispatcher_refines_machine:
  assumes "redis_documented rc V" and "redis_reachable rc V" and "d_JobsTopic d \<noteq> d_ResultsTopic d"
    and "\<forall>x\<in>set (rv_entries V (wd_queue s) (d_JobsTopic d)). \<not> has_reason x"
    and "set (rv_pending V (wd_queue s) (d_JobsTopic d) ''scheduler'')
      \<subseteq> xm_ID ` set (take (rv_cursor V (wd_queue s) (d_JobsTopic d) ''scheduler'') (rv_entries V (wd_queue s) (d_JobsTopic d)))"
  shows "\<exists>s' n. Redis_dispatch rc d predict (replicate k Poll) s = (Running, s') \<and> k \<le> n
    \<and> redis_observe V d [] s' = (dispatch_step d predict ^^ n) (redis_observe V d [] s)
    \<and> rv_pending V (wd_queue s') (d_JobsTopic d) ''scheduler'' = rv_pending V (wd_queue s) (d_JobsTopic d) ''scheduler''"
  using dispatch_runs [OF assms(1-3) batch_ok_start [THEN iffD2, OF conjI [OF assms(4,5)]], of predict k]
  by (auto dest: batch_ok_pending)

text \<open>C3: on a reachable Redis server every job that waits ends, and exactly once, whatever the router answers: after as
  many polls as the jobs have attempts left no job waits, and the jobs at the start are, up to order, those whose
  result was published and those that were dead-lettered. There is no bound on how many results may wait. The scheduler
  works alone and is not killed; the jobs topic is not the results topic and holds no dead letters.\<close>

theorem redis_every_job_settles:
  assumes "redis_documented rc V" and "redis_reachable rc V" and "d_JobsTopic d \<noteq> d_ResultsTopic d"
    and "\<forall>x\<in>set (rv_entries V (wd_queue s) (d_JobsTopic d)). \<not> has_reason x"
    and "set (rv_pending V (wd_queue s) (d_JobsTopic d) ''scheduler'')
      \<subseteq> xm_ID ` set (take (rv_cursor V (wd_queue s) (d_JobsTopic d) ''scheduler'') (rv_entries V (wd_queue s) (d_JobsTopic d)))"
    and jobs: "redis_waiting V ''scheduler'' (wd_queue s) (d_JobsTopic d) = map marshal_job js" "list_all retryable js"
    and enough: "(\<Sum>j\<leftarrow>js. max 1 (nat (sint (job_MaxAttempts j) - sint (job_Attempt j)))) \<le> k"
  shows "\<exists>s' published buried. Redis_dispatch rc d predict (replicate k Poll) s = (Running, s')
    \<and> redis_waiting V ''scheduler'' (wd_queue s') (d_JobsTopic d) = []
    \<and> redis_waiting V ''scheduler'' (wd_queue s') (d_ResultsTopic d)
        = redis_waiting V ''scheduler'' (wd_queue s) (d_ResultsTopic d)
          @ map (\<lambda>(j, resp). marshal_result (dispatch_result j resp)) published
    \<and> redis_dead V (wd_queue s') (d_JobsTopic d) = redis_dead V (wd_queue s) (d_JobsTopic d) @ map marshal_job buried
    \<and> mset (map job_ID js) = mset (map (\<lambda>(j, resp). job_ID j) published) + mset (map job_ID buried)"
proof -
  obtain s' n where run: "Redis_dispatch rc d predict (replicate k Poll) s = (Running, s')" and "k \<le> n"
    and ob: "redis_observe V d [] s' = (dispatch_step d predict ^^ n) (redis_observe V d [] s)"
    using dispatch_runs [OF assms(1-3) batch_ok_start [THEN iffD2, OF conjI [OF assms(4,5)]], of predict k] by blast
  have "ledger (redis_observe V d [] s) js [] [] js (redis_observe V d [] s)"
    using jobs by (simp add: ledger_def redis_observe_def dispatch_view_def)
  moreover have "(\<Sum>j\<leftarrow>js. budget j) \<le> n"
    using enough \<open>k \<le> n\<close> by (simp add: budget_def)
  ultimately obtain published buried where "ledger (redis_observe V d [] s) js published buried [] (redis_observe V d [] s')"
    unfolding ob using ledger_drains by blast
  then show ?thesis
    using run by (auto simp: ledger_def redis_observe_def dispatch_view_def)
qed

theorem redis_every_job_settles_witness:
  "\<exists>s'. Redis_dispatch demo_client demo_dispatch (\<lambda>n req. Inl ''down'') (replicate 3 Poll)
       (demo_server [marshal_job demo_job]) = (Running, s')
     \<and> redis_waiting demo_view ''scheduler'' (wd_queue s') ''jobs'' = []"
  using redis_every_job_settles [OF demo_documented demo_redis_reachable, of demo_dispatch "demo_server [marshal_job demo_job]"
      "[demo_job]" 3 "\<lambda>n req. Inl ''down''"]
  by (auto simp: demo_server_plain demo_server_parts(2-5))

end
