(* ===== verification/RedisReplicas.thy ===== *)
theory RedisReplicas
  imports RedisRun
begin

text \<open>
  Several schedulers on one Redis server, as the deployment runs them (two replicas), while gateways go on adding
  jobs: each replica's \<open>Consume\<close> (\<open>shared/pkg/queue/redis.go\<close>) is cut at its commands, and the commands
  of the replicas and of the gateways interleave in any way. A replica can be killed between any two of its
  commands and started again.

  The handler of a message makes its call to the router and then at most one command; it is one step here, placed
  at that command, and its event brings the router's answer. All replicas read under one consumer name, which
  does not matter for entries not yet given to the group.
\<close>

section \<open>A replica\<close>

text \<open>
  Where a replica is in \<open>Consume\<close>: not running, at the \<open>select\<close>, before the handler of the first of the entries it
  was given, or before the acknowledgement of an entry with others to follow.
\<close>

datatype replica_phase = Down | AtSelect | InBatch "XMessage list" | Acking string "XMessage list"

record replica =
  rp_phase :: replica_phase
  rp_metrics :: dispatch_metrics
  rp_sleeps :: "int64 list"
  rp_calls :: "InferenceRequest list"

definition new_replica :: "replica_phase \<Rightarrow> replica" where
  "new_replica ph =
     \<lparr>rp_phase = ph, rp_metrics = \<lparr>Processed = 0, Failed = 0, Retried = 0, DeadLettered = 0\<rparr>, rp_sleeps = [], rp_calls = []\<rparr>"

definition replica_world :: "'r \<Rightarrow> replica \<Rightarrow> 'r world" where
  "replica_world r p = \<lparr>wd_queue = r, wd_metrics = rp_metrics p, wd_sleeps = rp_sleeps p, wd_calls = rp_calls p\<rparr>"

definition replica_after :: "replica_phase \<Rightarrow> 'r world \<Rightarrow> replica" where
  "replica_after ph w = \<lparr>rp_phase = ph, rp_metrics = wd_metrics w, rp_sleeps = wd_sleeps w, rp_calls = wd_calls w\<rparr>"

definition next_phase :: "XMessage list \<Rightarrow> replica_phase" where
  "next_phase xs = (if xs = [] then AtSelect else InBatch xs)"

datatype replica_event = StartUp | ReadBatch | HandleNext "string + InferenceResponse" | Acknowledge | Kill

text \<open>
  A step of a replica: the server and the replica after it, and the entry handled in it. What
  is not possible where the replica is has no result.
\<close>

definition replica_step ::
  "'r redis_client \<Rightarrow> dispatch_config \<Rightarrow> replica_event \<Rightarrow> 'r \<Rightarrow> replica \<Rightarrow> ('r \<times> replica \<times> XMessage list) option"
where
  "replica_step rc d e r p =
     (case e of
        StartUp \<Rightarrow>
          if rp_phase p = Down
          then (let (_, r') = rc_XGroupCreateMkStream rc (d_JobsTopic d) ''scheduler'' ''0'' r
                in Some (r', new_replica AtSelect, []))
          else None
      | ReadBatch \<Rightarrow>
          if rp_phase p = AtSelect
          then (let (answer, r') = rc_XReadGroup rc (read_args (d_JobsTopic d) ''scheduler'') r
                in case answer of
                     Inl err \<Rightarrow> Some (r', p, [])
                   | Inr streams \<Rightarrow> Some (r', p\<lparr>rp_phase := next_phase (concat (map xs_Messages streams))\<rparr>, []))
          else None
      | HandleNext answer \<Rightarrow>
          (case rp_phase p of
             InBatch (x # xs) \<Rightarrow>
               (case Dispatcher_on_message (Redis_ops rc) d (\<lambda>n req. answer) (entry_message x) (replica_world r p) of
                  Done (None, w) \<Rightarrow> Some (wd_queue w, replica_after (Acking (xm_ID x) xs) w, [x])
                | Done (Some err, w) \<Rightarrow> Some (wd_queue w, replica_after (next_phase xs) w, [x])
                | Blocked \<Rightarrow> None
                | Panicked \<Rightarrow> None)
           | _ \<Rightarrow> None)
      | Acknowledge \<Rightarrow>
          (case rp_phase p of
             Acking i xs \<Rightarrow>
               (let (_, r') = rc_XAck rc (d_JobsTopic d) ''scheduler'' i r
                in Some (r', p\<lparr>rp_phase := next_phase xs\<rparr>, []))
           | _ \<Rightarrow> None)
      | Kill \<Rightarrow> if rp_phase p = Down then None else Some (r, p\<lparr>rp_phase := Down\<rparr>, []))"

section \<open>The cluster\<close>

text \<open>\<open>cl_handled\<close> records who handled what, in the order of the handler's steps.\<close>

record 'r cluster =
  cl_server :: 'r
  cl_replicas :: "replica list"
  cl_handled :: "(nat \<times> XMessage) list"

datatype cluster_event = Submit body | Replica nat replica_event

definition cluster_step :: "'r redis_client \<Rightarrow> dispatch_config \<Rightarrow> cluster_event \<Rightarrow> 'r cluster \<Rightarrow> 'r cluster option" where
  "cluster_step rc d e s =
     (case e of
        Submit b \<Rightarrow>
          (case Redis_Enqueue rc (d_JobsTopic d) b (cl_server s) of
             Done (_, r') \<Rightarrow> Some (s\<lparr>cl_server := r'\<rparr>) | Blocked \<Rightarrow> None | Panicked \<Rightarrow> None)
      | Replica i re \<Rightarrow>
          if i < length (cl_replicas s)
          then (case replica_step rc d re (cl_server s) (cl_replicas s ! i) of
                  None \<Rightarrow> None
                | Some (r', p', xs) \<Rightarrow>
                    Some \<lparr>cl_server = r', cl_replicas = (cl_replicas s)[i := p'],
                          cl_handled = cl_handled s @ map (Pair i) xs\<rparr>)
          else None)"

fun cluster_steps ::
  "'r redis_client \<Rightarrow> dispatch_config \<Rightarrow> cluster_event list \<Rightarrow> 'r cluster \<Rightarrow> 'r cluster option"
where
  "cluster_steps rc d [] s = Some s"
| "cluster_steps rc d (e # es) s =
     (case cluster_step rc d e s of None \<Rightarrow> None | Some s' \<Rightarrow> cluster_steps rc d es s')"

definition new_cluster :: "nat \<Rightarrow> 'r \<Rightarrow> 'r cluster" where
  "new_cluster n r = \<lparr>cl_server = r, cl_replicas = replicate n (new_replica Down), cl_handled = []\<rparr>"

section \<open>A replica's steps are those of the loop\<close>

text \<open>The handler asks the router once at most, so only that answer matters.\<close>

lemma on_message_answer:
  "\<exists>answer. Dispatcher_on_message ops d predict msg s = Dispatcher_on_message ops d (\<lambda>n req. answer) msg s"
proof (cases "unmarshal_job (msg_Payload msg)")
  case (Some job)
  then show ?thesis
    by (intro exI [of _ "predict (length (wd_calls s)) (dispatch_request (job\<lparr>job_Attempt := job_Attempt job + 1\<rparr>))"])
      (simp add: Dispatcher_on_message_def Dispatcher_handle_def Let_def)
qed (simp add: Dispatcher_on_message_def)

text \<open>The steps of one replica, the only one at work.\<close>

fun replica_steps ::
  "'r redis_client \<Rightarrow> dispatch_config \<Rightarrow> replica_event list \<Rightarrow> 'r \<times> replica \<Rightarrow> ('r \<times> replica) option"
where
  "replica_steps rc d [] s = Some s"
| "replica_steps rc d (e # es) (r, p) =
     (case replica_step rc d e r p of None \<Rightarrow> None | Some (r', p', _) \<Rightarrow> replica_steps rc d es (r', p'))"

lemma replica_steps_append:
  "replica_steps rc d (es @ fs) s =
     (case replica_steps rc d es s of None \<Rightarrow> None | Some s' \<Rightarrow> replica_steps rc d fs s')"
  by (induction rc d es s rule: replica_steps.induct) (auto split: option.splits prod.splits)

lemma world_of_after [simp]:
  "replica_world (wd_queue w) (replica_after ph w) = w" "rp_phase (replica_after ph w) = ph"
  "replica_after ph (w\<lparr>wd_queue := r\<rparr>) = replica_after ph w"
  "(replica_after ph w)\<lparr>rp_phase := ph'\<rparr> = replica_after ph' w"
  by (simp_all add: replica_world_def replica_after_def)

lemma entries_are_steps:
  assumes "Redis_entries rc wd_queue (\<lambda>q s. s\<lparr>wd_queue := q\<rparr>) (d_JobsTopic d) ''scheduler''
    (Dispatcher_on_message (Redis_ops rc) d predict) xs w = (True, w')"
  shows "\<exists>es. replica_steps rc d es (wd_queue w, replica_after (next_phase xs) w)
    = Some (wd_queue w', replica_after AtSelect w')"
  using assms
proof (induction xs arbitrary: w)
  case Nil
  then show ?case
    by (intro exI [of _ "[]"]) (simp add: next_phase_def)
next
  case (Cons x xs)
  obtain answer where answer: "Dispatcher_on_message (Redis_ops rc) d predict (entry_message x) w
      = Dispatcher_on_message (Redis_ops rc) d (\<lambda>n req. answer) (entry_message x) w"
    using on_message_answer by blast
  obtain e w1 where h: "Dispatcher_on_message (Redis_ops rc) d predict (entry_message x) w = Done (e, w1)"
    using Cons.prems by (auto split: run.splits)
  show ?case
  proof (cases e)
    case None
    obtain e' r where ack: "rc_XAck rc (d_JobsTopic d) ''scheduler'' (xm_ID x) (wd_queue w1) = (e', r)"
      by fastforce
    let ?w = "w1\<lparr>wd_queue := r\<rparr>"
    obtain es where "replica_steps rc d es (wd_queue ?w, replica_after (next_phase xs) ?w)
        = Some (wd_queue w', replica_after AtSelect w')"
      using Cons.IH [of ?w] Cons.prems by (auto simp: h None ack)
    then show ?thesis
      using h by (intro exI [of _ "HandleNext answer # Acknowledge # es"])
        (simp add: replica_step_def next_phase_def [of "x # xs"] answer None ack)
  next
    case (Some err)
    obtain es where "replica_steps rc d es (wd_queue w1, replica_after (next_phase xs) w1)
        = Some (wd_queue w', replica_after AtSelect w')"
      using Cons.IH [of w1] Cons.prems by (auto simp: h Some)
    then show ?thesis
      using h by (intro exI [of _ "HandleNext answer # es"])
        (simp add: replica_step_def next_phase_def [of "x # xs"] answer Some)
  qed
qed

text \<open>Any run of \<open>Consume\<close> is a run of the replica from its start.\<close>

lemma loop_is_steps:
  assumes "Redis_loop rc wd_queue (\<lambda>q s. s\<lparr>wd_queue := q\<rparr>) (d_JobsTopic d) ''scheduler''
    (Dispatcher_on_message (Redis_ops rc) d predict) (replicate k Poll) w = (Running, w')"
  shows "\<exists>es. replica_steps rc d es (wd_queue w, replica_after AtSelect w) = Some (wd_queue w', replica_after AtSelect w')"
  using assms
proof (induction k arbitrary: w)
  case 0
  then show ?case
    by (intro exI [of _ "[]"]) simp
next
  case (Suc k)
  obtain a r where read: "rc_XReadGroup rc (read_args (d_JobsTopic d) ''scheduler'') (wd_queue w) = (a, r)"
    by fastforce
  show ?case
  proof (cases a)
    case (Inl err)
    then obtain es where "replica_steps rc d es (r, replica_after AtSelect (w\<lparr>wd_queue := r\<rparr>))
        = Some (wd_queue w', replica_after AtSelect w')"
      using Suc.IH [of "w\<lparr>wd_queue := r\<rparr>"] Suc.prems read by auto
    then show ?thesis
      using Inl read by (intro exI [of _ "ReadBatch # es"]) (simp add: replica_step_def)
  next
    case (Inr streams)
    let ?xs = "concat (map xs_Messages streams)"
    obtain fin w1 where e: "Redis_entries rc wd_queue (\<lambda>q s. s\<lparr>wd_queue := q\<rparr>) (d_JobsTopic d) ''scheduler''
        (Dispatcher_on_message (Redis_ops rc) d predict) ?xs (w\<lparr>wd_queue := r\<rparr>) = (fin, w1)"
      by fastforce
    then have fin and rest: "Redis_loop rc wd_queue (\<lambda>q s. s\<lparr>wd_queue := q\<rparr>) (d_JobsTopic d) ''scheduler''
        (Dispatcher_on_message (Redis_ops rc) d predict) (replicate k Poll) w1 = (Running, w')"
      using Suc.prems Inr read by (cases fin; simp add: Redis_streams_def)+
    obtain es1 where es1: "replica_steps rc d es1 (r, replica_after (next_phase ?xs) w) = Some (wd_queue w1, replica_after AtSelect w1)"
      using entries_are_steps [of rc d predict ?xs "w\<lparr>wd_queue := r\<rparr>" w1] e \<open>fin\<close> by auto
    obtain es2 where "replica_steps rc d es2 (wd_queue w1, replica_after AtSelect w1) = Some (wd_queue w', replica_after AtSelect w')"
      using Suc.IH [OF rest] by blast
    then show ?thesis
      using Inr read es1 by (intro exI [of _ "ReadBatch # es1 @ es2"]) (simp add: replica_step_def replica_steps_append)
  qed
qed

section \<open>Every entry has one owner\<close>

fun phase_held :: "replica_phase \<Rightarrow> XMessage list" where
  "phase_held (InBatch xs) = xs"
| "phase_held (Acking i xs) = xs"
| "phase_held _ = []"

definition held :: "replica \<Rightarrow> XMessage list" where
  "held p = phase_held (rp_phase p)"

definition handled_by :: "nat \<Rightarrow> (nat \<times> XMessage) list \<Rightarrow> XMessage list" where
  "handled_by i hs = map snd (filter (\<lambda>h. fst h = i) hs)"

text \<open>The entries the group has been given since the server was in state \<open>r\<close>.\<close>

definition given_since :: "'r redis_view \<Rightarrow> dispatch_config \<Rightarrow> 'r \<Rightarrow> 'r \<Rightarrow> XMessage list" where
  "given_since V d r r' =
     drop (rv_cursor V r (d_JobsTopic d) ''scheduler'')
       (take (rv_cursor V r' (d_JobsTopic d) ''scheduler'') (rv_entries V r' (d_JobsTopic d)))"

definition unacked :: "'r redis_view \<Rightarrow> dispatch_config \<Rightarrow> 'r \<Rightarrow> string set" where
  "unacked V d r = set (rv_pending V r (d_JobsTopic d) ''scheduler'')"

text \<open>
  Entries are given once, to one replica, which handles them in the order of the stream; those given are
  handled or pending, and only what was handled is acknowledged.
\<close>

definition owned :: "'r redis_view \<Rightarrow> dispatch_config \<Rightarrow> 'r \<Rightarrow> 'r cluster \<Rightarrow> bool" where
  "owned V d r0 s \<longleftrightarrow>
     rv_cursor V r0 (d_JobsTopic d) ''scheduler'' \<le> rv_cursor V (cl_server s) (d_JobsTopic d) ''scheduler'' \<and>
     mset (map snd (cl_handled s)) + (\<Sum>p\<leftarrow>cl_replicas s. mset (held p)) \<subseteq># mset (given_since V d r0 (cl_server s)) \<and>
     (\<forall>i < length (cl_replicas s).
        subseq (handled_by i (cl_handled s) @ held (cl_replicas s ! i)) (given_since V d r0 (cl_server s))) \<and>
     (\<forall>x \<in> set (given_since V d r0 (cl_server s)).
        x \<in> snd ` set (cl_handled s) \<or> xm_ID x \<in> unacked V d (cl_server s)) \<and>
     (\<forall>i < length (cl_replicas s). \<forall>j xs. rp_phase (cl_replicas s ! i) = Acking j xs \<longrightarrow>
        j \<in> xm_ID ` snd ` set (cl_handled s)) \<and>
     fst ` set (cl_handled s) \<subseteq> {..<length (cl_replicas s)}"

lemma ownedD:
  assumes "owned V d r0 s"
  shows "rv_cursor V r0 (d_JobsTopic d) ''scheduler'' \<le> rv_cursor V (cl_server s) (d_JobsTopic d) ''scheduler''"
    and "mset (map snd (cl_handled s)) + (\<Sum>p\<leftarrow>cl_replicas s. mset (held p)) \<subseteq># mset (given_since V d r0 (cl_server s))"
    and "i < length (cl_replicas s) \<Longrightarrow>
      subseq (handled_by i (cl_handled s) @ held (cl_replicas s ! i)) (given_since V d r0 (cl_server s))"
    and "x \<in> set (given_since V d r0 (cl_server s)) \<Longrightarrow>
      x \<in> snd ` set (cl_handled s) \<or> xm_ID x \<in> unacked V d (cl_server s)"
    and "i < length (cl_replicas s) \<Longrightarrow> rp_phase (cl_replicas s ! i) = Acking j xs \<Longrightarrow>
      j \<in> xm_ID ` snd ` set (cl_handled s)"
    and "fst ` set (cl_handled s) \<subseteq> {..<length (cl_replicas s)}"
  using assms unfolding owned_def by blast+

lemma owned_handled:
  assumes "owned V d r0 s"
  shows "mset (map snd (cl_handled s)) \<subseteq># mset (given_since V d r0 (cl_server s))"
    and "snd ` set (cl_handled s) \<subseteq> set (given_since V d r0 (cl_server s))"
proof -
  show sub: "mset (map snd (cl_handled s)) \<subseteq># mset (given_since V d r0 (cl_server s))"
    using ownedD(2) [OF assms] by (rule subset_mset.order_trans [OF mset_subset_eq_add_left])
  show "snd ` set (cl_handled s) \<subseteq> set (given_since V d r0 (cl_server s))"
    using set_mset_mono [OF sub] by simp
qed

lemma held_simps [simp]:
  "held (p\<lparr>rp_phase := ph\<rparr>) = phase_held ph" "held (replica_after ph w) = phase_held ph"
  "held (new_replica ph) = phase_held ph" "phase_held (next_phase xs) = xs"
  by (simp_all add: held_def new_replica_def next_phase_def)

lemma next_phase_neq [simp]: "next_phase xs \<noteq> Acking i ys" "next_phase xs \<noteq> Down"
  by (simp_all add: next_phase_def)

text \<open>What a step does to the server: the stream grows, a read gives entries, or an acknowledgement is made.\<close>

datatype server_effect = Grew | Gave "XMessage list" | Acked string

definition effect_on :: "'r redis_view \<Rightarrow> dispatch_config \<Rightarrow> server_effect \<Rightarrow> 'r \<Rightarrow> 'r \<Rightarrow> bool" where
  "effect_on V d eff r r' \<longleftrightarrow>
     (case eff of
        Grew \<Rightarrow> grows V (d_JobsTopic d) ''scheduler'' r r' \<and> unacked V d r \<subseteq> unacked V d r'
      | Gave xs \<Rightarrow> \<exists>n. given V (d_JobsTopic d) ''scheduler'' n r r'
            \<and> xs = take n (drop (rv_cursor V r (d_JobsTopic d) ''scheduler'') (rv_entries V r (d_JobsTopic d)))
      | Acked i \<Rightarrow> rv_entries V r' = rv_entries V r \<and> rv_cursor V r' = rv_cursor V r
            \<and> unacked V d r - {i} \<subseteq> unacked V d r')"

lemma take_prefix: "prefix xs ys \<Longrightarrow> n \<le> length xs \<Longrightarrow> take n ys = take n xs"
  by (auto simp: prefix_def)

lemma effect_given:
  assumes doc: "redis_documented rc V" and eff: "effect_on V d eff r r'"
    and c: "rv_cursor V r0 (d_JobsTopic d) ''scheduler'' \<le> rv_cursor V r (d_JobsTopic d) ''scheduler''"
  shows "given_since V d r0 r' = given_since V d r0 r @ (case eff of Gave xs \<Rightarrow> xs | _ \<Rightarrow> [])"
    and "rv_cursor V r (d_JobsTopic d) ''scheduler'' \<le> rv_cursor V r' (d_JobsTopic d) ''scheduler''"
  using eff c documentedD(6) [OF doc, of r "d_JobsTopic d" "''scheduler''"]
  by (auto simp: effect_on_def given_since_def grows_def given_def take_prefix take_add split: server_effect.splits)

lemma effect_unacked:
  assumes "effect_on V d eff r r'"
  shows "unacked V d r - (case eff of Acked i \<Rightarrow> {i} | _ \<Rightarrow> {}) \<union> xm_ID ` set (case eff of Gave xs \<Rightarrow> xs | _ \<Rightarrow> [])
    \<subseteq> unacked V d r'"
  using assms by (auto simp: effect_on_def unacked_def given_def split: server_effect.splits)

text \<open>What a step of a replica means for the entries.\<close>

definition entries_gained :: "server_effect \<Rightarrow> XMessage list" where
  "entries_gained eff = (case eff of Gave xs \<Rightarrow> xs | _ \<Rightarrow> [])"

definition passes_on :: "server_effect \<Rightarrow> replica \<Rightarrow> replica \<Rightarrow> XMessage list \<Rightarrow> bool" where
  "passes_on eff p p' hs \<longleftrightarrow>
     (hs @ held p' = held p @ entries_gained eff \<or> hs = [] \<and> held p' = []) \<and>
     (\<forall>i. eff = Acked i \<longrightarrow> (\<exists>xs. rp_phase p = Acking i xs)) \<and>
     (\<forall>i xs. rp_phase p' = Acking i xs \<longrightarrow> i \<in> xm_ID ` set hs)"

lemma xadd_effect:
  assumes "redis_documented rc V" and "Redis_Enqueue rc t b r = Done (e, r')"
  shows "effect_on V d Grew r r'"
proof -
  have x: "rc_XAdd rc \<lparr>xa_Stream = t, xa_Values = [(''payload'', b)]\<rparr> r = (e, r')"
    using assms(2) by (simp add: Redis_Enqueue_def)
  show ?thesis
    using redis_added [OF assms(1) x] redis_ops_grow(1) [OF assms(1), of t b r e r'] assms(2)
    by (simp add: effect_on_def unacked_def same_groups_def Redis_ops_def)
qed

lemma message_effect:
  assumes doc: "redis_documented rc V"
    and run: "Dispatcher_on_message (Redis_ops rc) d predict msg w = Done (e, w')"
  shows "effect_on V d Grew (wd_queue w) (wd_queue w')"
proof -
  have "same_groups V (wd_queue w) (wd_queue w')"
    using on_message_queue [OF run] redis_added(1) [OF doc]
    by (auto simp: Redis_ops_def Redis_Enqueue_def Redis_DeadLetter_def same_groups_def)
  then show ?thesis
    using dispatch_grows [OF doc run] by (simp add: effect_on_def unacked_def same_groups_def)
qed

lemma read_effect:
  assumes doc: "redis_documented rc V"
    and read: "rc_XReadGroup rc (read_args (d_JobsTopic d) ''scheduler'') r = (answer, r')"
  shows "\<exists>xs. effect_on V d (Gave xs) r r' \<and>
    (case answer of Inl err \<Rightarrow> True | Inr streams \<Rightarrow> concat (map xs_Messages streams) = xs)"
  using documentedD(2) [OF doc, unfolded reads_next_def, rule_format, of "d_JobsTopic d" "''scheduler''" r] read
  by (fastforce simp: effect_on_def split: sum.splits)

lemma ack_effect:
  assumes doc: "redis_documented rc V" and ack: "rc_XAck rc (d_JobsTopic d) ''scheduler'' i r = (e, r')"
  shows "effect_on V d (Acked i) r r'"
  using documentedD(3) [OF doc, unfolded acks_entries_def, rule_format, where topic = "d_JobsTopic d" and grp = "''scheduler''"
      and i = i and r = r] ack
  by (auto simp: effect_on_def unacked_def)

lemma create_effect:
  assumes doc: "redis_documented rc V" and mk: "rc_XGroupCreateMkStream rc (d_JobsTopic d) ''scheduler'' ''0'' r = (e, r')"
  shows "effect_on V d Grew r r'"
  using documentedD(4) [OF doc, unfolded creates_groups_def, rule_format, where topic = "d_JobsTopic d"
      and grp = "''scheduler''" and r = r] mk
  by (auto simp: effect_on_def unacked_def same_groups_def grows_def)

lemma replica_step_effect:
  assumes doc: "redis_documented rc V" and step: "replica_step rc d e r p = Some (r', p', hs)"
  shows "\<exists>eff. effect_on V d eff r r' \<and> passes_on eff p p' hs"
proof (cases e)
  case StartUp
  then show ?thesis
    using step create_effect [OF doc, of d r]
    by (intro exI [of _ Grew]) (auto simp: replica_step_def passes_on_def held_def new_replica_def split: if_splits prod.splits)
next
  case ReadBatch
  obtain answer r1 where read: "rc_XReadGroup rc (read_args (d_JobsTopic d) ''scheduler'') r = (answer, r1)"
    by fastforce
  obtain xs where "effect_on V d (Gave xs) r r1"
    and "case answer of Inl err \<Rightarrow> True | Inr streams \<Rightarrow> concat (map xs_Messages streams) = xs"
    using read_effect [OF doc read] by blast
  then show ?thesis
    using step ReadBatch read
    by (intro exI [of _ "Gave xs"])
      (auto simp: replica_step_def passes_on_def held_def entries_gained_def split: if_splits sum.splits)
next
  case (HandleNext answer)
  then obtain x xs where ph: "rp_phase p = InBatch (x # xs)"
    using step by (auto simp: replica_step_def split: replica_phase.splits list.splits)
  obtain err w where h: "Dispatcher_on_message (Redis_ops rc) d (\<lambda>n req. answer) (entry_message x) (replica_world r p) = Done (err, w)"
    using step HandleNext ph by (auto simp: replica_step_def split: run.splits)
  show ?thesis
    using step HandleNext ph h message_effect [OF doc h]
    by (intro exI [of _ Grew])
      (auto simp: replica_step_def passes_on_def held_def entries_gained_def replica_world_def split: option.splits)
next
  case Acknowledge
  then obtain i xs where ph: "rp_phase p = Acking i xs"
    using step by (auto simp: replica_step_def split: replica_phase.splits)
  then show ?thesis
    using step Acknowledge ack_effect [OF doc, of d i r]
    by (intro exI [of _ "Acked i"]) (auto simp: replica_step_def passes_on_def held_def entries_gained_def split: prod.splits)
next
  case Kill
  then show ?thesis
    using step by (intro exI [of _ Grew]) (auto simp: replica_step_def passes_on_def held_def effect_on_def split: if_splits)
qed

text \<open>Ownership is kept.\<close>

lemma handled_by_more [simp]:
  "handled_by j [] = []" "handled_by j (hs @ map (Pair i) xs) = handled_by j hs @ (if j = i then xs else [])"
proof -
  have "filter (\<lambda>h. fst h = j) (map (Pair i) xs) = (if j = i then map (Pair i) xs else [])"
    by (induction xs) auto
  then show "handled_by j (hs @ map (Pair i) xs) = handled_by j hs @ (if j = i then xs else [])"
    by (simp add: handled_by_def comp_def)
qed (simp add: handled_by_def)

lemma owned_moves:
  assumes "i < length ps" and "ps ! i = p" and "passes_on eff p p' hs"
  shows "mset hs + (\<Sum>p\<leftarrow>ps[i := p']. mset (held p)) \<subseteq># (\<Sum>p\<leftarrow>ps. mset (held p)) + mset (entries_gained eff)"
proof -
  let ?S = "\<Sum>p\<leftarrow>ps. mset (held p)" and ?S' = "\<Sum>p\<leftarrow>ps[i := p']. mset (held p)"
  have sum: "?S' + mset (held p) = ?S + mset (held p')"
    using sum_list_map_update [OF assms(1), of "\<lambda>p. mset (held p)" p'] assms(2) by simp
  consider "hs @ held p' = held p @ entries_gained eff" | "hs = []" "held p' = []"
    using assms(3) by (auto simp: passes_on_def)
  then show ?thesis
  proof cases
    case 1
    then have "mset hs + mset (held p') = mset (held p) + mset (entries_gained eff)"
      by (metis mset_append)
    then have "mset hs + ?S' + mset (held p) = ?S + mset (entries_gained eff) + mset (held p)"
      using sum by (simp add: ac_simps)
    then show ?thesis
      by simp
  next
    case 2
    then have "?S = ?S' + mset (held p)"
      using sum by simp
    then have "?S + mset (entries_gained eff) = ?S' + (mset (held p) + mset (entries_gained eff))"
      by (simp only: add.assoc)
    then show ?thesis
      using 2 by (simp only: mset.simps(1) add_0) (rule mset_subset_eq_add_left)
  qed
qed

lemma owned_step:
  assumes doc: "redis_documented rc V" and own: "owned V d r0 s" and i: "i < length (cl_replicas s)"
    and eff: "effect_on V d eff (cl_server s) r'" and pass: "passes_on eff (cl_replicas s ! i) p' hs"
  shows "owned V d r0 \<lparr>cl_server = r', cl_replicas = (cl_replicas s)[i := p'], cl_handled = cl_handled s @ map (Pair i) hs\<rparr>"
    (is "owned V d r0 ?s'")
proof -
  let ?p = "cl_replicas s ! i" and ?G = "given_since V d r0 (cl_server s)" and ?xs = "entries_gained eff"
  have G: "given_since V d r0 r' = ?G @ ?xs"
    and c: "rv_cursor V r0 (d_JobsTopic d) ''scheduler'' \<le> rv_cursor V r' (d_JobsTopic d) ''scheduler''"
    using effect_given [OF doc eff, of r0] own by (auto simp: owned_def entries_gained_def)
  have snds: "map snd (cl_handled ?s') = map snd (cl_handled s) @ hs"
    by (simp add: comp_def)
  have "mset (map snd (cl_handled s)) + (\<Sum>p\<leftarrow>cl_replicas s. mset (held p)) + mset ?xs \<subseteq># mset ?G + mset ?xs"
    using own by (simp add: owned_def)
  moreover have "mset (map snd (cl_handled s)) + (mset hs + (\<Sum>p\<leftarrow>(cl_replicas s)[i := p']. mset (held p)))
      \<subseteq># mset (map snd (cl_handled s)) + ((\<Sum>p\<leftarrow>cl_replicas s. mset (held p)) + mset ?xs)"
    using owned_moves [OF i refl pass] by simp
  ultimately have all: "mset (map snd (cl_handled s) @ hs) + (\<Sum>p\<leftarrow>(cl_replicas s)[i := p']. mset (held p)) \<subseteq># mset (?G @ ?xs)"
    by (simp only: mset_append add.assoc)
  have by_more: "handled_by j (cl_handled ?s') = handled_by j (cl_handled s) @ (if j = i then hs else [])" for j
    by simp
  have order: "subseq (handled_by j (cl_handled ?s') @ held (cl_replicas ?s' ! j)) (?G @ ?xs)" if "j < length (cl_replicas s)" for j
  proof -
    have old: "subseq (handled_by j (cl_handled s) @ held (cl_replicas s ! j)) ?G"
      using own that by (simp add: owned_def)
    show ?thesis
    proof (cases "j = i \<and> hs @ held p' = held ?p @ ?xs")
      case True
      then have "handled_by j (cl_handled ?s') @ held (cl_replicas ?s' ! j) = (handled_by j (cl_handled s) @ held (cl_replicas s ! j)) @ ?xs"
        using i by (simp add: by_more)
      then show ?thesis
        using old by (simp only:) (rule list_emb_append_mono, auto)
    next
      case False
      then have "subseq (handled_by j (cl_handled ?s') @ held (cl_replicas ?s' ! j)) (handled_by j (cl_handled s) @ held (cl_replicas s ! j))"
        using pass i that by (cases "j = i") (auto simp: by_more passes_on_def)
      then show ?thesis
        using old by (metis prefixI prefix_imp_subseq subseq_order.order_trans)
    qed
  qed
  have ids: "distinct (map xm_ID ?G)"
  proof -
    have "distinct (drop a (take b (map xm_ID (rv_entries V (cl_server s) (d_JobsTopic d)))))" for a b
      using documentedD(5) [OF doc] by (intro distinct_drop distinct_take)
    then show ?thesis
      by (simp add: given_since_def drop_map take_map)
  qed
  have hs: "snd ` set (cl_handled ?s') = snd ` set (cl_handled s) \<union> set hs"
    by (simp add: image_Un image_image)
  note sub = owned_handled(2) [OF own]
  have kept: "x \<in> snd ` set (cl_handled ?s') \<or> xm_ID x \<in> unacked V d r'" if "x \<in> set (?G @ ?xs)" for x
  proof (cases "x \<in> set ?xs")
    case True
    then show ?thesis
      using effect_unacked [OF eff] by (auto simp: entries_gained_def split: server_effect.splits)
  next
    case False
    then have x: "x \<in> set ?G" and "x \<in> snd ` set (cl_handled s) \<or> xm_ID x \<in> unacked V d (cl_server s)"
      using that own by (auto simp: owned_def)
    moreover have "xm_ID x \<in> unacked V d r'"
      if "x \<notin> snd ` set (cl_handled s)" "xm_ID x \<in> unacked V d (cl_server s)"
    proof -
      have "eff \<noteq> Acked (xm_ID x)"
      proof
        assume "eff = Acked (xm_ID x)"
        then have "\<exists>xs. rp_phase ?p = Acking (xm_ID x) xs"
          using pass by (simp add: passes_on_def)
        then have "xm_ID x \<in> xm_ID ` snd ` set (cl_handled s)"
          using ownedD(5) [OF own i] by blast
        then obtain y where "y \<in> snd ` set (cl_handled s)" "xm_ID y = xm_ID x"
          by (metis image_iff)
        then show False
          using that(1) x sub ids by (metis (no_types, lifting) distinct_map inj_onD subsetD)
      qed
      then show ?thesis
        using effect_unacked [OF eff] that(2) by (auto split: server_effect.splits)
    qed
    ultimately show ?thesis
      by (auto simp: image_Un)
  qed
  have acks: "k \<in> xm_ID ` snd ` set (cl_handled ?s')"
    if "j < length (cl_replicas s)" "rp_phase (cl_replicas ?s' ! j) = Acking k ys" for j k ys
  proof (cases "j = i")
    case True
    then show ?thesis
      using pass that i hs by (auto simp: passes_on_def)
  next
    case False
    then have "k \<in> xm_ID ` snd ` set (cl_handled s)"
      using own that by (simp add: owned_def)
    then show ?thesis
      by (auto simp: hs)
  qed
  have mine: "fst ` set (cl_handled ?s') \<subseteq> {..<length (cl_replicas s)}"
    using ownedD(6) [OF own] i by auto
  show ?thesis
    unfolding owned_def
  proof (intro conjI allI impI ballI)
    show "mset (map snd (cl_handled ?s')) + (\<Sum>p\<leftarrow>cl_replicas ?s'. mset (held p)) \<subseteq># mset (given_since V d r0 (cl_server ?s'))"
      using all snds by (simp only: cluster.simps G)
  next
    fix j assume "j < length (cl_replicas ?s')"
    then show "subseq (handled_by j (cl_handled ?s') @ held (cl_replicas ?s' ! j)) (given_since V d r0 (cl_server ?s'))"
      using order [of j] by (simp only: cluster.simps G length_list_update)
  next
    fix x assume "x \<in> set (given_since V d r0 (cl_server ?s'))"
    then show "x \<in> snd ` set (cl_handled ?s') \<or> xm_ID x \<in> unacked V d (cl_server ?s')"
      using kept [of x] by (simp only: cluster.simps G)
  next
    fix j k ys assume "j < length (cl_replicas ?s')" "rp_phase (cl_replicas ?s' ! j) = Acking k ys"
    then show "k \<in> xm_ID ` snd ` set (cl_handled ?s')"
      using acks [of j k ys] by (simp only: cluster.simps length_list_update)
  qed (use c mine in \<open>simp_all only: cluster.simps length_list_update\<close>)
qed

lemma owned_submit:
  assumes doc: "redis_documented rc V" and own: "owned V d r0 s" and eff: "effect_on V d Grew (cl_server s) r'"
  shows "owned V d r0 (s\<lparr>cl_server := r'\<rparr>)"
  using own effect_given [OF doc eff, of r0] effect_unacked [OF eff] by (auto simp: owned_def)

lemma owned_steps:
  assumes doc: "redis_documented rc V"
  shows "cluster_steps rc d es s = Some s' \<Longrightarrow> owned V d r0 s \<Longrightarrow>
    owned V d r0 s' \<and> length (cl_replicas s') = length (cl_replicas s)"
proof (induction es arbitrary: s)
  case (Cons e es)
  obtain s1 where s1: "cluster_step rc d e s = Some s1" "cluster_steps rc d es s1 = Some s'"
    using Cons.prems(1) by (auto split: option.splits)
  have "owned V d r0 s1 \<and> length (cl_replicas s1) = length (cl_replicas s)"
  proof (cases e)
    case (Submit b)
    then show ?thesis
      using s1(1) owned_submit [OF doc Cons.prems(2) xadd_effect [OF doc]]
      by (auto simp: cluster_step_def split: run.splits prod.splits)
  next
    case (Replica i re)
    then obtain r' p' hs where i: "i < length (cl_replicas s)"
      and step: "replica_step rc d re (cl_server s) (cl_replicas s ! i) = Some (r', p', hs)"
      and "s1 = \<lparr>cl_server = r', cl_replicas = (cl_replicas s)[i := p'], cl_handled = cl_handled s @ map (Pair i) hs\<rparr>"
      using s1(1) by (auto simp: cluster_step_def split: if_splits option.splits prod.splits)
    then show ?thesis
      using replica_step_effect [OF doc step] owned_step [OF doc Cons.prems(2) i] by auto
  qed
  then show ?case
    using Cons.IH [OF s1(2)] by auto
qed simp

lemma owned_start: "owned V d r (new_cluster n r)"
proof -
  have "sum_list (replicate n {#}) = ({#} :: XMessage multiset)"
    by (induction n) simp_all
  then show ?thesis
    by (auto simp: owned_def new_cluster_def given_since_def new_replica_def held_def)
qed

lemma subset_distinct:
  assumes "mset xs \<subseteq># mset ys" and "distinct (map f ys)"
  shows "distinct (map f xs)"
proof -
  have "mset (map f xs) \<subseteq># mset (map f ys)"
    using assms(1) by (simp add: image_mset_subseteq_mono)
  then have "count (mset (map f xs)) a \<le> count (mset (map f ys)) a" for a
    by (rule mset_subset_eq_count)
  moreover have "count (mset (map f ys)) a \<le> 1" for a
    using assms(2) by (simp only: distinct_count_atmost_1) simp
  ultimately have "count (mset (map f xs)) a \<le> 1" for a
    by (meson le_trans)
  then show ?thesis
    by (simp only: distinct_count_atmost_1) (metis count_greater_zero_iff count_mset_0_iff le_antisym less_one not_less set_mset_mset)
qed

section \<open>Every job comes to its end\<close>

text \<open>The cluster as the machine sees it: what the replicas hold and what the stream has for them wait.\<close>

definition held_payloads :: "replica list \<Rightarrow> body list" where
  "held_payloads ps = concat (map (\<lambda>p. map entry_payload (held p)) ps)"

definition cluster_view :: "'r redis_view \<Rightarrow> dispatch_config \<Rightarrow> replica list \<Rightarrow> 'r world \<Rightarrow> dispatch_obs" where
  "cluster_view V d ps w = dispatch_view (redis_waiting V ''scheduler'') (redis_dead V) d (held_payloads ps) w"

definition cluster_obs :: "'r redis_view \<Rightarrow> dispatch_config \<Rightarrow> 'r cluster \<Rightarrow> dispatch_obs" where
  "cluster_obs V d s = cluster_view V d (cl_replicas s) (replica_world (cl_server s) (new_replica Down))"

definition cluster_waiting :: "'r redis_view \<Rightarrow> dispatch_config \<Rightarrow> 'r cluster \<Rightarrow> body list" where
  "cluster_waiting V d s = ob_jobs (cluster_obs V d s)"

text \<open>The work left: four steps at most for each attempt a waiting job has left, less for what is on its way.\<close>

definition body_budget :: "body \<Rightarrow> nat" where
  "body_budget b = (case unmarshal_job b of Some j \<Rightarrow> budget j | None \<Rightarrow> 1)"

definition phase_work :: "replica_phase \<Rightarrow> nat" where
  "phase_work ph = (case ph of Down \<Rightarrow> 1 | Acking i xs \<Rightarrow> 1 | _ \<Rightarrow> 0)
     + (\<Sum>x\<leftarrow>phase_held ph. 4 * body_budget (entry_payload x) - 1)"

definition cluster_work :: "'r redis_view \<Rightarrow> dispatch_config \<Rightarrow> 'r cluster \<Rightarrow> nat" where
  "cluster_work V d s =
     (\<Sum>p\<leftarrow>cl_replicas s. phase_work (rp_phase p))
     + 4 * (\<Sum>b\<leftarrow>redis_waiting V ''scheduler'' (cl_server s) (d_JobsTopic d). body_budget b)"

text \<open>No entry of the jobs stream carries a reason, as only dead letters do.\<close>

definition plain_jobs :: "'r redis_view \<Rightarrow> dispatch_config \<Rightarrow> 'r \<Rightarrow> bool" where
  "plain_jobs V d r \<longleftrightarrow> (\<forall>x \<in> set (rv_entries V r (d_JobsTopic d)). \<not> has_reason x)"

lemma body_budget_job: "retryable j \<Longrightarrow> body_budget (marshal_job j) = budget j"
  by (simp add: body_budget_def unmarshal_marshal_job retryable_def)

lemma body_budget_pos: "0 < body_budget b"
  by (simp add: body_budget_def budget_def less_max_iff_disj split: option.splits)

lemma plain_waiting:
  assumes "plain_jobs V d r"
  shows "redis_waiting V grp r (d_JobsTopic d) = map entry_payload (redis_unread V grp r (d_JobsTopic d))"
proof -
  have "filter (\<lambda>x. \<not> has_reason x) (redis_unread V grp r (d_JobsTopic d)) = redis_unread V grp r (d_JobsTopic d)"
    using assms by (intro filter_True) (auto simp: plain_jobs_def redis_unread_def dest: in_set_dropD)
  then show ?thesis
    by (simp add: redis_waiting_def)
qed

lemma same_contents:
  assumes "rv_entries V r' = rv_entries V r" and "rv_cursor V r' = rv_cursor V r"
  shows "redis_waiting V grp r' = redis_waiting V grp r" and "redis_dead V r' = redis_dead V r"
    and "plain_jobs V d r' = plain_jobs V d r"
  using assms by (simp_all add: fun_eq_iff redis_waiting_def redis_unread_def redis_dead_def plain_jobs_def)

lemma added_plain:
  assumes doc: "redis_documented rc V" and "rc_XAdd rc a r = (e, r')" and "plain_jobs V d r"
    and "xa_Stream a = d_JobsTopic d \<Longrightarrow> map_of (xa_Values a) ''reason'' = None"
  shows "plain_jobs V d r'"
  using redis_added(2) [OF doc assms(2)] assms(3,4)
  by (auto simp: plain_jobs_def appended_def has_reason_def split: if_splits)

lemma message_plain:
  assumes doc: "redis_documented rc V" and run: "Dispatcher_on_message (Redis_ops rc) d predict msg w = Done (e, w')"
    and plain: "plain_jobs V d (wd_queue w)"
  shows "plain_jobs V d (wd_queue w')"
  using on_message_queue [OF run]
proof (elim disjE exE)
  fix t b e assume "q_Enqueue (Redis_ops rc) t b (wd_queue w) = Done (e, wd_queue w')"
  then have "rc_XAdd rc \<lparr>xa_Stream = t, xa_Values = [(''payload'', b)]\<rparr> (wd_queue w) = (e, wd_queue w')"
    by (simp add: Redis_ops_def Redis_Enqueue_def)
  from added_plain [OF doc this plain] show ?thesis
    by simp
next
  fix b c e assume "q_DeadLetter (Redis_ops rc) (d_JobsTopic d) b c (wd_queue w) = Done (e, wd_queue w')"
  then have "rc_XAdd rc \<lparr>xa_Stream = d_JobsTopic d @ ''.dlq'', xa_Values = [(''payload'', b), (''reason'', rc_text rc c)]\<rparr>
      (wd_queue w) = (e, wd_queue w')"
    by (simp add: Redis_ops_def Redis_DeadLetter_def)
  from added_plain [OF doc this plain] show ?thesis
    by simp
qed (use plain in simp)

text \<open>The order in which jobs wait does not matter to the ledger.\<close>

lemma mset_map_split:
  "mset xs = mset (map f ys) \<Longrightarrow> \<exists>zs. mset zs = mset ys \<and> map f zs = xs"
proof (induction xs arbitrary: ys)
  case (Cons x xs)
  then have "x \<in> set (map f ys)"
    by (metis list.set_intros(1) set_mset_mset)
  then obtain y where y: "y \<in> set ys" "f y = x"
    by auto
  then have "mset xs = mset (map f (remove1 y ys))"
    using Cons.prems by (simp add: image_mset_Diff) (metis add_mset_remove_trivial)
  then obtain zs where "mset zs = mset (remove1 y ys)" "map f zs = xs"
    using Cons.IH by blast
  then show ?case
    using y by (intro exI [of _ "y # zs"]) simp
qed simp

lemma ledger_reorder:
  assumes "ledger ob0 js0 oks failed js ob" and "mset (ob_jobs ob') = mset (ob_jobs ob)"
    and "ob_results ob' = ob_results ob" and "ob_dead ob' = ob_dead ob"
  shows "\<exists>js'. ledger ob0 js0 oks failed js' ob'"
proof -
  obtain js' where js': "mset js' = mset js" "map marshal_job js' = ob_jobs ob'"
    using assms(1,2) mset_map_split [of "ob_jobs ob'" marshal_job js] by (auto simp: ledger_def)
  then have "set js' = set js"
    by (metis set_mset_mset)
  then show ?thesis
    using assms js' by (intro exI [of _ js']) (auto simp: ledger_def list_all_iff)
qed

text \<open>What a step of the machine adds to the queue has fewer attempts left than what it takes.\<close>

lemma dispatch_step_adds:
  assumes "ob_jobs ob = marshal_job j # bs" and "retryable j"
  shows "\<exists>new. ob_jobs (dispatch_step d predict ob) = bs @ new \<and> (\<Sum>b\<leftarrow>new. body_budget b) < budget j"
proof -
  have job: "unmarshal_job (marshal_job j) = Some j"
    using assms(2) by (simp add: unmarshal_marshal_job retryable_def)
  have pos: "0 < budget j"
    by (simp add: budget_def)
  show ?thesis
  proof (cases "predict (length (ob_calls ob)) (dispatch_request (attempted j))")
    case (Inr resp)
    then show ?thesis
      using assms pos job by (simp add: dispatch_step_def Let_def)
  next
    case (Inl err)
    show ?thesis
    proof (cases "exhausted j")
      case True
      then show ?thesis
        using assms pos job Inl by (simp add: dispatch_step_def Let_def)
    next
      case False
      then show ?thesis
        using assms job Inl retry_budget [OF assms(2) False]
        by (intro exI [of _ "[marshal_job (attempted j)]"]) (simp add: dispatch_step_def Let_def body_budget_job)
    qed
  qed
qed

lemma read_outcome:
  assumes doc: "redis_documented rc V" and up: "redis_reachable rc V" and plain: "plain_jobs V d r"
    and read: "rc_XReadGroup rc (read_args (d_JobsTopic d) ''scheduler'') r = (answer, r')"
  shows "\<exists>xs. (case answer of Inl err \<Rightarrow> xs = [] | Inr streams \<Rightarrow> concat (map xs_Messages streams) = xs)
    \<and> redis_waiting V ''scheduler'' r (d_JobsTopic d)
        = map entry_payload xs @ redis_waiting V ''scheduler'' r' (d_JobsTopic d)
    \<and> (\<forall>t. t \<noteq> d_JobsTopic d \<longrightarrow> redis_waiting V ''scheduler'' r' t = redis_waiting V ''scheduler'' r t)
    \<and> redis_dead V r' = redis_dead V r \<and> plain_jobs V d r'
    \<and> (xs = [] \<longrightarrow> redis_waiting V ''scheduler'' r (d_JobsTopic d) = [])"
proof -
  let ?c = "rv_cursor V r (d_JobsTopic d) ''scheduler''" and ?E = "rv_entries V r (d_JobsTopic d)"
  obtain n where n: "given V (d_JobsTopic d) ''scheduler'' n r r'"
    and ans: "case answer of Inl err \<Rightarrow> True
      | Inr streams \<Rightarrow> 0 < n \<and> concat (map xs_Messages streams) = take n (drop ?c ?E)"
    using documentedD(2) [OF doc, unfolded reads_next_def, rule_format, of "d_JobsTopic d" "''scheduler''" r] read
    by (fastforce split: sum.splits)
  have same: "rv_entries V r' = rv_entries V r" and c': "rv_cursor V r' (d_JobsTopic d) ''scheduler'' = ?c + n"
    and len: "?c + n \<le> length ?E"
    and others: "t \<noteq> d_JobsTopic d \<Longrightarrow> rv_cursor V r' t ''scheduler'' = rv_cursor V r t ''scheduler''" for t
    using n by (auto simp: given_def)
  have plain': "plain_jobs V d r'"
    using plain by (simp add: plain_jobs_def same)
  have "drop ?c ?E = take n (drop ?c ?E) @ drop (?c + n) ?E"
    using append_take_drop_id [of n "drop ?c ?E"] by (simp add: drop_drop add.commute)
  then have "map entry_payload (drop ?c ?E) = map entry_payload (take n (drop ?c ?E)) @ map entry_payload (drop (?c + n) ?E)"
    by (metis map_append)
  then have waiting: "redis_waiting V ''scheduler'' r (d_JobsTopic d) = map entry_payload (take n (drop ?c ?E))
      @ redis_waiting V ''scheduler'' r' (d_JobsTopic d)"
    by (simp only: plain_waiting [OF plain] plain_waiting [OF plain'] redis_unread_def same c')
  have rest: "(\<forall>t. t \<noteq> d_JobsTopic d \<longrightarrow> redis_waiting V ''scheduler'' r' t = redis_waiting V ''scheduler'' r t)"
    "redis_dead V r' = redis_dead V r"
    by (auto simp: redis_waiting_def redis_unread_def redis_dead_def same others fun_eq_iff)
  show ?thesis
  proof (cases answer)
    case (Inl err)
    have end_reached: "?c = length ?E"
    proof (rule ccontr)
      assume "?c \<noteq> length ?E"
      then have "?c < length ?E"
        using documentedD(6) [OF doc, of r "d_JobsTopic d" "''scheduler''"] by simp
      then obtain streams r1 where "rc_XReadGroup rc (read_args (d_JobsTopic d) ''scheduler'') r = (Inr streams, r1)"
        using up unfolding redis_reachable_def by blast
      then show False
        using read Inl by simp
    qed
    then have "n = 0"
      using len by simp
    then show ?thesis
      using Inl waiting rest plain' end_reached
      by (intro exI [of _ "[]"]) (simp add: plain_waiting [OF plain] redis_unread_def)
  next
    case (Inr streams)
    then have "0 < n" and xs: "concat (map xs_Messages streams) = take n (drop ?c ?E)"
      using ans by simp_all
    then have "take n (drop ?c ?E) \<noteq> []"
      using len by simp
    then show ?thesis
      using Inr xs waiting rest plain'
      by (intro exI [of _ "take n (drop ?c ?E)"] conjI) (simp_all only: sum.case simp_thms)
  qed
qed

lemma held_payloads_update:
  assumes "i < length ps"
  shows "mset (held_payloads (ps[i := p'])) + mset (map entry_payload (held (ps ! i)))
    = mset (held_payloads ps) + mset (map entry_payload (held p'))"
proof -
  have "mset (held_payloads qs) = (\<Sum>p\<leftarrow>qs. mset (map entry_payload (held p)))" for qs
    by (simp add: held_payloads_def mset_concat comp_def)
  then show ?thesis
    using sum_list_map_update [OF assms, of "\<lambda>p. mset (map entry_payload (held p))" p'] by metis
qed

lemma cluster_obs_parts [simp]:
  "ob_jobs (cluster_view V d ps w) = held_payloads ps @ redis_waiting V ''scheduler'' (wd_queue w) (d_JobsTopic d)"
  "ob_results (cluster_view V d ps w) = redis_waiting V ''scheduler'' (wd_queue w) (d_ResultsTopic d)"
  "ob_dead (cluster_view V d ps w) = redis_dead V (wd_queue w) (d_JobsTopic d)"
  "wd_queue (replica_world r p) = r"
  by (simp_all add: cluster_view_def dispatch_view_def replica_world_def)

text \<open>Steps that only move what waits between the stream and the replicas.\<close>

lemma moving_step:
  assumes led: "ledger ob0 js0 oks failed js (cluster_obs V d s)" and i: "i < length (cl_replicas s)"
    and topics: "d_JobsTopic d \<noteq> d_ResultsTopic d"
    and waiting: "mset (map entry_payload (held (cl_replicas s ! i))) + mset (redis_waiting V ''scheduler'' (cl_server s) (d_JobsTopic d))
      = mset (map entry_payload (held p')) + mset (redis_waiting V ''scheduler'' r' (d_JobsTopic d))"
    and rest: "redis_waiting V ''scheduler'' r' (d_ResultsTopic d) = redis_waiting V ''scheduler'' (cl_server s) (d_ResultsTopic d)"
      "redis_dead V r' = redis_dead V (cl_server s)"
  shows "\<exists>js'. ledger ob0 js0 oks failed js'
    (cluster_obs V d \<lparr>cl_server = r', cl_replicas = (cl_replicas s)[i := p'], cl_handled = hs\<rparr>)"
proof (rule ledger_reorder [OF led])
  let ?H = "mset (map entry_payload (held (cl_replicas s ! i)))"
  have "mset (held_payloads ((cl_replicas s)[i := p'])) + ?H + mset (redis_waiting V ''scheduler'' r' (d_JobsTopic d))
      = mset (held_payloads (cl_replicas s)) + (mset (map entry_payload (held p')) + mset (redis_waiting V ''scheduler'' r' (d_JobsTopic d)))"
    by (simp only: held_payloads_update [OF i] add.assoc)
  also have "\<dots> = mset (held_payloads (cl_replicas s)) + (?H + mset (redis_waiting V ''scheduler'' (cl_server s) (d_JobsTopic d)))"
    by (simp only: waiting)
  finally show "mset (ob_jobs (cluster_obs V d \<lparr>cl_server = r', cl_replicas = (cl_replicas s)[i := p'], cl_handled = hs\<rparr>))
      = mset (ob_jobs (cluster_obs V d s))"
    by (simp add: cluster_obs_def ac_simps)
qed (use rest in \<open>simp_all add: cluster_obs_def\<close>)

lemma held_payloads_cong: "held p = held q \<Longrightarrow> held_payloads (ps[i := p]) = held_payloads (ps[i := q])"
  by (simp add: held_payloads_def map_update)

text \<open>Handling an entry is a step of the abstract machine on what waits in the whole cluster.\<close>

lemma handling_step:
  assumes doc: "redis_documented rc V" and up: "redis_reachable rc V" and topics: "d_JobsTopic d \<noteq> d_ResultsTopic d"
    and led: "ledger ob0 js0 oks failed js (cluster_obs V d s)" and i: "i < length (cl_replicas s)"
    and ph: "rp_phase (cl_replicas s ! i) = InBatch (x # xs)"
  shows "\<exists>r' p' oks' failed' js' new. replica_step rc d (HandleNext answer) (cl_server s) (cl_replicas s ! i) = Some (r', p', [x])
    \<and> rp_phase p' = Acking (xm_ID x) xs
    \<and> ledger ob0 js0 oks' failed' js' (cluster_obs V d \<lparr>cl_server = r', cl_replicas = (cl_replicas s)[i := p'], cl_handled = hs\<rparr>)
    \<and> redis_waiting V ''scheduler'' r' (d_JobsTopic d) = redis_waiting V ''scheduler'' (cl_server s) (d_JobsTopic d) @ new
    \<and> (\<Sum>b\<leftarrow>new. body_budget b) < body_budget (entry_payload x)
    \<and> (plain_jobs V d (cl_server s) \<longrightarrow> plain_jobs V d r')"
proof -
  let ?p = "cl_replicas s ! i"
  let ?w = "replica_world (cl_server s) ?p" and ?O = "held_payloads ((cl_replicas s)[i := ?p\<lparr>rp_phase := InBatch xs\<rparr>])"
  let ?view = "dispatch_view (redis_waiting V ''scheduler'') (redis_dead V) d"
  note step = accepting_queue.message_step [OF redis_accepting [OF doc up, where grp = "''scheduler''"] topics TrueI TrueI]
  obtain w' where w': "Dispatcher_on_message (Redis_ops rc) d (\<lambda>n req. answer) (entry_message x) ?w = Done (None, w')"
    and view: "?view ?O w' = dispatch_step d (\<lambda>n req. answer) (?view (entry_payload x # ?O) ?w)"
    using step [where msg = "entry_message x" and s = ?w and held = ?O and predict = "\<lambda>n req. answer"]
    by (auto simp: entry_message_def)
  let ?p' = "replica_after (Acking (xm_ID x) xs) w'"
  have O: "held_payloads ((cl_replicas s)[i := ?p']) = ?O"
    by (rule held_payloads_cong) simp
  have "held ?p = x # xs"
    by (simp add: held_def ph)
  then have "mset (ob_jobs (?view (entry_payload x # ?O) ?w)) = mset (ob_jobs (cluster_obs V d s))"
    using held_payloads_update [OF i, of "?p\<lparr>rp_phase := InBatch xs\<rparr>"]
    by (simp add: cluster_obs_def dispatch_view_def)
  then obtain js1 where led1: "ledger ob0 js0 oks failed js1 (?view (entry_payload x # ?O) ?w)"
    using ledger_reorder [OF led, of "?view (entry_payload x # ?O) ?w"] by (auto simp: cluster_obs_def dispatch_view_def)
  then obtain j js2 where js1: "js1 = j # js2" "marshal_job j = entry_payload x" "retryable j"
    by (cases js1) (auto simp: ledger_def dispatch_view_def)
  obtain oks' failed' js' where led2: "ledger ob0 js0 oks' failed' js' (?view ?O w')"
    unfolding view using ledger_step [OF led1 [unfolded js1(1)]] by blast
  obtain new where new: "ob_jobs (?view ?O w') = (?O @ redis_waiting V ''scheduler'' (cl_server s) (d_JobsTopic d)) @ new"
    and less: "(\<Sum>b\<leftarrow>new. body_budget b) < budget j"
    unfolding view using dispatch_step_adds [of "?view (entry_payload x # ?O) ?w" j] js1
    by (fastforce simp: dispatch_view_def)
  have "ledger ob0 js0 oks' failed' js'
      (cluster_obs V d \<lparr>cl_server = wd_queue w', cl_replicas = (cl_replicas s)[i := ?p'], cl_handled = hs\<rparr>)"
    using led2 O by (simp add: ledger_def cluster_obs_def dispatch_view_def)
  moreover have "redis_waiting V ''scheduler'' (wd_queue w') (d_JobsTopic d)
      = redis_waiting V ''scheduler'' (cl_server s) (d_JobsTopic d) @ new"
    using new by (simp add: dispatch_view_def)
  moreover have "budget j = body_budget (entry_payload x)"
    using js1 body_budget_job by metis
  moreover have "plain_jobs V d (cl_server s) \<longrightarrow> plain_jobs V d (wd_queue w')"
    using message_plain [OF doc w'] by simp
  ultimately show ?thesis
    using less w' by (intro exI [of _ "wd_queue w'"] exI [of _ ?p'] exI [of _ oks'] exI [of _ failed'] exI [of _ js'] exI [of _ new])
      (simp add: replica_step_def ph)
qed

lemma phase_work_simps [simp]:
  "phase_work Down = 1" "phase_work AtSelect = 0"
  "phase_work (InBatch xs) = (\<Sum>x\<leftarrow>xs. 4 * body_budget (entry_payload x) - 1)"
  "phase_work (Acking i xs) = 1 + (\<Sum>x\<leftarrow>xs. 4 * body_budget (entry_payload x) - 1)"
  "phase_work (next_phase xs) = (\<Sum>x\<leftarrow>xs. 4 * body_budget (entry_payload x) - 1)"
  by (simp_all add: phase_work_def next_phase_def)

lemma work_update:
  assumes "i < length (cl_replicas s)"
  shows "cluster_work V d \<lparr>cl_server = r', cl_replicas = (cl_replicas s)[i := p'], cl_handled = hs\<rparr>
      + phase_work (rp_phase (cl_replicas s ! i))
      + 4 * (\<Sum>b\<leftarrow>redis_waiting V ''scheduler'' (cl_server s) (d_JobsTopic d). body_budget b)
    = cluster_work V d s + phase_work (rp_phase p')
      + 4 * (\<Sum>b\<leftarrow>redis_waiting V ''scheduler'' r' (d_JobsTopic d). body_budget b)"
  using sum_list_map_update [OF assms, of "\<lambda>p. phase_work (rp_phase p)" p'] by (simp add: cluster_work_def)

lemma batch_work:
  "(\<Sum>x\<leftarrow>xs. 4 * body_budget (entry_payload x) - 1) + length xs = 4 * (\<Sum>b\<leftarrow>map entry_payload xs. body_budget b)"
proof (induction xs)
  case (Cons x xs)
  then show ?case
    using body_budget_pos [of "entry_payload x"] by simp
qed simp

lemma settling_step:
  assumes doc: "redis_documented rc V" and up: "redis_reachable rc V" and topics: "d_JobsTopic d \<noteq> d_ResultsTopic d"
    and led: "ledger ob0 js0 oks failed js (cluster_obs V d s)" and plain: "plain_jobs V d (cl_server s)"
    and step: "cluster_step rc d (Replica i e) s = Some s'" and alive: "e \<noteq> Kill"
  shows "(\<exists>oks' failed' js'. ledger ob0 js0 oks' failed' js' (cluster_obs V d s')) \<and> plain_jobs V d (cl_server s')
    \<and> (cluster_work V d s' < cluster_work V d s
       \<or> e = ReadBatch \<and> redis_waiting V ''scheduler'' (cl_server s) (d_JobsTopic d) = [] \<and> cluster_work V d s' = cluster_work V d s)"
proof -
  let ?p = "cl_replicas s ! i" and ?W = "\<lambda>r. redis_waiting V ''scheduler'' r (d_JobsTopic d)"
  obtain r' p' hs where i: "i < length (cl_replicas s)" and st: "replica_step rc d e (cl_server s) ?p = Some (r', p', hs)"
    and s': "s' = \<lparr>cl_server = r', cl_replicas = (cl_replicas s)[i := p'], cl_handled = cl_handled s @ map (Pair i) hs\<rparr>"
    using step by (auto simp: cluster_step_def split: if_splits option.splits prod.splits)
  note work = work_update [OF i, of V d r' p' "cl_handled s @ map (Pair i) hs", folded s']
  note moving = moving_step [OF led i topics, of p' r' "cl_handled s @ map (Pair i) hs", folded s']
  show ?thesis
  proof (cases e)
    case StartUp
    obtain err r1 where mk: "rc_XGroupCreateMkStream rc (d_JobsTopic d) ''scheduler'' ''0'' (cl_server s) = (err, r1)"
      by fastforce
    then have same: "rv_entries V r1 = rv_entries V (cl_server s)" "rv_cursor V r1 = rv_cursor V (cl_server s)"
      using documentedD(4) [OF doc] by (auto simp: creates_groups_def same_groups_def split: prod.splits)
    have ph: "rp_phase ?p = Down" "p' = new_replica AtSelect" "r' = r1"
      using st StartUp mk by (auto simp: replica_step_def split: if_splits)
    then show ?thesis
      using moving work plain same_contents [OF same]
      by (simp add: s' held_def new_replica_def) blast
  next
    case ReadBatch
    obtain answer r1 where read: "rc_XReadGroup rc (read_args (d_JobsTopic d) ''scheduler'') (cl_server s) = (answer, r1)"
      by fastforce
    obtain xs where ans: "case answer of Inl err \<Rightarrow> xs = [] | Inr streams \<Rightarrow> concat (map xs_Messages streams) = xs"
      and waiting: "?W (cl_server s) = map entry_payload xs @ ?W r1"
      and rest: "\<forall>t. t \<noteq> d_JobsTopic d \<longrightarrow> redis_waiting V ''scheduler'' r1 t = redis_waiting V ''scheduler'' (cl_server s) t"
        "redis_dead V r1 = redis_dead V (cl_server s)" "plain_jobs V d r1" "xs = [] \<longrightarrow> ?W (cl_server s) = []"
      using read_outcome [OF doc up plain read] by blast
    have ph: "rp_phase ?p = AtSelect" "r' = r1" and p': "rp_phase p' = next_phase xs"
      using st ReadBatch read ans by (auto simp: replica_step_def next_phase_def split: if_splits sum.splits)
    have h: "held ?p = []" "held p' = xs"
      using ph(1) p' by (simp_all add: held_def)
    have "\<exists>js'. ledger ob0 js0 oks failed js' (cluster_obs V d s')"
      by (rule moving) (use rest(1,2) topics in \<open>simp_all add: h ph(2) waiting\<close>)
    moreover have less: "cluster_work V d s' + length xs = cluster_work V d s"
      using work batch_work [of xs] by (simp add: ph p' waiting)
    then have "cluster_work V d s' < cluster_work V d s
        \<or> e = ReadBatch \<and> ?W (cl_server s) = [] \<and> cluster_work V d s' = cluster_work V d s"
      using rest(4) ReadBatch by (cases xs) simp_all
    moreover have "plain_jobs V d (cl_server s')"
      using rest(3) by (simp add: s' ph(2))
    ultimately show ?thesis
      by blast
  next
    case (HandleNext answer)
    then obtain x xs where ph: "rp_phase ?p = InBatch (x # xs)"
      using st by (auto simp: replica_step_def split: replica_phase.splits list.splits)
    obtain oks' failed' js' new where "rp_phase p' = Acking (xm_ID x) xs"
      and "ledger ob0 js0 oks' failed' js' (cluster_obs V d s')" and new: "?W r' = ?W (cl_server s) @ new"
      "(\<Sum>b\<leftarrow>new. body_budget b) < body_budget (entry_payload x)" and "plain_jobs V d r'"
      using handling_step [OF doc up topics led i ph, of answer "cl_handled s @ map (Pair i) hs"] st plain
      by (auto simp: HandleNext s')
    moreover from this have "cluster_work V d s' < cluster_work V d s"
      using work ph by simp
    ultimately show ?thesis
      by (auto simp: s')
  next
    case Acknowledge
    then obtain k xs where ph: "rp_phase ?p = Acking k xs"
      using st by (auto simp: replica_step_def split: replica_phase.splits)
    obtain err r1 where ack: "rc_XAck rc (d_JobsTopic d) ''scheduler'' k (cl_server s) = (err, r1)"
      by fastforce
    then have same: "rv_entries V r1 = rv_entries V (cl_server s)" "rv_cursor V r1 = rv_cursor V (cl_server s)"
      using documentedD(3) [OF doc, unfolded acks_entries_def, rule_format, where topic = "d_JobsTopic d"
          and grp = "''scheduler''" and i = k and r = "cl_server s"] by auto
    have p': "rp_phase p' = next_phase xs" "r' = r1"
      using st Acknowledge ph ack by (auto simp: replica_step_def)
    then show ?thesis
      using moving work plain same_contents [OF same] ph by (simp add: s' held_def) blast
  qed (use alive in simp)
qed

text \<open>The payloads the gateways submit in a run.\<close>

fun submitted :: "cluster_event list \<Rightarrow> body list" where
  "submitted [] = []"
| "submitted (Submit b # es) = b # submitted es"
| "submitted (Replica i e # es) = submitted es"

lemma submit_step:
  assumes doc: "redis_documented rc V" and up: "redis_reachable rc V" and topics: "d_JobsTopic d \<noteq> d_ResultsTopic d"
    and led: "ledger ob0 js0 oks failed js (cluster_obs V d s)" and plain: "plain_jobs V d (cl_server s)"
    and step: "cluster_step rc d (Submit (marshal_job j)) s = Some s'" and j: "retryable j"
  shows "ledger ob0 (js0 @ [j]) oks failed (js @ [j]) (cluster_obs V d s') \<and> plain_jobs V d (cl_server s')
    \<and> cl_replicas s' = cl_replicas s"
proof -
  obtain e r' where x: "rc_XAdd rc \<lparr>xa_Stream = d_JobsTopic d, xa_Values = [(''payload'', marshal_job j)]\<rparr> (cl_server s) = (e, r')"
    by fastforce
  then have "e = None"
    using up by (metis fst_conv redis_reachable_def)
  then have app: "appended V \<lparr>xa_Stream = d_JobsTopic d, xa_Values = [(''payload'', marshal_job j)]\<rparr> (cl_server s) r'"
    using redis_added(2) [OF doc x] by simp
  have s': "s' = s\<lparr>cl_server := r'\<rparr>"
    using step x by (simp add: cluster_step_def Redis_Enqueue_def)
  have w: "redis_waiting V ''scheduler'' r' = (redis_waiting V ''scheduler'' (cl_server s))
      (d_JobsTopic d := redis_waiting V ''scheduler'' (cl_server s) (d_JobsTopic d) @ [marshal_job j])"
    "redis_dead V r' = redis_dead V (cl_server s)"
    using waiting_added(1) [OF doc redis_added(1) [OF doc x] app] by simp_all
  have "plain_jobs V d r'"
    using added_plain [OF doc x plain] by simp
  then show ?thesis
    using led j topics by (simp add: s' w ledger_def cluster_obs_def)
qed

text \<open>A batch that is being handled is never empty.\<close>

definition batches_full :: "replica list \<Rightarrow> bool" where
  "batches_full ps \<longleftrightarrow> (\<forall>p \<in> set ps. rp_phase p \<noteq> InBatch [])"

lemma replica_step_full: "replica_step rc d e r p = Some (r', p', hs) \<Longrightarrow> rp_phase p \<noteq> InBatch [] \<Longrightarrow> rp_phase p' \<noteq> InBatch []"
  by (auto simp: replica_step_def new_replica_def replica_after_def next_phase_def
      split: replica_event.splits if_splits prod.splits sum.splits replica_phase.splits list.splits run.splits option.splits)

lemma cluster_step_full:
  assumes "cluster_step rc d e s = Some s'" and "batches_full (cl_replicas s)"
  shows "batches_full (cl_replicas s') \<and> length (cl_replicas s') = length (cl_replicas s)"
proof (cases e)
  case (Submit b)
  then show ?thesis
    using assms by (auto simp: cluster_step_def split: run.splits prod.splits)
next
  case (Replica i re)
  then obtain r' p' hs where "i < length (cl_replicas s)"
    and "replica_step rc d re (cl_server s) (cl_replicas s ! i) = Some (r', p', hs)" "cl_replicas s' = (cl_replicas s)[i := p']"
    using assms(1) by (auto simp: cluster_step_def split: if_splits option.splits prod.splits)
  then show ?thesis
    using assms(2) replica_step_full by (fastforce simp: batches_full_def dest: set_update_subset_insert [THEN subsetD])
qed

lemma settling_steps:
  assumes doc: "redis_documented rc V" and up: "redis_reachable rc V" and topics: "d_JobsTopic d \<noteq> d_ResultsTopic d"
  shows "cluster_steps rc d es s = Some s' \<Longrightarrow> ledger ob0 js0 oks failed js (cluster_obs V d s) \<Longrightarrow>
    plain_jobs V d (cl_server s) \<Longrightarrow> batches_full (cl_replicas s) \<Longrightarrow> \<forall>i. Replica i Kill \<notin> set es \<Longrightarrow>
    submitted es = map marshal_job new \<Longrightarrow> list_all retryable new \<Longrightarrow>
    (\<exists>oks' failed' js'. ledger ob0 (js0 @ new) oks' failed' js' (cluster_obs V d s')) \<and> plain_jobs V d (cl_server s')
      \<and> batches_full (cl_replicas s') \<and> length (cl_replicas s') = length (cl_replicas s)"
proof (induction es arbitrary: s js0 oks failed js new)
  case Nil
  then show ?case
    by auto
next
  case (Cons e es)
  obtain s1 where s1: "cluster_step rc d e s = Some s1" "cluster_steps rc d es s1 = Some s'"
    using Cons.prems(1) by (auto split: option.splits)
  note full = cluster_step_full [OF s1(1) Cons.prems(4)]
  show ?case
  proof (cases e)
    case (Submit b)
    then obtain j new' where new: "new = j # new'" "b = marshal_job j"
      using Cons.prems(6) by (cases new) auto
    have "ledger ob0 (js0 @ [j]) oks failed (js @ [j]) (cluster_obs V d s1)" "plain_jobs V d (cl_server s1)"
      using submit_step [OF doc up topics Cons.prems(2,3), of j s1] s1(1) Cons.prems(7) by (simp_all add: Submit new)
    from Cons.IH [OF s1(2) this full [THEN conjunct1], of new'] show ?thesis
      using Cons.prems(5-7) full by (simp add: Submit new)
  next
    case (Replica i re)
    then have alive: "re \<noteq> Kill"
      using Cons.prems(5) by auto
    obtain oks' failed' js' where "ledger ob0 js0 oks' failed' js' (cluster_obs V d s1)" "plain_jobs V d (cl_server s1)"
      using settling_step [OF doc up topics Cons.prems(2,3) s1(1) [unfolded Replica] alive] by blast
    from Cons.IH [OF s1(2) this full [THEN conjunct1], of new] show ?thesis
      using Cons.prems(5-7) full by (simp add: Replica)
  qed
qed

lemma settling_enabled:
  assumes doc: "redis_documented rc V" and up: "redis_reachable rc V" and topics: "d_JobsTopic d \<noteq> d_ResultsTopic d"
    and led: "ledger ob0 js0 oks failed js (cluster_obs V d s)" and plain: "plain_jobs V d (cl_server s)"
    and full: "batches_full (cl_replicas s)" and waiting: "cluster_waiting V d s \<noteq> []" and some: "cl_replicas s \<noteq> []"
  shows "\<exists>i e s'. e \<noteq> Kill \<and> cluster_step rc d (Replica i e) s = Some s' \<and> cluster_work V d s' < cluster_work V d s"
proof -
  have works: ?thesis if "cluster_step rc d (Replica i e) s = Some s'" "e \<noteq> Kill"
    "e \<noteq> ReadBatch \<or> redis_waiting V ''scheduler'' (cl_server s) (d_JobsTopic d) \<noteq> []" for i e s'
    using settling_step [OF doc up topics led plain that(1,2)] that by blast
  show ?thesis
  proof (cases "\<forall>p \<in> set (cl_replicas s). rp_phase p = AtSelect")
    case True
    then have "held_payloads (cl_replicas s) = []"
      by (auto simp: held_payloads_def held_def)
    then have "redis_waiting V ''scheduler'' (cl_server s) (d_JobsTopic d) \<noteq> []"
      using waiting by (simp add: cluster_waiting_def cluster_obs_def)
    moreover have "\<exists>s'. cluster_step rc d (Replica 0 ReadBatch) s = Some s'"
      using True some by (auto simp: cluster_step_def replica_step_def Let_def split: prod.splits sum.splits)
    ultimately show ?thesis
      using works [of 0 ReadBatch] by auto
  next
    case False
    then obtain i where i: "i < length (cl_replicas s)" and ph: "rp_phase (cl_replicas s ! i) \<noteq> AtSelect"
      by (auto simp: in_set_conv_nth)
    then have "rp_phase (cl_replicas s ! i) \<noteq> InBatch []"
      using full by (simp add: batches_full_def)
    with ph consider "rp_phase (cl_replicas s ! i) = Down" | x xs where "rp_phase (cl_replicas s ! i) = InBatch (x # xs)"
      | k xs where "rp_phase (cl_replicas s ! i) = Acking k xs"
      by (metis list.exhaust replica_phase.exhaust)
    then show ?thesis
    proof cases
      case 1
      then have "\<exists>s'. cluster_step rc d (Replica i StartUp) s = Some s'"
        using i by (auto simp: cluster_step_def replica_step_def Let_def split: prod.splits)
      then show ?thesis
        using works [of i StartUp] by auto
    next
      case 2
      then have "\<exists>s'. cluster_step rc d (Replica i (HandleNext (Inl []))) s = Some s'"
        using i handling_step [OF doc up topics led i 2, of "Inl []" undefined]
        by (auto simp: cluster_step_def)
      then show ?thesis
        using works [of i "HandleNext (Inl [])"] by auto
    next
      case 3
      then have "\<exists>s'. cluster_step rc d (Replica i Acknowledge) s = Some s'"
        using i by (auto simp: cluster_step_def replica_step_def Let_def split: prod.splits)
      then show ?thesis
        using works [of i Acknowledge] by auto
    qed
  qed
qed

section \<open>Properties\<close>

text \<open>C6: however many schedulers share a Redis server, whatever the interleaving of their commands with each other
  and with the gateways' submissions, however often each is killed and started again and whatever commands
  fail: no job is handled twice, neither by one replica nor by two; each replica handles its jobs in the order
  of the stream; and what the group was given is handled or still on the pending list, since
  only what was handled is acknowledged. What is pending and not held by a running replica is never handled
  in such a run: the backend delivers at most once.\<close>

theorem replicas_deliver_at_most_once:
  assumes "redis_documented rc V" and "cluster_steps rc d es (new_cluster n r) = Some s"
  shows "distinct (map (\<lambda>h. xm_ID (snd h)) (cl_handled s))
    \<and> (\<forall>i < n. subseq (handled_by i (cl_handled s)) (given_since V d r (cl_server s)))
    \<and> (\<forall>(i, x) \<in> set (cl_handled s). i < n \<and> x \<in> set (given_since V d r (cl_server s)))
    \<and> (\<forall>x \<in> set (given_since V d r (cl_server s)).
         (\<exists>i. (i, x) \<in> set (cl_handled s)) \<or> xm_ID x \<in> unacked V d (cl_server s))"
proof -
  let ?G = "given_since V d r (cl_server s)"
  have own: "owned V d r s" and n: "length (cl_replicas s) = n"
    using owned_steps [OF assms owned_start] by (simp_all add: new_cluster_def)
  note sub = owned_handled(1) [OF own]
  have "distinct (drop a (take b (map xm_ID (rv_entries V (cl_server s) (d_JobsTopic d)))))" for a b
    using documentedD(5) [OF assms(1)] by (intro distinct_drop distinct_take)
  then have "distinct (map xm_ID ?G)"
    by (simp add: given_since_def drop_map take_map)
  then have ids: "distinct (map (\<lambda>h. xm_ID (snd h)) (cl_handled s))"
    using subset_distinct [OF sub] by (simp add: comp_def)
  have "subseq (handled_by i (cl_handled s)) ?G" if "i < n" for i
    using ownedD(3) [OF own, of i] that n by (metis prefixI prefix_imp_subseq subseq_order.order_trans)
  moreover have "i < n \<and> x \<in> set ?G" if "(i, x) \<in> set (cl_handled s)" for i x
    using ownedD(6) [OF own] owned_handled(2) [OF own] n that by force
  moreover have "(\<exists>i. (i, x) \<in> set (cl_handled s)) \<or> xm_ID x \<in> unacked V d (cl_server s)" if "x \<in> set ?G" for x
    using ownedD(4) [OF own that] by auto
  ultimately show ?thesis
    using ids by blast
qed

theorem replicas_deliver_at_most_once_witness:
  "\<exists>s x. cluster_steps demo_client demo_dispatch
       [Replica 0 StartUp, Replica 1 StartUp, Replica 0 ReadBatch, Submit Malformed, Replica 1 ReadBatch,
        Replica 1 (HandleNext (Inl ''down'')), Replica 0 Kill, Replica 1 Acknowledge]
       (new_cluster 2 (wd_queue (demo_server [Malformed]))) = Some s
     \<and> cl_handled s = [(1, x)] \<and> distinct (map (\<lambda>h. xm_ID (snd h)) (cl_handled s))"
proof -
  let ?run = "cluster_steps demo_client demo_dispatch
       [Replica 0 StartUp, Replica 1 StartUp, Replica 0 ReadBatch, Submit Malformed, Replica 1 ReadBatch,
        Replica 1 (HandleNext (Inl ''down'')), Replica 0 Kill, Replica 1 Acknowledge]
       (new_cluster 2 (wd_queue (demo_server [Malformed])))"
  obtain s x where run: "?run = Some s" and "cl_handled s = [(1, x)]"
    by (simp add: cluster_step_def replica_step_def new_cluster_def demo_client_def demo_server_def demo_read_def read_args_def
        Let_def Redis_Enqueue_def demo_add_def numeral_2_eq_2 new_replica_def next_phase_def
        Dispatcher_on_message_def entry_message_def entry_payload_def demo_entries_def demo_cursor_def demo_ack_def
        replica_world_def replica_after_def)
  then show ?thesis
    using replicas_deliver_at_most_once [OF demo_documented run] by blast
qed

text \<open>C7: while the Redis server is reachable and no replica is killed, every job ends exactly once, however many
  schedulers share the work and however their commands interleave with each other and with the jobs
  submitted meanwhile: at any time the jobs at the start and those submitted are, up to order, those published,
  those dead-lettered and those that still wait in the stream or with a replica. And the run makes progress:
  every step of a replica reduces the work left or is a read that finds nothing to read, and as long as a job
  waits a step that reduces it is possible.\<close>

theorem replicas_settle_every_job:
  assumes "redis_documented rc V" and "redis_reachable rc V" and "d_JobsTopic d \<noteq> d_ResultsTopic d"
    and "\<forall>x \<in> set (rv_entries V r (d_JobsTopic d)). \<not> has_reason x"
    and "redis_waiting V ''scheduler'' r (d_JobsTopic d) = map marshal_job js" and "list_all retryable js"
    and "submitted es = map marshal_job new" and "list_all retryable new"
    and "\<forall>i. Replica i Kill \<notin> set es" and "cluster_steps rc d es (new_cluster n r) = Some s"
  shows "\<exists>published buried waiting.
      redis_waiting V ''scheduler'' (cl_server s) (d_ResultsTopic d) = redis_waiting V ''scheduler'' r (d_ResultsTopic d)
        @ map (\<lambda>(j, resp). marshal_result (dispatch_result j resp)) published
    \<and> redis_dead V (cl_server s) (d_JobsTopic d) = redis_dead V r (d_JobsTopic d) @ map marshal_job buried
    \<and> cluster_waiting V d s = map marshal_job waiting
    \<and> mset (map job_ID (js @ new))
        = mset (map (\<lambda>(j, resp). job_ID j) published) + mset (map job_ID buried) + mset (map job_ID waiting)
    \<and> (\<forall>i e s'. e \<noteq> Kill \<longrightarrow> cluster_step rc d (Replica i e) s = Some s' \<longrightarrow> cluster_work V d s' < cluster_work V d s
        \<or> e = ReadBatch \<and> redis_waiting V ''scheduler'' (cl_server s) (d_JobsTopic d) = [] \<and> cluster_work V d s' = cluster_work V d s)
    \<and> (waiting \<noteq> [] \<longrightarrow> 0 < n \<longrightarrow> (\<exists>i e s'. e \<noteq> Kill \<and> cluster_step rc d (Replica i e) s = Some s'
        \<and> cluster_work V d s' < cluster_work V d s))"
proof -
  let ?s0 = "new_cluster n r"
  have "held_payloads (cl_replicas ?s0) = []" and full: "batches_full (cl_replicas ?s0)"
    by (auto simp: held_payloads_def new_cluster_def new_replica_def held_def batches_full_def)
  then have "ledger (cluster_obs V d ?s0) js [] [] js (cluster_obs V d ?s0)"
    using assms(5,6) by (simp add: ledger_def cluster_obs_def new_cluster_def)
  from settling_steps [OF assms(1-3,10) this _ full assms(9,7,8)]
  obtain published buried waiting where led: "ledger (cluster_obs V d ?s0) (js @ new) published buried waiting (cluster_obs V d s)"
    and plain: "plain_jobs V d (cl_server s)" and bf: "batches_full (cl_replicas s)" and len: "length (cl_replicas s) = n"
    using assms(4) by (auto simp: plain_jobs_def new_cluster_def)
  note parts = led [unfolded ledger_def]
  have wait: "cluster_waiting V d s = map marshal_job waiting"
    using parts by (simp add: cluster_waiting_def)
  have results: "redis_waiting V ''scheduler'' (cl_server s) (d_ResultsTopic d) = redis_waiting V ''scheduler'' r (d_ResultsTopic d)
        @ map (\<lambda>(j, resp). marshal_result (dispatch_result j resp)) published"
    "redis_dead V (cl_server s) (d_JobsTopic d) = redis_dead V r (d_JobsTopic d) @ map marshal_job buried"
    using parts by (simp_all add: cluster_obs_def new_cluster_def)
  have enabled: "\<exists>i e s'. e \<noteq> Kill \<and> cluster_step rc d (Replica i e) s = Some s' \<and> cluster_work V d s' < cluster_work V d s"
    if "waiting \<noteq> []" "0 < n"
    using settling_enabled [OF assms(1-3) led plain bf] that wait len by fastforce
  show ?thesis
    using wait results parts enabled settling_step [OF assms(1-3) led plain]
    by (intro exI [of _ published] exI [of _ buried] exI [of _ waiting] conjI) blast+
qed

text \<open>Two replicas, a job at the start and one submitted; both end, one published and one dead-lettered.\<close>

theorem replicas_settle_every_job_witness:
  "\<exists>s. cluster_steps demo_client demo_dispatch
       [Replica 0 StartUp, Replica 1 StartUp, Replica 0 ReadBatch, Submit (marshal_job demo_job), Replica 1 ReadBatch,
        Replica 1 (HandleNext (Inr demo_answer)), Replica 0 (HandleNext (Inl ''down''))]
       (new_cluster 2 (wd_queue (demo_server [marshal_job demo_job]))) = Some s
     \<and> length (redis_waiting demo_view ''scheduler'' (cl_server s) ''results'')
        + length (redis_dead demo_view (cl_server s) ''jobs'') + length (cluster_waiting demo_view demo_dispatch s) = 2"
proof -
  let ?es = "[Replica 0 StartUp, Replica 1 StartUp, Replica 0 ReadBatch, Submit (marshal_job demo_job), Replica 1 ReadBatch,
        Replica 1 (HandleNext (Inr demo_answer)), Replica 0 (HandleNext (Inl ''down''))]"
  have job: "unmarshal_job (marshal_job demo_job) = Some demo_job"
    by (simp add: unmarshal_marshal_job)
  have "\<exists>s. cluster_steps demo_client demo_dispatch ?es (new_cluster 2 (wd_queue (demo_server [marshal_job demo_job]))) = Some s"
    by (simp add: cluster_step_def replica_step_def new_cluster_def demo_client_def demo_server_def demo_read_def read_args_def
        Let_def Redis_Enqueue_def demo_add_def numeral_2_eq_2 new_replica_def next_phase_def job Dispatcher_handle_def
        Dispatcher_on_message_def entry_message_def entry_payload_def demo_entries_def demo_cursor_def demo_ack_def
        replica_world_def replica_after_def Redis_ops_def Redis_DeadLetter_def)
  then obtain s where run: "cluster_steps demo_client demo_dispatch ?es (new_cluster 2 (wd_queue (demo_server [marshal_job demo_job]))) = Some s"
    by blast
  obtain published buried waiting where
      "redis_waiting demo_view ''scheduler'' (cl_server s) ''results'' = map (\<lambda>(j, resp). marshal_result (dispatch_result j resp)) published"
      "redis_dead demo_view (cl_server s) ''jobs'' = map marshal_job buried"
      "cluster_waiting demo_view demo_dispatch s = map marshal_job waiting"
    and m: "mset (map job_ID ([demo_job] @ [demo_job]))
        = mset (map (\<lambda>(j, resp). job_ID j) published) + mset (map job_ID buried) + mset (map job_ID waiting)"
    using replicas_settle_every_job [OF demo_documented demo_redis_reachable _ _ _ _ _ _ _ run, where js = "[demo_job]" and new = "[demo_job]"]
    by (fastforce simp: demo_server_plain demo_server_parts(4,5) simp del: mset_map)
  moreover have "2 = length published + length buried + length waiting"
    using arg_cong [OF m, of size] by simp
  ultimately show ?thesis
    using run by (intro exI [of _ s]) simp
qed

end
