(* ===== verification/Kafka.thy ===== *)
theory Kafka
  imports Queue
begin

text \<open>
  The Kafka backend of the job queue, \<open>shared/pkg/queue/kafka.go\<close>: a writer per topic and a
  consumer-group reader whose offsets the consumer commits itself.

  The client library (segmentio/kafka-go) is a parameter, \<open>kafka_client\<close>; \<open>'k\<close> is the state of the
  cluster and of the connections, \<open>'rd\<close> the type of its readers. What the properties rely on of its
  documentation is the definition \<open>kafka_documented\<close> below.
\<close>

section \<open>The client\<close>

record KafkaMessage =
  km_Partition :: int
  km_Offset :: nat
  km_Key :: string
  km_Value :: body
  km_Headers :: "(string \<times> string) list"

datatype kafka_balancer = LeastBytes

record kafka_Writer =
  kw_Addr :: "string list"
  kw_Topic :: string
  kw_Balancer :: kafka_balancer

record ReaderConfig =
  rd_Brokers :: "string list"
  rd_Topic :: string
  rd_GroupID :: string

record ('rd, 'k) kafka_client =
  kc_WriteMessages :: "kafka_Writer \<Rightarrow> KafkaMessage list \<Rightarrow> 'k \<Rightarrow> string option \<times> 'k"
  kc_CloseWriter :: "kafka_Writer \<Rightarrow> 'k \<Rightarrow> string option \<times> 'k"
  kc_NewReader :: "ReaderConfig \<Rightarrow> 'k \<Rightarrow> 'rd \<times> 'k"
  kc_FetchMessage :: "'rd \<Rightarrow> 'k \<Rightarrow> (string + KafkaMessage) \<times> 'k"
  kc_CommitMessages :: "'rd \<Rightarrow> KafkaMessage list \<Rightarrow> 'k \<Rightarrow> string option \<times> 'k"
  kc_CloseReader :: "'rd \<Rightarrow> 'k \<Rightarrow> string option \<times> 'k"

section \<open>The code\<close>

record Kafka =
  kf_brokers :: "string list"
  kf_writers :: "(string, kafka_Writer) gomap"

text \<open>The list of brokers is split and not trimmed.\<close>

definition NewKafka :: "string \<Rightarrow> Kafka" where
  "NewKafka brokers = \<lparr>kf_brokers = split_at (CHR '','') brokers, kf_writers = []\<rparr>"

definition writerFor :: "string \<Rightarrow> Kafka \<Rightarrow> kafka_Writer \<times> Kafka" where
  "writerFor topic k =
     (case map_of (kf_writers k) topic of
        Some w \<Rightarrow> (w, k)
      | None \<Rightarrow>
          (let w = \<lparr>kw_Addr = kf_brokers k, kw_Topic = topic, kw_Balancer = LeastBytes\<rparr>
           in (w, k\<lparr>kf_writers := AList.update topic w (kf_writers k)\<rparr>)))"

text \<open>\<open>kafka.Message{Value: payload}\<close>: no key; partition and offset are the broker's to choose.\<close>

definition new_message :: "body \<Rightarrow> (string \<times> string) list \<Rightarrow> KafkaMessage" where
  "new_message payload headers =
     \<lparr>km_Partition = 0, km_Offset = 0, km_Key = [], km_Value = payload, km_Headers = headers\<rparr>"

definition Kafka_Enqueue ::
  "('rd, 'k) kafka_client \<Rightarrow> string \<Rightarrow> body \<Rightarrow> Kafka \<times> 'k \<Rightarrow> (Kafka \<times> 'k) call"
where
  "Kafka_Enqueue kc topic payload q =
     (let (w, kf) = writerFor topic (fst q); (e, k) = kc_WriteMessages kc w [new_message payload []] (snd q)
      in Done (e, (kf, k)))"

definition Kafka_DeadLetter ::
  "('rd, 'k) kafka_client \<Rightarrow> string \<Rightarrow> body \<Rightarrow> string \<Rightarrow> Kafka \<times> 'k \<Rightarrow> (Kafka \<times> 'k) call"
where
  "Kafka_DeadLetter kc topic payload reason q =
     (let (w, kf) = writerFor (topic @ ''.dlq'') (fst q);
          (e, k) = kc_WriteMessages kc w [new_message payload [(''reason'', reason)]] (snd q)
      in Done (e, (kf, k)))"

definition Kafka_Close :: "('rd, 'k) kafka_client \<Rightarrow> Kafka \<times> 'k \<Rightarrow> (Kafka \<times> 'k) call" where
  "Kafka_Close kc q =
     Done (None, (fst q, fold (\<lambda>(_, w) k. snd (kc_CloseWriter kc w k)) (kf_writers (fst q)) (snd q)))"

definition Kafka_ops :: "('rd, 'k) kafka_client \<Rightarrow> (Kafka \<times> 'k) queue_ops" where
  "Kafka_ops kc = \<lparr>q_Enqueue = Kafka_Enqueue kc, q_DeadLetter = Kafka_DeadLetter kc\<rparr>"

definition fetched_message :: "KafkaMessage \<Rightarrow> Message" where
  "fetched_message m = \<lparr>msg_ID = km_Key m, msg_Payload = km_Value m, msg_Attempt = 1\<rparr>"

text \<open>
  The consumer loop. One entry per fetch: whether the context is done by the time a failed fetch is
  looked at. The last component of the result says where the loop ended: a handler that never
  returned leaves the state in which it was called.
\<close>

fun Kafka_loop ::
  "('rd, 'k) kafka_client \<Rightarrow> 'rd \<Rightarrow> ('s \<Rightarrow> 'k) \<Rightarrow> ('k \<Rightarrow> 's \<Rightarrow> 's) \<Rightarrow> (Message \<Rightarrow> 's \<Rightarrow> 's call)
     \<Rightarrow> bool list \<Rightarrow> 's \<Rightarrow> consume_status \<times> 's"
where
  "Kafka_loop kc rd get put handler [] s = (Running, s)"
| "Kafka_loop kc rd get put handler (ctx_done # cs) s =
     (let (fetched, k) = kc_FetchMessage kc rd (get s); s1 = put k s in
      case fetched of
        Inl err \<Rightarrow> if ctx_done then (Returned, s1) else Kafka_loop kc rd get put handler cs s1
      | Inr m \<Rightarrow>
          (case handler (fetched_message m) s1 of
             Done (Some err, s') \<Rightarrow> Kafka_loop kc rd get put handler cs s'
           | Done (None, s') \<Rightarrow>
               (let (_, k') = kc_CommitMessages kc rd [m] (get s')
                in Kafka_loop kc rd get put handler cs (put k' s'))
           | Blocked \<Rightarrow> (Stuck, s1)
           | Panicked \<Rightarrow> (Stuck, s1)))"

text \<open>\<open>defer r.Close()\<close> runs when the loop returns.\<close>

definition Kafka_Consume ::
  "('rd, 'k) kafka_client \<Rightarrow> ('s \<Rightarrow> Kafka) \<Rightarrow> ('s \<Rightarrow> 'k) \<Rightarrow> ('k \<Rightarrow> 's \<Rightarrow> 's) \<Rightarrow> string \<Rightarrow> string
     \<Rightarrow> (Message \<Rightarrow> 's \<Rightarrow> 's call) \<Rightarrow> bool list \<Rightarrow> 's \<Rightarrow> consume_status \<times> 's"
where
  "Kafka_Consume kc queue get put topic grp handler cs s =
     (let (rd, k) = kc_NewReader kc \<lparr>rd_Brokers = kf_brokers (queue s), rd_Topic = topic, rd_GroupID = grp\<rparr> (get s)
      in case Kafka_loop kc rd get put handler cs (put k s) of
           (Returned, s') \<Rightarrow> (Returned, put (snd (kc_CloseReader kc rd (get s'))) s')
         | (st, s') \<Rightarrow> (st, s'))"

section \<open>What the cluster documents\<close>

text \<open>
  A view of the cluster: the log of each partition of a topic, the offset each group has committed
  in it (that of the next message to deliver after a restart), and what a reader reads: its topic and group,
  and its position in each partition.
\<close>

record ('rd, 'k) kafka_view =
  kv_log :: "'k \<Rightarrow> string \<Rightarrow> int \<Rightarrow> KafkaMessage list"
  kv_committed :: "'k \<Rightarrow> string \<Rightarrow> string \<Rightarrow> int \<Rightarrow> nat"
  kv_source :: "'rd \<Rightarrow> string \<times> string"
  kv_position :: "'rd \<Rightarrow> 'k \<Rightarrow> int \<Rightarrow> nat"

definition rd_committed :: "('rd, 'k) kafka_view \<Rightarrow> 'rd \<Rightarrow> 'k \<Rightarrow> int \<Rightarrow> nat" where
  "rd_committed V rd k = kv_committed V k (fst (kv_source V rd)) (snd (kv_source V rd))"

definition offsets_kept :: "('rd, 'k) kafka_view \<Rightarrow> 'k \<Rightarrow> 'k \<Rightarrow> bool" where
  "offsets_kept V k k' \<longleftrightarrow> kv_committed V k' = kv_committed V k \<and> (\<forall>rd. kv_position V rd k' = kv_position V rd k)"

text \<open>Writing moves no offset. A new reader starts at the committed offsets.\<close>

definition writes_keep_offsets :: "('rd, 'k) kafka_client \<Rightarrow> ('rd, 'k) kafka_view \<Rightarrow> bool" where
  "writes_keep_offsets kc V \<longleftrightarrow> (\<forall>w ms k. offsets_kept V k (snd (kc_WriteMessages kc w ms k)))"

definition starts_at_commit :: "('rd, 'k) kafka_client \<Rightarrow> ('rd, 'k) kafka_view \<Rightarrow> bool" where
  "starts_at_commit kc V \<longleftrightarrow> (\<forall>cfg k. case kc_NewReader kc cfg k of (rd, k') \<Rightarrow>
      kv_source V rd = (rd_Topic cfg, rd_GroupID cfg) \<and> kv_committed V k' = kv_committed V k \<and>
      kv_position V rd k' = rd_committed V rd k)"

text \<open>
  A fetch gives the message at the reader's position in some partition, or, when the group was
  rebalanced, at the committed offset; the position is then behind it. A failed fetch gives nothing.
\<close>

definition resumed :: "('rd, 'k) kafka_view \<Rightarrow> 'rd \<Rightarrow> 'k \<Rightarrow> int \<Rightarrow> nat \<Rightarrow> bool" where
  "resumed V rd k p n \<longleftrightarrow> n = kv_position V rd k p \<or> n = rd_committed V rd k p"

definition fetches_next :: "('rd, 'k) kafka_client \<Rightarrow> ('rd, 'k) kafka_view \<Rightarrow> bool" where
  "fetches_next kc V \<longleftrightarrow> (\<forall>rd k. case kc_FetchMessage kc rd k of (fetched, k') \<Rightarrow>
      kv_committed V k' = kv_committed V k \<and>
      (case fetched of
         Inl err \<Rightarrow> \<forall>p. resumed V rd k p (kv_position V rd k' p)
       | Inr m \<Rightarrow>
           resumed V rd k (km_Partition m) (km_Offset m) \<and>
           km_Offset m < length (kv_log V k (fst (kv_source V rd)) (km_Partition m)) \<and>
           kv_log V k (fst (kv_source V rd)) (km_Partition m) ! km_Offset m = m \<and>
           kv_position V rd k' (km_Partition m) = km_Offset m + 1 \<and>
           (\<forall>p. p \<noteq> km_Partition m \<longrightarrow> resumed V rd k p (kv_position V rd k' p))))"

text \<open>Committing a message commits the offset behind it, for all messages before it too; after an
  error it may have been done or not.\<close>

definition commits_offset :: "('rd, 'k) kafka_client \<Rightarrow> ('rd, 'k) kafka_view \<Rightarrow> bool" where
  "commits_offset kc V \<longleftrightarrow> (\<forall>rd m k. case kc_CommitMessages kc rd [m] k of (e, k') \<Rightarrow>
      (\<forall>rd. kv_position V rd k' = kv_position V rd k) \<and>
      (rd_committed V rd k' = (rd_committed V rd k)(km_Partition m := km_Offset m + 1)
       \<or> e \<noteq> None \<and> rd_committed V rd k' = rd_committed V rd k))"

definition closes_keep_offsets :: "('rd, 'k) kafka_client \<Rightarrow> ('rd, 'k) kafka_view \<Rightarrow> bool" where
  "closes_keep_offsets kc V \<longleftrightarrow>
     (\<forall>rd k. kv_committed V (snd (kc_CloseReader kc rd k)) = kv_committed V k)"

definition kafka_documented :: "('rd, 'k) kafka_client \<Rightarrow> ('rd, 'k) kafka_view \<Rightarrow> bool" where
  "kafka_documented kc V \<longleftrightarrow> writes_keep_offsets kc V \<and> starts_at_commit kc V \<and> fetches_next kc V \<and>
     commits_offset kc V \<and> closes_keep_offsets kc V"

section \<open>What a consumer is given\<close>

text \<open>
  The messages handled in a run: none below the offset committed at its start. That only grows, and
  only to right behind a message handled.
\<close>

definition fetched_above :: "(int \<Rightarrow> nat) \<Rightarrow> (int \<Rightarrow> nat) \<Rightarrow> KafkaMessage list \<Rightarrow> bool" where
  "fetched_above c c' ms \<longleftrightarrow> (\<forall>m\<in>set ms. c (km_Partition m) \<le> km_Offset m) \<and>
     (\<forall>p. c p \<le> c' p \<and> (c' p = c p \<or> (\<exists>m\<in>set ms. km_Partition m = p \<and> c' p = km_Offset m + 1)))"

lemma fetched_aboveD:
  assumes "fetched_above c c' ms"
  shows "m \<in> set ms \<Longrightarrow> c (km_Partition m) \<le> km_Offset m" and "c p \<le> c' p"
    and "c' p = c p \<or> (\<exists>m\<in>set ms. km_Partition m = p \<and> c' p = km_Offset m + 1)"
  using assms by (simp_all add: fetched_above_def)

lemma fetched_above_trans:
  assumes a: "fetched_above c c' ms" and b: "fetched_above c' c'' ns"
  shows "fetched_above c c'' (ms @ ns)"
  unfolding fetched_above_def
proof (intro conjI allI ballI)
  fix m
  assume "m \<in> set (ms @ ns)"
  then show "c (km_Partition m) \<le> km_Offset m"
    using fetched_aboveD(1) [OF a, of m] fetched_aboveD(1) [OF b, of m] fetched_aboveD(2) [OF a, of "km_Partition m"]
    by auto
next
  fix p
  show "c p \<le> c'' p"
    using fetched_aboveD(2) [OF a, of p] fetched_aboveD(2) [OF b, of p] by simp
  show "c'' p = c p \<or> (\<exists>m\<in>set (ms @ ns). km_Partition m = p \<and> c'' p = km_Offset m + 1)"
    using fetched_aboveD(3) [OF a, of p] fetched_aboveD(3) [OF b, of p] by auto
qed

lemma kafka_fetched:
  assumes doc: "kafka_documented kc V" and ahead: "\<forall>p. rd_committed V rd k p \<le> kv_position V rd k p"
    and "kc_FetchMessage kc rd k = (fetched, k')"
  shows "rd_committed V rd k' = rd_committed V rd k" and "\<forall>p. rd_committed V rd k p \<le> kv_position V rd k' p"
    and "fetched = Inr m \<Longrightarrow> rd_committed V rd k (km_Partition m) \<le> km_Offset m
      \<and> kv_position V rd k' (km_Partition m) = km_Offset m + 1"
proof -
  have "fetches_next kc V"
    using doc by (simp add: kafka_documented_def)
  note f = this [unfolded fetches_next_def, rule_format, where rd = rd and k = k, unfolded assms(3) prod.case]
  have least: "resumed V rd k p n \<Longrightarrow> rd_committed V rd k p \<le> n" for p n
    using ahead by (auto simp: resumed_def)
  show "rd_committed V rd k' = rd_committed V rd k"
    using f by (simp add: rd_committed_def)
  show "fetched = Inr m \<Longrightarrow> rd_committed V rd k (km_Partition m) \<le> km_Offset m
      \<and> kv_position V rd k' (km_Partition m) = km_Offset m + 1"
    using f least by auto
  show "\<forall>p. rd_committed V rd k p \<le> kv_position V rd k' p"
  proof (cases fetched)
    case (Inl err)
    then show ?thesis
      using f least by auto
  next
    case (Inr m)
    show ?thesis
    proof
      fix p
      show "rd_committed V rd k p \<le> kv_position V rd k' p"
        using f Inr least [of "km_Partition m" "km_Offset m"] least [of p "kv_position V rd k' p"]
        by (cases "p = km_Partition m") auto
    qed
  qed
qed

lemma loop_fetched:
  assumes doc: "kafka_documented kc V" and lens: "\<forall>k s. get (put k s) = k"
    and handler: "\<forall>msg s e s'. handler msg s = Done (e, s') \<longrightarrow> offsets_kept V (get s) (get s')"
    and "\<forall>p. rd_committed V rd (get s) p \<le> kv_position V rd (get s) p"
    and "Kafka_loop kc rd (below get) (set_below put) (recorded lives handler) cs (s, tr) = (st, (s', tr'))"
  shows "\<exists>ms. tr' = tr @ map fetched_message ms \<and>
    fetched_above (rd_committed V rd (get s)) (rd_committed V rd (get s')) ms"
  using assms(4,5)
proof (induction cs arbitrary: s tr)
  case Nil
  then show ?case
    by (simp add: fetched_above_def)
next
  case (Cons c cs)
  obtain fetched k where fetch: "kc_FetchMessage kc rd (get s) = (fetched, k)"
    by fastforce
  note got = kafka_fetched [OF doc Cons.prems(1) fetch]
  show ?case
  proof (cases fetched)
    case (Inl err)
    then show ?thesis
      using Cons.IH [of "put k s" tr] Cons.prems(2) got fetch lens
      by (cases c) (auto simp: fetched_above_def)
  next
    case (Inr m)
    note here = got(3) [OF Inr]
    show ?thesis
    proof (cases "length tr < lives \<and> (\<exists>res. handler (fetched_message m) (put k s) = Done res)")
      case False
      then have "recorded lives handler (fetched_message m) (put k s, tr) \<in> {Blocked, Panicked}"
        by (cases "handler (fetched_message m) (put k s)") (auto simp: recorded_def)
      then show ?thesis
        using Cons.prems(2) Inr fetch got(1) lens by (auto simp: fetched_above_def)
    next
      case True
      then obtain e s1 where live: "length tr < lives" and s1: "handler (fetched_message m) (put k s) = Done (e, s1)"
        by auto
      have kept: "offsets_kept V k (get s1)"
        using handler s1 lens by metis
      then have c1: "rd_committed V rd (get s1) = rd_committed V rd (get s)" "kv_position V rd (get s1) = kv_position V rd k"
        using got(1) by (auto simp: offsets_kept_def rd_committed_def)
      obtain s2 where s2: "Kafka_loop kc rd (below get) (set_below put) (recorded lives handler) cs
          (s2, tr @ [fetched_message m]) = (st, (s', tr'))"
        and pos: "kv_position V rd (get s2) = kv_position V rd k"
        and com: "rd_committed V rd (get s2) \<in>
          {rd_committed V rd (get s), (rd_committed V rd (get s))(km_Partition m := km_Offset m + 1)}"
      proof (cases e)
        case None
        obtain e' k' where commit: "kc_CommitMessages kc rd [m] (get s1) = (e', k')"
          by fastforce
        have "commits_offset kc V"
          using doc by (simp add: kafka_documented_def)
        note done_commit = this [unfolded commits_offset_def, rule_format, where rd = rd and m = m and k = "get s1", unfolded commit prod.case]
        show thesis
          using that [of "put k' s1"] done_commit Cons.prems(2) Inr None fetch commit c1 lens
          by (auto simp: recorded_simps(1) [where handler = handler, OF live s1])
      next
        case (Some err)
        then show thesis
          using that [of s1] Cons.prems(2) Inr fetch c1
          by (simp add: recorded_simps(1) [where handler = handler, OF live s1])
      qed
      have ahead: "\<forall>p. rd_committed V rd (get s2) p \<le> kv_position V rd (get s2) p"
        using com got(2) here by (auto simp: pos)
      obtain ms where "tr' = (tr @ [fetched_message m]) @ map fetched_message ms"
        and "fetched_above (rd_committed V rd (get s2)) (rd_committed V rd (get s')) ms"
        using Cons.IH [OF ahead s2] by blast
      moreover have "fetched_above (rd_committed V rd (get s)) (rd_committed V rd (get s2)) [m]"
        using com here by (auto simp: fetched_above_def split: if_splits)
      ultimately show ?thesis
        using fetched_above_trans by (intro exI [of _ "m # ms"]) fastforce
    qed
  qed
qed

text \<open>A process started again and again: for each life, the messages handled by its end and its fetches.\<close>

fun Kafka_sessions ::
  "('rd, 'k) kafka_client \<Rightarrow> ('s \<Rightarrow> Kafka) \<Rightarrow> ('s \<Rightarrow> 'k) \<Rightarrow> ('k \<Rightarrow> 's \<Rightarrow> 's) \<Rightarrow> string \<Rightarrow> string
     \<Rightarrow> (Message \<Rightarrow> 's \<Rightarrow> 's call) \<Rightarrow> (nat \<times> bool list) list \<Rightarrow> 's \<times> Message list \<Rightarrow> 's \<times> Message list"
where
  "Kafka_sessions kc queue get put topic grp handler [] st = st"
| "Kafka_sessions kc queue get put topic grp handler ((lives, cs) # css) st =
     Kafka_sessions kc queue get put topic grp handler css
       (snd (Kafka_Consume kc (below queue) (below get) (set_below put) topic grp (recorded lives handler) cs st))"

lemma sessions_fetched:
  assumes doc: "kafka_documented kc V" and lens: "\<forall>k s. get (put k s) = k"
    and handler: "\<forall>msg s e s'. handler msg s = Done (e, s') \<longrightarrow> offsets_kept V (get s) (get s')"
    and "Kafka_sessions kc queue get put topic grp handler css (s, tr) = (s', tr')"
  shows "\<exists>ms. tr' = tr @ map fetched_message ms \<and>
    fetched_above (kv_committed V (get s) topic grp) (kv_committed V (get s') topic grp) ms"
  using assms(4)
proof (induction css arbitrary: s tr)
  case Nil
  then show ?case
    by (simp add: fetched_above_def)
next
  case (Cons life css)
  obtain lives cs where life: "life = (lives, cs)"
    by fastforce
  obtain rd k where new: "kc_NewReader kc \<lparr>rd_Brokers = kf_brokers (queue s), rd_Topic = topic, rd_GroupID = grp\<rparr> (get s)
      = (rd, k)"
    by fastforce
  have "starts_at_commit kc V" and closes: "closes_keep_offsets kc V"
    using doc by (simp_all add: kafka_documented_def)
  from this(1) [unfolded starts_at_commit_def, rule_format,
      of "\<lparr>rd_Brokers = kf_brokers (queue s), rd_Topic = topic, rd_GroupID = grp\<rparr>" "get s", unfolded new prod.case]
  have com: "rd_committed V rd j = kv_committed V j topic grp" for j
    by (simp add: rd_committed_def)
  have start: "kv_committed V k = kv_committed V (get s)" "kv_position V rd k = rd_committed V rd k"
    using \<open>kv_source V rd = _ \<and> _\<close> by (simp_all add: rd_committed_def)
  obtain st s1 tr1 where run: "Kafka_loop kc rd (below get) (set_below put) (recorded lives handler) cs (put k s, tr)
      = (st, (s1, tr1))"
    by (metis prod_cases3)
  obtain ms where ms: "tr1 = tr @ map fetched_message ms"
    "fetched_above (kv_committed V (get s) topic grp) (kv_committed V (get s1) topic grp) ms"
    using loop_fetched [OF doc lens handler _ run] lens start by (auto simp: com)
  obtain s2 where s2: "snd (Kafka_Consume kc (below queue) (below get) (set_below put) topic grp (recorded lives handler) cs
      (s, tr)) = (s2, tr1)" and "kv_committed V (get s2) = kv_committed V (get s1)"
    using run new closes lens
    by (cases st) (auto simp: Kafka_Consume_def closes_keep_offsets_def)
  then obtain ns where "tr' = tr1 @ map fetched_message ns"
    "fetched_above (kv_committed V (get s1) topic grp) (kv_committed V (get s') topic grp) ns"
    using Cons.IH [of s2 tr1] Cons.prems by (auto simp: life)
  then show ?case
    using fetched_above_trans [OF ms(2)] ms(1) by (intro exI [of _ "ms @ ns"]) auto
qed

end
