(* ===== verification/KafkaRun.thy ===== *)
theory KafkaRun
  imports Scheduler Kafka
begin

text \<open>
  The dispatcher of the scheduler on the Kafka queue: what the group's committed offsets say after
  any number of restarts, and what becomes of a message whose handler failed.
\<close>

section \<open>The scheduler on Kafka\<close>

definition set_cluster :: "'k \<Rightarrow> (Kafka \<times> 'k) world \<Rightarrow> (Kafka \<times> 'k) world" where
  "set_cluster k s = s\<lparr>wd_queue := (fst (wd_queue s), k)\<rparr>"

definition Kafka_dispatch ::
  "('rd, 'k) kafka_client \<Rightarrow> dispatch_config \<Rightarrow> (nat \<Rightarrow> InferenceRequest \<Rightarrow> string + InferenceResponse)
     \<Rightarrow> bool list \<Rightarrow> (Kafka \<times> 'k) world \<Rightarrow> consume_status \<times> (Kafka \<times> 'k) world"
where
  "Kafka_dispatch kc d predict cs s =
     Kafka_Consume kc (\<lambda>s. fst (wd_queue s)) (\<lambda>s. snd (wd_queue s)) set_cluster (d_JobsTopic d) ''scheduler''
       (Dispatcher_on_message (Kafka_ops kc) d predict) cs s"

text \<open>The scheduler killed and started again, with a record of the messages handled.\<close>

definition Kafka_restarts ::
  "('rd, 'k) kafka_client \<Rightarrow> dispatch_config \<Rightarrow> (nat \<Rightarrow> InferenceRequest \<Rightarrow> string + InferenceResponse)
     \<Rightarrow> (nat \<times> bool list) list \<Rightarrow> (Kafka \<times> 'k) world \<Rightarrow> (Kafka \<times> 'k) world \<times> Message list"
where
  "Kafka_restarts kc d predict css s =
     Kafka_sessions kc (\<lambda>s. fst (wd_queue s)) (\<lambda>s. snd (wd_queue s)) set_cluster (d_JobsTopic d) ''scheduler''
       (Dispatcher_on_message (Kafka_ops kc) d predict) css (s, [])"

lemma set_cluster_parts [simp]: "wd_queue (set_cluster k s) = (fst (wd_queue s), k)"
  by (simp add: set_cluster_def)

lemma dispatch_keeps_offsets:
  assumes doc: "kafka_documented kc V" and run: "Dispatcher_on_message (Kafka_ops kc) d predict msg s = Done (e, s')"
  shows "offsets_kept V (snd (wd_queue s)) (snd (wd_queue s'))"
proof -
  have w: "offsets_kept V k (snd (kc_WriteMessages kc w ms k))" for w ms k
    using doc by (simp add: kafka_documented_def writes_keep_offsets_def)
  have "kc_WriteMessages kc w ms k = (e, k') \<Longrightarrow> offsets_kept V k k'" for w ms k e k'
    using w [of k w ms] by simp
  then have "q_Enqueue (Kafka_ops kc) t b q = Done (e, q') \<Longrightarrow> offsets_kept V (snd q) (snd q')"
    and "q_DeadLetter (Kafka_ops kc) t b r q = Done (e, q') \<Longrightarrow> offsets_kept V (snd q) (snd q')" for t b r q e q'
    by (auto simp: Kafka_ops_def Kafka_Enqueue_def Kafka_DeadLetter_def Let_def split: prod.splits)
  moreover have "offsets_kept V k k" for k
    by (simp add: offsets_kept_def)
  ultimately show ?thesis
    using on_message_queue [OF run] by metis
qed

lemma restarts_fetched:
  assumes doc: "kafka_documented kc V" and "Kafka_restarts kc d predict css s = (s', handled)"
  shows "\<exists>ms. handled = map fetched_message ms \<and>
    fetched_above (kv_committed V (snd (wd_queue s)) (d_JobsTopic d) ''scheduler'')
      (kv_committed V (snd (wd_queue s')) (d_JobsTopic d) ''scheduler'') ms"
  using sessions_fetched [OF doc _ _ assms(2) [unfolded Kafka_restarts_def]] dispatch_keeps_offsets [OF doc] by simp

section \<open>Writers\<close>

text \<open>Each topic has one writer, made at its first use.\<close>

lemma writerFor_cached:
  "fst (writerFor t (snd (writerFor t k))) = fst (writerFor t k)"
  "snd (writerFor t (snd (writerFor t k))) = snd (writerFor t k)"
  by (auto simp: writerFor_def Let_def update_conv' split: option.splits)

lemma writerFor_distinct:
  "distinct (map fst (kf_writers k)) \<Longrightarrow> distinct (map fst (kf_writers (snd (writerFor t k))))"
  by (auto simp: writerFor_def Let_def distinct_update split: option.splits)

lemma writerFor_topic:
  "\<forall>(u, w) \<in> set (kf_writers k). kw_Topic w = u \<Longrightarrow> kw_Topic (fst (writerFor t k)) = t"
  by (auto simp: writerFor_def Let_def dest: map_of_SomeD split: option.splits)

section \<open>A concrete cluster\<close>

text \<open>One partition per topic; a reader's position is kept with the cluster.\<close>

record demo_kafka =
  dk_logs :: "string \<Rightarrow> body list"
  dk_committed :: "string \<Rightarrow> string \<Rightarrow> nat"
  dk_position :: "string \<Rightarrow> string \<Rightarrow> nat"

definition demo_log :: "demo_kafka \<Rightarrow> string \<Rightarrow> int \<Rightarrow> KafkaMessage list" where
  "demo_log k t p = (if p = 0 then map (\<lambda>i. \<lparr>km_Partition = 0, km_Offset = i, km_Key = [], km_Value = dk_logs k t ! i,
     km_Headers = []\<rparr>) [0..<length (dk_logs k t)] else [])"

definition demo_kafka_view :: "(string \<times> string, demo_kafka) kafka_view" where
  "demo_kafka_view = \<lparr>kv_log = demo_log, kv_committed = (\<lambda>k t g p. if p = 0 then dk_committed k t g else 0),
     kv_source = (\<lambda>rd. rd), kv_position = (\<lambda>rd k p. if p = 0 then dk_position k (fst rd) (snd rd) else 0)\<rparr>"

definition demo_kafka_fetch :: "string \<times> string \<Rightarrow> demo_kafka \<Rightarrow> (string + KafkaMessage) \<times> demo_kafka" where
  "demo_kafka_fetch rd k =
     (let t = fst rd; i = dk_position k t (snd rd) in
      if i < length (dk_logs k t)
      then (Inr (demo_log k t 0 ! i), k\<lparr>dk_position := (dk_position k)(t := (dk_position k t)(snd rd := i + 1))\<rparr>)
      else (Inl ''context deadline exceeded'', k))"

text \<open>\<open>down\<close> are the topics that cannot be written.\<close>

definition demo_kafka_client :: "string set \<Rightarrow> (string \<times> string, demo_kafka) kafka_client" where
  "demo_kafka_client down =
     \<lparr>kc_WriteMessages = (\<lambda>w ms k. if kw_Topic w \<in> down then (Some ''unavailable'', k)
        else (None, k\<lparr>dk_logs := (dk_logs k)(kw_Topic w := dk_logs k (kw_Topic w) @ map km_Value ms)\<rparr>)),
      kc_CloseWriter = (\<lambda>w k. (None, k)),
      kc_NewReader = (\<lambda>cfg k. let t = rd_Topic cfg; g = rd_GroupID cfg in
        ((t, g), k\<lparr>dk_position := (dk_position k)(t := (dk_position k t)(g := dk_committed k t g))\<rparr>)),
      kc_FetchMessage = demo_kafka_fetch,
      kc_CommitMessages = (\<lambda>rd ms k. if km_Partition (hd ms) = 0
        then (None, k\<lparr>dk_committed := (dk_committed k)(fst rd := (dk_committed k (fst rd))(snd rd := km_Offset (hd ms) + 1))\<rparr>)
        else (Some ''unknown partition'', k)),
      kc_CloseReader = (\<lambda>rd k. (None, k))\<rparr>"

definition demo_kafka_world :: "body list \<Rightarrow> (Kafka \<times> demo_kafka) world" where
  "demo_kafka_world bs =
     \<lparr>wd_queue = (NewKafka ''localhost:9092'',
        \<lparr>dk_logs = (\<lambda>t. if t = ''jobs'' then bs else []), dk_committed = (\<lambda>t g. 0), dk_position = (\<lambda>t g. 0)\<rparr>),
      wd_metrics = \<lparr>Processed = 0, Failed = 0, Retried = 0, DeadLettered = 0\<rparr>, wd_sleeps = [], wd_calls = []\<rparr>"

lemma demo_kafka_documented: "kafka_documented (demo_kafka_client down) demo_kafka_view"
proof -
  have "writes_keep_offsets (demo_kafka_client down) demo_kafka_view"
    by (auto simp: writes_keep_offsets_def demo_kafka_client_def demo_kafka_view_def offsets_kept_def fun_eq_iff)
  moreover have "starts_at_commit (demo_kafka_client down) demo_kafka_view"
    by (auto simp: starts_at_commit_def demo_kafka_client_def demo_kafka_view_def rd_committed_def Let_def fun_eq_iff)
  moreover have "fetches_next (demo_kafka_client down) demo_kafka_view"
    by (auto simp: fetches_next_def demo_kafka_client_def demo_kafka_fetch_def demo_kafka_view_def demo_log_def
        resumed_def Let_def fun_eq_iff)
  moreover have "commits_offset (demo_kafka_client down) demo_kafka_view"
    by (auto simp: commits_offset_def demo_kafka_client_def demo_kafka_view_def rd_committed_def fun_eq_iff)
  moreover have "closes_keep_offsets (demo_kafka_client down) demo_kafka_view"
    by (auto simp: closes_keep_offsets_def demo_kafka_client_def demo_kafka_view_def)
  ultimately show ?thesis
    by (simp add: kafka_documented_def)
qed

section \<open>Properties\<close>

text \<open>C11: on Kafka, over any number of restarts: the messages handled lie at or above the offset
  committed at the start, and the committed offset of a partition only grows, and only to right behind a
  message that was handled. So a process that dies loses no message (its successor resumes at the
  commit), and what lies below the commit is never handed out again.\<close>

theorem kafka_commits_follow_handling:
  assumes "kafka_documented kc V" and "Kafka_restarts kc d predict lives s = (s', handled)"
  defines "committed \<equiv> \<lambda>s. kv_committed V (snd (wd_queue s)) (d_JobsTopic d) ''scheduler''"
  shows "\<exists>ms. handled = map fetched_message ms
    \<and> list_all (\<lambda>m. committed s (km_Partition m) \<le> km_Offset m) ms
    \<and> (\<forall>p. committed s p \<le> committed s' p
        \<and> (committed s' p = committed s p
           \<or> list_ex (\<lambda>m. km_Partition m = p \<and> committed s' p = km_Offset m + 1) ms))"
  using restarts_fetched [OF assms(1,2)] unfolding committed_def fetched_above_def list_all_iff list_ex_iff .

theorem kafka_commits_follow_handling_witness:
  "\<exists>ms. snd (Kafka_restarts (demo_kafka_client {}) demo_dispatch (\<lambda>n req. Inl ''down'') [(1, [False, False]), (9, [False])]
      (demo_kafka_world [Malformed, Malformed])) = map fetched_message ms \<and> length ms = 2"
proof -
  let ?run = "Kafka_restarts (demo_kafka_client {}) demo_dispatch (\<lambda>n req. Inl ''down'') [(1, [False, False]), (9, [False])]
      (demo_kafka_world [Malformed, Malformed])"
  have "length (snd ?run) = 2"
    by (simp add: Kafka_restarts_def Kafka_Consume_def demo_kafka_client_def demo_kafka_world_def demo_kafka_fetch_def
        Let_def recorded_def Dispatcher_on_message_def fetched_message_def demo_log_def below_def set_below_def
        set_cluster_def NewKafka_def)
  moreover obtain ms where "snd ?run = map fetched_message ms"
    using kafka_commits_follow_handling [OF demo_kafka_documented prod.collapse [of ?run, symmetric]] by blast
  ultimately show ?thesis
    by (metis length_map)
qed

text \<open>C12: on Kafka a message whose handler failed is not redelivered once a later message of its partition
  has been handled and committed: the loop goes on behind it, and no restart or rebalance ever
  hands it out again.\<close>

theorem kafka_skips_failed_message:
  assumes "kafka_documented kc V" and "kv_source V rd = (d_JobsTopic d, ''scheduler'')"
    and fetch1: "kc_FetchMessage kc rd (snd (wd_queue s)) = (Inr m1, k1)"
    and failed: "Dispatcher_on_message (Kafka_ops kc) d predict (fetched_message m1) (set_cluster k1 s) = Done (Some err, s1)"
    and fetch2: "kc_FetchMessage kc rd (snd (wd_queue s1)) = (Inr m2, k2)"
    and handled: "Dispatcher_on_message (Kafka_ops kc) d predict (fetched_message m2) (set_cluster k2 s1) = Done (None, s2)"
    and commit: "kc_CommitMessages kc rd [m2] (snd (wd_queue s2)) = (None, k3)"
    and later: "km_Partition m1 = km_Partition m2" "km_Offset m1 < km_Offset m2"
    and "Kafka_restarts kc d predict lives (set_cluster k3 s2) = (s', redelivered)"
  shows "Kafka_loop kc rd (\<lambda>s. snd (wd_queue s)) set_cluster (Dispatcher_on_message (Kafka_ops kc) d predict)
      [False, False] s = (Running, set_cluster k3 s2)
    \<and> (\<exists>ms. redelivered = map fetched_message ms \<and> m1 \<notin> set ms)"
proof -
  have "commits_offset kc V"
    using assms(1) by (simp add: kafka_documented_def)
  from this [unfolded commits_offset_def, rule_format, where rd = rd and m = m2 and k = "snd (wd_queue s2)"]
  have "kv_committed V k3 (d_JobsTopic d) ''scheduler'' (km_Partition m2) = km_Offset m2 + 1"
    using assms(2) commit by (simp add: rd_committed_def)
  moreover obtain ms where ms: "redelivered = map fetched_message ms"
    and "fetched_above (kv_committed V k3 (d_JobsTopic d) ''scheduler'')
      (kv_committed V (snd (wd_queue s')) (d_JobsTopic d) ''scheduler'') ms"
    using restarts_fetched [OF assms(1,10)] by auto
  ultimately have "m1 \<notin> set ms"
    using fetched_aboveD(1) [of _ _ ms m1] later by fastforce
  then show ?thesis
    using ms fetch1 failed fetch2 handled commit by (auto simp: set_cluster_def)
qed

theorem kafka_skips_failed_message_witness:
  "\<exists>s1 s2 s' redelivered ms. Kafka_loop (demo_kafka_client {''jobs.dlq''}) (''jobs'', ''scheduler'') (\<lambda>s. snd (wd_queue s)) set_cluster
      (Dispatcher_on_message (Kafka_ops (demo_kafka_client {''jobs.dlq''})) demo_dispatch (\<lambda>n req. Inl ''down''))
      [False, False] (demo_kafka_world [marshal_job (demo_job\<lparr>job_MaxAttempts := 1\<rparr>), Malformed]) = (Running, s2)
    \<and> Kafka_restarts (demo_kafka_client {''jobs.dlq''}) demo_dispatch (\<lambda>n req. Inl ''down'') [(9, [False, False])] s2
      = (s', redelivered)
    \<and> redelivered = map fetched_message ms
    \<and> \<lparr>km_Partition = 0, km_Offset = 0, km_Key = [], km_Value = marshal_job (demo_job\<lparr>job_MaxAttempts := 1\<rparr>), km_Headers = []\<rparr>
        \<notin> set ms"
proof -
  let ?kc = "demo_kafka_client {''jobs.dlq''}" and ?rd = "(''jobs'', ''scheduler'')" and ?predict = "\<lambda>n req. Inl ''down''"
  let ?j = "demo_job\<lparr>job_MaxAttempts := 1\<rparr>"
  let ?s = "demo_kafka_world [marshal_job ?j, Malformed]"
  let ?m = "\<lambda>i b. \<lparr>km_Partition = 0, km_Offset = i, km_Key = [], km_Value = b, km_Headers = []\<rparr>"
  let ?at = "\<lambda>i k. k\<lparr>dk_position := (dk_position k)(''jobs'' := (dk_position k ''jobs'')(''scheduler'' := i))\<rparr>"
  let ?k1 = "?at 1 (snd (wd_queue ?s))"
  have fetch1: "kc_FetchMessage ?kc ?rd (snd (wd_queue ?s)) = (Inr (?m 0 (marshal_job ?j)), ?k1)"
    by (simp add: demo_kafka_client_def demo_kafka_fetch_def demo_kafka_world_def demo_log_def Let_def)
  have job: "unmarshal_job (marshal_job ?j) = Some ?j" "exhausted ?j"
    by (simp_all add: unmarshal_marshal_job demo_job_def job_marshals_def time_ok_def is_finite_def exhausted_def)
  obtain s1 where s1: "Dispatcher_on_message (Kafka_ops ?kc) demo_dispatch ?predict (fetched_message (?m 0 (marshal_job ?j)))
      (set_cluster ?k1 ?s) = Done (Some ''unavailable'', s1)" and k1: "snd (wd_queue s1) = ?k1"
    using job
    by (simp add: Dispatcher_on_message_def Dispatcher_handle_def fetched_message_def Let_def exhausted_def Kafka_ops_def
        Kafka_DeadLetter_def demo_kafka_client_def writerFor_def demo_kafka_world_def NewKafka_def)
  have fetch2: "kc_FetchMessage ?kc ?rd (snd (wd_queue s1)) = (Inr (?m 1 Malformed), ?at (Suc 1) ?k1)"
    unfolding k1 by (simp add: demo_kafka_client_def demo_kafka_fetch_def demo_kafka_world_def demo_log_def Let_def)
  have s2: "Dispatcher_on_message (Kafka_ops ?kc) demo_dispatch ?predict (fetched_message (?m 1 Malformed))
      (set_cluster (?at (Suc 1) ?k1) s1) = Done (None, set_cluster (?at (Suc 1) ?k1) s1)"
    by (simp add: Dispatcher_on_message_def fetched_message_def)
  obtain k3 where commit: "kc_CommitMessages ?kc ?rd [?m 1 Malformed] (snd (wd_queue (set_cluster (?at (Suc 1) ?k1) s1))) = (None, k3)"
    by (simp add: demo_kafka_client_def)
  show ?thesis
    using kafka_skips_failed_message [where d = demo_dispatch and predict = ?predict and lives = "[(9, [False, False])]",
        OF demo_kafka_documented _ fetch1 s1 fetch2 s2 commit _ _ prod.collapse [symmetric]]
    by (fastforce simp: demo_kafka_view_def intro: prod.collapse [symmetric])
qed

end
