(* ===== verification/ModelRegistry.thy ===== *)
theory ModelRegistry
  imports Json
begin

text \<open>
  The model registry, \<open>services/model-deployer-go/internal/registry/registry.go\<close>, over the two
  tables of \<open>internal/db/schema.sql\<close>. Each SQL statement of the source is translated to a
  function on the tables; a table is the list of its rows in the order a scan meets them.

  What the database connection does is an argument: \<open>fails c n\<close> is the error of the \<open>n\<close>-th
  call of the operation (\<open>None\<close>: the statement runs), and a commit may be carried out, be
  refused, or be carried out although its answer is lost. The operations here run one at a time.
\<close>

section \<open>The tables\<close>

record version_row =
  row_model_name :: string
  row_version :: string
  row_stage :: string
  row_precision :: string
  row_artifact_path :: string
  row_metrics :: json
  row_traffic_pct :: int
  row_created_at :: instant

record event_row =
  ev_model_name :: string
  ev_version :: string
  ev_action :: string
  ev_reason :: string
  ev_created_at :: instant

text \<open>The events are listed in the order of their serial ids, which are left out.\<close>

record db =
  model_versions :: "version_row list"
  deployment_events :: "event_row list"

datatype commit_result = Committed | CommitRefused string | CommitLost string

record db_calls =
  fails :: "nat \<Rightarrow> string option"
  commits :: commit_result
  db_now :: instant

datatype registry_error = ErrNotFound | DbError string | MarshalError

section \<open>SQL\<close>

text \<open>\<open>UPDATE model_versions SET f WHERE p\<close>, with the number of rows affected.\<close>

definition sql_update ::
  "(version_row \<Rightarrow> version_row) \<Rightarrow> (version_row \<Rightarrow> bool) \<Rightarrow> db \<Rightarrow> db \<times> nat"
where
  "sql_update f p d =
     (d\<lparr>model_versions := map (\<lambda>r. if p r then f r else r) (model_versions d)\<rparr>,
      length (filter p (model_versions d)))"

definition is_version :: "string \<Rightarrow> string \<Rightarrow> version_row \<Rightarrow> bool" where
  "is_version m v r \<longleftrightarrow> row_model_name r = m \<and> row_version r = v"

definition in_stage :: "string \<Rightarrow> string \<Rightarrow> version_row \<Rightarrow> bool" where
  "in_stage m st r \<longleftrightarrow> row_model_name r = m \<and> row_stage r = st"

definition archive_production :: "string \<Rightarrow> db \<Rightarrow> db \<times> nat" where
  "archive_production m =
     sql_update (\<lambda>r. r\<lparr>row_stage := StageArchived, row_traffic_pct := 0\<rparr>) (in_stage m StageProduction)"

definition promote_version :: "string \<Rightarrow> string \<Rightarrow> db \<Rightarrow> db \<times> nat" where
  "promote_version m v =
     sql_update (\<lambda>r. r\<lparr>row_stage := StageProduction, row_traffic_pct := 100\<rparr>) (is_version m v)"

definition insert_event :: "instant \<Rightarrow> string \<Rightarrow> string \<Rightarrow> string \<Rightarrow> string \<Rightarrow> db \<Rightarrow> db" where
  "insert_event now m v action reason d =
     d\<lparr>deployment_events := deployment_events d @
        [\<lparr>ev_model_name = m, ev_version = v, ev_action = action, ev_reason = reason, ev_created_at = now\<rparr>]\<rparr>"

text \<open>\<open>ORDER BY created_at DESC\<close>\<close>

definition newest_first :: "version_row list \<Rightarrow> version_row list" where
  "newest_first = sort_key (\<lambda>r. - row_created_at r)"

definition newest_archived :: "string \<Rightarrow> db \<Rightarrow> string option" where
  "newest_archived m d =
     (case newest_first (filter (in_stage m StageArchived) (model_versions d)) of
        [] \<Rightarrow> None
      | r # _ \<Rightarrow> Some (row_version r))"

text \<open>\<open>INSERT ... ON CONFLICT (model_name, version) DO UPDATE\<close>: a new row is created now, an
  existing one keeps its creation time.\<close>

definition upsert_version :: "instant \<Rightarrow> version_row \<Rightarrow> db \<Rightarrow> db" where
  "upsert_version now new d =
     (let same = is_version (row_model_name new) (row_version new) in
      if \<exists>r \<in> set (model_versions d). same r
      then fst (sql_update (\<lambda>r. new\<lparr>row_created_at := row_created_at r\<rparr>) same d)
      else d\<lparr>model_versions := model_versions d @ [new\<lparr>row_created_at := now\<rparr>]\<rparr>)"

section \<open>Going to the database and back\<close>

text \<open>The metrics column: a nil map is \<open>null\<close>; keys are written in increasing order.\<close>

definition metrics_json :: "(string, flt) gomap \<Rightarrow> json" where
  "metrics_json m = (if m = [] then JNull else JObj (map (\<lambda>(k, x). (k, JFlt x)) (sort_key fst m)))"

definition marshal_metrics :: "(string, flt) gomap \<Rightarrow> json option" where
  "marshal_metrics m = (if \<forall>(k, x) \<in> set m. is_finite x then Some (metrics_json m) else None)"

text \<open>A Go int that does not fit the \<open>INT\<close> column is an error of the driver.\<close>

definition fits_int4 :: "go_int \<Rightarrow> bool" where
  "fits_int4 n \<longleftrightarrow> - (2 ^ 31) \<le> sint n \<and> sint n < 2 ^ 31"

definition scanVersion :: "version_row \<Rightarrow> ModelVersion" where
  "scanVersion r =
     \<lparr>mv_ModelName = row_model_name r, mv_Version = row_version r, mv_Stage = row_stage r,
      mv_Precision = row_precision r, mv_ArtifactPath = row_artifact_path r,
      mv_Metrics = fst (dec_map dec_f64 flt_zero (row_metrics r) []),
      mv_TrafficPct = word_of_int (row_traffic_pct r), mv_CreatedAt = row_created_at r\<rparr>"

section \<open>The operations\<close>

text \<open>\<open>tx.Commit\<close>, and the end of a statement that \<open>pool.Exec\<close> runs in a transaction of its own:
  \<open>d\<close> is the state outside the transaction, \<open>t\<close> the one inside.\<close>

definition tx_commit :: "db_calls \<Rightarrow> 'a \<Rightarrow> db \<Rightarrow> db \<Rightarrow> (registry_error + 'a) \<times> db" where
  "tx_commit c x d t =
     (case commits c of
        Committed \<Rightarrow> (Inr x, t)
      | CommitRefused err \<Rightarrow> (Inl (DbError err), d)
      | CommitLost err \<Rightarrow> (Inl (DbError err), t))"

definition ModelRegistry_Register ::
  "ModelVersion \<Rightarrow> db_calls \<Rightarrow> db \<Rightarrow> (registry_error + unit) \<times> db"
where
  "ModelRegistry_Register mv0 c d =
     (case marshal_metrics (mv_Metrics mv0) of
        None \<Rightarrow> (Inl MarshalError, d)
      | Some metricsJSON \<Rightarrow>
          (let mv = (if mv_Stage mv0 = [] then mv0\<lparr>mv_Stage := StageStaging\<rparr> else mv0);
               row = \<lparr>row_model_name = mv_ModelName mv, row_version = mv_Version mv, row_stage = mv_Stage mv,
                      row_precision = mv_Precision mv, row_artifact_path = mv_ArtifactPath mv,
                      row_metrics = metricsJSON, row_traffic_pct = sint (mv_TrafficPct mv),
                      row_created_at = db_now c\<rparr>
           in if \<not> fits_int4 (mv_TrafficPct mv) then (Inl (DbError ''int4''), d)
              else case fails c 0 of
                     Some err \<Rightarrow> (Inl (DbError err), d)
                   | None \<Rightarrow> tx_commit c () d (upsert_version (db_now c) row d)))"

definition ModelRegistry_Deploy ::
  "string \<Rightarrow> string \<Rightarrow> string \<Rightarrow> db_calls \<Rightarrow> db \<Rightarrow> (registry_error + unit) \<times> db"
where
  "ModelRegistry_Deploy m v reason c d =
     (case fails c 0 of Some err \<Rightarrow> (Inl (DbError err), d) | None \<Rightarrow>
      let (t1, _) = archive_production m d in
      case fails c 1 of Some err \<Rightarrow> (Inl (DbError err), d) | None \<Rightarrow>
      let (t2, affected) = promote_version m v t1 in
      case fails c 2 of Some err \<Rightarrow> (Inl (DbError err), d) | None \<Rightarrow>
      if affected = 0 then (Inl ErrNotFound, d)
      else let t3 = insert_event (db_now c) m v ''deploy'' reason t2 in
           case fails c 3 of Some err \<Rightarrow> (Inl (DbError err), d) | None \<Rightarrow> tx_commit c () d t3)"

definition ModelRegistry_Rollback ::
  "string \<Rightarrow> string \<Rightarrow> db_calls \<Rightarrow> db \<Rightarrow> (registry_error + string) \<times> db"
where
  "ModelRegistry_Rollback m reason c d =
     (case fails c 0 of Some err \<Rightarrow> (Inl (DbError err), d) | None \<Rightarrow>
      case fails c 1 of Some err \<Rightarrow> (Inl (DbError err), d) | None \<Rightarrow>
      case newest_archived m d of
        None \<Rightarrow> (Inl ErrNotFound, d)
      | Some prevVersion \<Rightarrow>
          let (t1, _) = archive_production m d in
          case fails c 2 of Some err \<Rightarrow> (Inl (DbError err), d) | None \<Rightarrow>
          let (t2, _) = promote_version m prevVersion t1 in
          case fails c 3 of Some err \<Rightarrow> (Inl (DbError err), d) | None \<Rightarrow>
          let t3 = insert_event (db_now c) m prevVersion ''rollback'' reason t2 in
          case fails c 4 of Some err \<Rightarrow> (Inl (DbError err), d) | None \<Rightarrow> tx_commit c prevVersion d t3)"

definition ModelRegistry_SetTraffic ::
  "string \<Rightarrow> string \<Rightarrow> go_int \<Rightarrow> db_calls \<Rightarrow> db \<Rightarrow> (registry_error + unit) \<times> db"
where
  "ModelRegistry_SetTraffic m v pct c d =
     (if \<not> fits_int4 pct then (Inl (DbError ''int4''), d)
      else case fails c 0 of
             Some err \<Rightarrow> (Inl (DbError err), d)
           | None \<Rightarrow>
               (let (d', affected) = sql_update (\<lambda>r. r\<lparr>row_traffic_pct := sint pct\<rparr>) (is_version m v) d in
                case tx_commit c affected d d' of
                  (Inl e, d2) \<Rightarrow> (Inl e, d2)
                | (Inr n, d2) \<Rightarrow> if n = 0 then (Inl ErrNotFound, d2) else (Inr (), d2)))"

text \<open>The first row of the result, as \<open>pool.QueryRow\<close> and \<open>Scan\<close> read it.\<close>

definition ModelRegistry_queryOne :: "db_calls \<Rightarrow> version_row list \<Rightarrow> registry_error + ModelVersion" where
  "ModelRegistry_queryOne c rows =
     (case fails c 0 of
        Some err \<Rightarrow> Inl (DbError err)
      | None \<Rightarrow> (case rows of [] \<Rightarrow> Inl ErrNotFound | r # _ \<Rightarrow> Inr (scanVersion r)))"

definition ModelRegistry_Production :: "string \<Rightarrow> db_calls \<Rightarrow> db \<Rightarrow> registry_error + ModelVersion" where
  "ModelRegistry_Production m c d =
     ModelRegistry_queryOne c (filter (in_stage m StageProduction) (model_versions d))"

text \<open>\<open>fails c (n + 1)\<close> is the error met when reading row \<open>n\<close>, or after the last one.\<close>

fun list_rows :: "(nat \<Rightarrow> string option) \<Rightarrow> nat \<Rightarrow> version_row list \<Rightarrow> registry_error + ModelVersion list" where
  "list_rows fail n [] = (case fail n of Some err \<Rightarrow> Inl (DbError err) | None \<Rightarrow> Inr [])"
| "list_rows fail n (r # rs) =
     (case fail n of
        Some err \<Rightarrow> Inl (DbError err)
      | None \<Rightarrow> (case list_rows fail (Suc n) rs of Inl e \<Rightarrow> Inl e | Inr out \<Rightarrow> Inr (scanVersion r # out)))"

definition ModelRegistry_List :: "string \<Rightarrow> db_calls \<Rightarrow> db \<Rightarrow> registry_error + ModelVersion list" where
  "ModelRegistry_List m c d =
     (case fails c 0 of
        Some err \<Rightarrow> Inl (DbError err)
      | None \<Rightarrow> list_rows (fails c) 1 (newest_first (filter (\<lambda>r. row_model_name r = m) (model_versions d))))"

section \<open>What the operations promise\<close>

text \<open>
  The contract they share: an operation that succeeds had its effect; one that fails had none,
  unless it was carried out and the answer to its commit was lost.
\<close>

locale db_operation =
  fixes op :: "db_calls \<Rightarrow> db \<Rightarrow> (registry_error + 'a) \<times> db" and effect :: "db_calls \<Rightarrow> db \<Rightarrow> db"
  assumes applied: "op c d = (Inr x, d') \<Longrightarrow> d' = effect c d"
    and refused: "op c d = (Inl e, d') \<Longrightarrow>
      d' = d \<or> (\<exists>err. commits c = CommitLost err) \<and> d' = effect c d"
begin

lemma all_or_nothing: "snd (op c d) = d \<or> snd (op c d) = effect c d"
  by (cases "op c d"; cases "fst (op c d)") (auto dest: applied refused)

lemma keeps:
  assumes "P d" and "P (effect c d)"
  shows "P (snd (op c d))"
  using all_or_nothing [of c d] assms by auto

lemma failure_changes_nothing:
  assumes "op c d = (Inl e, d')" and "\<And>err. commits c \<noteq> CommitLost err"
  shows "d' = d"
  using refused [OF assms(1)] assms(2) by blast

end

text \<open>Deploy and Rollback make one version the production version of its model.\<close>

definition switch_production ::
  "string \<Rightarrow> string \<Rightarrow> string \<Rightarrow> string \<Rightarrow> instant \<Rightarrow> db \<Rightarrow> db"
where
  "switch_production m v action reason now d =
     \<lparr>model_versions = map (\<lambda>r. if is_version m v r then r\<lparr>row_stage := StageProduction, row_traffic_pct := 100\<rparr>
                            else if in_stage m StageProduction r then r\<lparr>row_stage := StageArchived, row_traffic_pct := 0\<rparr>
                            else r) (model_versions d),
      deployment_events = deployment_events d @
        [\<lparr>ev_model_name = m, ev_version = v, ev_action = action, ev_reason = reason, ev_created_at = now\<rparr>]\<rparr>"

definition has_version :: "string \<Rightarrow> string \<Rightarrow> db \<Rightarrow> bool" where
  "has_version m v d \<longleftrightarrow> (\<exists>r \<in> set (model_versions d). is_version m v r)"

definition deploy_effect :: "string \<Rightarrow> string \<Rightarrow> string \<Rightarrow> db_calls \<Rightarrow> db \<Rightarrow> db" where
  "deploy_effect m v reason c d =
     (if has_version m v d then switch_production m v ''deploy'' reason (db_now c) d else d)"

definition rollback_effect :: "string \<Rightarrow> string \<Rightarrow> db_calls \<Rightarrow> db \<Rightarrow> db" where
  "rollback_effect m reason c d =
     (case newest_archived m d of
        None \<Rightarrow> d
      | Some v \<Rightarrow> switch_production m v ''rollback'' reason (db_now c) d)"

definition traffic_effect :: "string \<Rightarrow> string \<Rightarrow> go_int \<Rightarrow> db_calls \<Rightarrow> db \<Rightarrow> db" where
  "traffic_effect m v pct c d =
     d\<lparr>model_versions := map (\<lambda>r. if is_version m v r then r\<lparr>row_traffic_pct := sint pct\<rparr> else r) (model_versions d)\<rparr>"

definition stage_or_staging :: "string \<Rightarrow> string" where
  "stage_or_staging st = (if st = [] then StageStaging else st)"

definition row_of :: "ModelVersion \<Rightarrow> instant \<Rightarrow> version_row" where
  "row_of mv now =
     \<lparr>row_model_name = mv_ModelName mv, row_version = mv_Version mv, row_stage = stage_or_staging (mv_Stage mv),
      row_precision = mv_Precision mv, row_artifact_path = mv_ArtifactPath mv,
      row_metrics = metrics_json (mv_Metrics mv), row_traffic_pct = sint (mv_TrafficPct mv), row_created_at = now\<rparr>"

definition register_effect :: "ModelVersion \<Rightarrow> db_calls \<Rightarrow> db \<Rightarrow> db" where
  "register_effect mv c d = upsert_version (db_now c) (row_of mv (db_now c)) d"

lemma promote_after_archive:
  "insert_event now m v action reason (fst (promote_version m v (fst (archive_production m d))))
     = switch_production m v action reason now d"
  by (auto simp: insert_event_def promote_version_def archive_production_def sql_update_def
      switch_production_def is_version_def in_stage_def)

lemma affected_0_iff: "snd (promote_version m v (fst (archive_production m d))) = 0 \<longleftrightarrow> \<not> has_version m v d"
  by (auto simp: promote_version_def archive_production_def sql_update_def has_version_def is_version_def
      filter_empty_conv)

text \<open>The operations by their effects: the shape of every call.\<close>

lemma Deploy_eq:
  "ModelRegistry_Deploy m v reason c d =
     (case find (\<lambda>n. fails c n \<noteq> None) (if has_version m v d then [0, 1, 2, 3] else [0, 1, 2]) of
        Some n \<Rightarrow> (Inl (DbError (the (fails c n))), d)
      | None \<Rightarrow> if has_version m v d then tx_commit c () d (deploy_effect m v reason c d) else (Inl ErrNotFound, d))"
  using affected_0_iff [of m v d]
  by (auto simp: ModelRegistry_Deploy_def deploy_effect_def promote_after_archive [symmetric]
      split: prod.split option.split)

lemma Rollback_eq:
  "ModelRegistry_Rollback m reason c d =
     (case find (\<lambda>n. fails c n \<noteq> None) (case newest_archived m d of None \<Rightarrow> [0, 1] | Some _ \<Rightarrow> [0, 1, 2, 3, 4]) of
        Some n \<Rightarrow> (Inl (DbError (the (fails c n))), d)
      | None \<Rightarrow> (case newest_archived m d of
                    None \<Rightarrow> (Inl ErrNotFound, d)
                  | Some v \<Rightarrow> tx_commit c v d (rollback_effect m reason c d)))"
  by (auto simp: ModelRegistry_Rollback_def rollback_effect_def promote_after_archive [symmetric]
      split: prod.split option.split)

lemma SetTraffic_eq:
  "ModelRegistry_SetTraffic m v pct c d =
     (if \<not> fits_int4 pct then (Inl (DbError ''int4''), d)
      else case fails c 0 of
             Some err \<Rightarrow> (Inl (DbError err), d)
           | None \<Rightarrow> (case tx_commit c () d (traffic_effect m v pct c d) of
                         (Inl e, d') \<Rightarrow> (Inl e, d')
                       | (Inr _, d') \<Rightarrow> (if has_version m v d then Inr () else Inl ErrNotFound, d')))"
  by (auto simp: ModelRegistry_SetTraffic_def sql_update_def traffic_effect_def tx_commit_def has_version_def
      filter_empty_conv Let_def split: option.split commit_result.split)

lemma Register_eq:
  "ModelRegistry_Register mv c d =
     (if \<not> (\<forall>(k, x) \<in> set (mv_Metrics mv). is_finite x) then (Inl MarshalError, d)
      else if \<not> fits_int4 (mv_TrafficPct mv) then (Inl (DbError ''int4''), d)
      else case fails c 0 of
             Some err \<Rightarrow> (Inl (DbError err), d)
           | None \<Rightarrow> tx_commit c () d (register_effect mv c d))"
  by (simp add: ModelRegistry_Register_def marshal_metrics_def register_effect_def row_of_def stage_or_staging_def
      Let_def split: option.split)

lemma tx_commit_Inr: "tx_commit c x d t = (Inr y, d') \<longleftrightarrow> commits c = Committed \<and> y = x \<and> d' = t"
  by (auto simp: tx_commit_def split: commit_result.split)

lemma tx_commit_Inl: "tx_commit c x d t = (Inl e, d') \<Longrightarrow>
    d' = d \<or> (\<exists>err. commits c = CommitLost err) \<and> d' = t"
  by (auto simp: tx_commit_def split: commit_result.splits)

lemma traffic_effect_missing: "\<not> has_version m v d \<Longrightarrow> traffic_effect m v pct c d = d"
  by (rule db.equality) (auto simp: traffic_effect_def has_version_def intro: map_idI)

interpretation deploy_op: db_operation "ModelRegistry_Deploy m v reason" "deploy_effect m v reason"
  by unfold_locales (auto simp: Deploy_eq tx_commit_Inr dest: tx_commit_Inl split: option.splits if_splits)

interpretation rollback_op: db_operation "ModelRegistry_Rollback m reason" "rollback_effect m reason"
  by unfold_locales (auto simp: Rollback_eq tx_commit_Inr dest: tx_commit_Inl split: option.splits if_splits)

interpretation traffic_op: db_operation "ModelRegistry_SetTraffic m v pct" "traffic_effect m v pct"
  by unfold_locales (auto simp: SetTraffic_eq tx_commit_Inr traffic_effect_missing dest: tx_commit_Inl
      split: option.splits if_splits prod.splits sum.splits)

interpretation register_op: db_operation "ModelRegistry_Register mv" "register_effect mv"
  by unfold_locales (auto simp: Register_eq tx_commit_Inr dest: tx_commit_Inl split: option.splits if_splits)
section \<open>The invariant of the tables\<close>

definition version_key :: "version_row \<Rightarrow> string \<times> string" where
  "version_key r = (row_model_name r, row_version r)"

definition one_production :: "db \<Rightarrow> bool" where
  "one_production d \<longleftrightarrow>
     (\<forall>r \<in> set (model_versions d). \<forall>r' \<in> set (model_versions d).
        row_stage r = StageProduction \<and> row_stage r' = StageProduction \<and> row_model_name r = row_model_name r'
          \<longrightarrow> row_version r = row_version r')"

definition row_ok :: "version_row \<Rightarrow> bool" where
  "row_ok r \<longleftrightarrow> row_stage r \<in> {StageStaging, StageProduction, StageArchived} \<and>
     0 \<le> row_traffic_pct r \<and> row_traffic_pct r \<le> 100"

definition last_event :: "string \<Rightarrow> db \<Rightarrow> event_row option" where
  "last_event m d = (case rev (filter (\<lambda>e. ev_model_name e = m) (deployment_events d)) of [] \<Rightarrow> None | e # _ \<Rightarrow> Some e)"

text \<open>A version in production was put there by the model's latest deployment event.\<close>

definition audited :: "db \<Rightarrow> bool" where
  "audited d \<longleftrightarrow>
     (\<forall>r \<in> set (model_versions d). row_stage r = StageProduction \<longrightarrow>
        (\<exists>e. last_event (row_model_name r) d = Some e \<and> ev_version e = row_version r))"

definition registry_ok :: "db \<Rightarrow> bool" where
  "registry_ok d \<longleftrightarrow> distinct (map version_key (model_versions d)) \<and> one_production d \<and>
     list_all row_ok (model_versions d) \<and> audited d"

lemma audited_one: "audited d \<Longrightarrow> one_production d"
  by (auto simp: audited_def one_production_def) (metis option.inject)

lemma registry_okI:
  "distinct (map version_key (model_versions d)) \<Longrightarrow> list_all row_ok (model_versions d) \<Longrightarrow> audited d
    \<Longrightarrow> registry_ok d"
  by (simp add: registry_ok_def audited_one)

lemma last_event_snoc [simp]:
  "last_event m (d\<lparr>deployment_events := es @ [e]\<rparr>)
     = (if ev_model_name e = m then Some e else last_event m (d\<lparr>deployment_events := es\<rparr>))"
  by (simp add: last_event_def)

lemma last_event_switch [simp]:
  "last_event n (switch_production m v action reason now d) =
     (if n = m then Some \<lparr>ev_model_name = m, ev_version = v, ev_action = action, ev_reason = reason, ev_created_at = now\<rparr>
      else last_event n d)"
  by (simp add: last_event_def switch_production_def)

lemma keys_switch [simp]:
  "map version_key (model_versions (switch_production m v action reason now d)) = map version_key (model_versions d)"
  by (auto simp: switch_production_def version_key_def)

lemma switch_ok [inv_intro]: "registry_ok d \<Longrightarrow> registry_ok (switch_production m v action reason now d)"
proof (rule registry_okI)
  assume ok: "registry_ok d"
  then show "distinct (map version_key (model_versions (switch_production m v action reason now d)))"
    by (simp add: registry_ok_def)
  show "list_all row_ok (model_versions (switch_production m v action reason now d))"
    using ok by (auto simp: registry_ok_def switch_production_def list_all_iff row_ok_def)
  show "audited (switch_production m v action reason now d)"
    unfolding audited_def
  proof (intro ballI impI)
    fix r assume "r \<in> set (model_versions (switch_production m v action reason now d))"
      and prod: "row_stage r = StageProduction"
    then obtain r0 where r0: "r0 \<in> set (model_versions d)"
      and r: "r = (if is_version m v r0 then r0\<lparr>row_stage := StageProduction, row_traffic_pct := 100\<rparr>
                   else if in_stage m StageProduction r0 then r0\<lparr>row_stage := StageArchived, row_traffic_pct := 0\<rparr>
                   else r0)"
      by (auto simp: switch_production_def)
    show "\<exists>e. last_event (row_model_name r) (switch_production m v action reason now d) = Some e
        \<and> ev_version e = row_version r"
    proof (cases "is_version m v r0")
      case True
      then show ?thesis
        by (simp add: r is_version_def)
    next
      case False
      then have "\<not> in_stage m StageProduction r0"
        using prod by (simp add: r split: if_splits)
      then have "r = r0" and "row_model_name r0 \<noteq> m"
        using False prod by (auto simp: r in_stage_def)
      then show ?thesis
        using ok r0 prod by (simp add: registry_ok_def audited_def)
    qed
  qed
qed

lemma deploy_effect_ok [inv_intro]: "registry_ok d \<Longrightarrow> registry_ok (deploy_effect m v reason c d)"
  by (simp add: deploy_effect_def switch_ok)

lemma rollback_effect_ok [inv_intro]: "registry_ok d \<Longrightarrow> registry_ok (rollback_effect m reason c d)"
  by (simp add: rollback_effect_def switch_ok split: option.split)

lemma traffic_effect_ok [inv_intro]:
  assumes "registry_ok d" and "0 \<le> sint pct" and "sint pct \<le> 100"
  shows "registry_ok (traffic_effect m v pct c d)"
proof (rule registry_okI)
  have "map version_key (model_versions (traffic_effect m v pct c d)) = map version_key (model_versions d)"
    by (auto simp: traffic_effect_def version_key_def)
  then show "distinct (map version_key (model_versions (traffic_effect m v pct c d)))"
    using assms(1) by (simp add: registry_ok_def)
  show "list_all row_ok (model_versions (traffic_effect m v pct c d))"
    using assms by (auto simp: registry_ok_def traffic_effect_def list_all_iff row_ok_def)
  show "audited (traffic_effect m v pct c d)"
    using assms(1) by (auto simp: registry_ok_def audited_def traffic_effect_def last_event_def split: if_splits)
qed

lemma upsert_keys:
  "map version_key (model_versions (upsert_version now new d)) =
     map version_key (model_versions d) @ (if has_version (row_model_name new) (row_version new) d then [] else [version_key new])"
  by (auto simp: upsert_version_def Let_def sql_update_def has_version_def version_key_def is_version_def)

lemma set_upsert:
  "r \<in> set (model_versions (upsert_version now new d)) \<Longrightarrow>
     r \<in> set (model_versions d) \<or> (\<exists>t. r = new\<lparr>row_created_at := t\<rparr>)"
  by (auto simp: upsert_version_def Let_def sql_update_def split: if_splits)

lemma events_upsert [simp]: "last_event m (upsert_version now new d) = last_event m d"
  by (simp add: upsert_version_def Let_def sql_update_def last_event_def)

lemma register_distinct:
  assumes "distinct (map version_key (model_versions d))"
  shows "distinct (map version_key (model_versions (register_effect mv c d)))"
proof -
  have "version_key (row_of mv (db_now c)) \<notin> set (map version_key (model_versions d))"
    if "\<not> has_version (row_model_name (row_of mv (db_now c))) (row_version (row_of mv (db_now c))) d"
    using that by (auto simp: has_version_def is_version_def version_key_def)
  then show ?thesis
    using assms by (simp add: register_effect_def upsert_keys del: set_map)
qed

lemma register_effect_ok [inv_intro]:
  assumes "registry_ok d" and "stage_or_staging (mv_Stage mv) = StageStaging"
    and "0 \<le> sint (mv_TrafficPct mv)" and "sint (mv_TrafficPct mv) \<le> 100"
  shows "registry_ok (register_effect mv c d)"
proof (rule registry_okI)
  have rows: "r \<in> set (model_versions d) \<or> (\<exists>t. r = (row_of mv (db_now c))\<lparr>row_created_at := t\<rparr>)"
    if "r \<in> set (model_versions (register_effect mv c d))" for r
    using set_upsert that by (simp add: register_effect_def)
  show "distinct (map version_key (model_versions (register_effect mv c d)))"
    using assms(1) by (simp add: register_distinct registry_ok_def)
  show "list_all row_ok (model_versions (register_effect mv c d))"
    using assms rows by (fastforce simp: list_all_iff registry_ok_def row_ok_def row_of_def)
  show "audited (register_effect mv c d)"
    unfolding audited_def
  proof (intro ballI impI)
    fix r assume r: "r \<in> set (model_versions (register_effect mv c d))" "row_stage r = StageProduction"
    have "r \<in> set (model_versions d)"
      using rows [OF r(1)] r(2) assms(2) by (auto simp: row_of_def)
    then show "\<exists>e. last_event (row_model_name r) (register_effect mv c d) = Some e \<and> ev_version e = row_version r"
      using assms(1) r(2) by (simp add: registry_ok_def audited_def register_effect_def)
  qed
qed

end
