(* ===== verification/Transactions.thy ===== *)
theory Transactions
  imports ModelRegistry
begin

text \<open>
  The registry's four writing operations as PostgreSQL runs them when requests arrive at the same time:
  each in a transaction of its own at the default isolation level, READ COMMITTED. A statement sees what
  was committed when it began and the transaction's own writes. An \<open>UPDATE\<close> finds its rows then, and visits
  them one after the other: it waits for a row that another open transaction has locked, and once it has
  the row it looks again, at the row's newest committed version, whether the condition still holds; rows that others
  put there since it began are not found. \<open>INSERT ... ON CONFLICT\<close> waits for the key and updates the newest version.
  A transaction is the list of what it has yet to do, with what it has written and locked; transactions
  take their steps in any order, and any of them can be given up at any time (a failing connection, a
  deadlock, a cancelled request) or be committed without an answer.

  Left out: the serial ids of the events (the rows a transaction adds are put at the end of their table
  when it commits), and the moment at which a row is read within a statement that only reads.

  The last part is about a transaction with nobody else at work: it carries out the operation of
  \<open>ModelRegistry\<close>.
\<close>

section \<open>Requests\<close>

datatype registry_request =
    RegisterVersion ModelVersion
  | DeployVersion string string string
  | RollbackModel string string
  | SplitTraffic string string go_int

fun request_model :: "registry_request \<Rightarrow> string" where
  "request_model (RegisterVersion mv) = mv_ModelName mv"
| "request_model (DeployVersion m v reason) = m"
| "request_model (RollbackModel m reason) = m"
| "request_model (SplitTraffic m v pct) = m"

text \<open>The answer is an error, or done: with the version a rollback went back to.\<close>

type_synonym answer = "registry_error + string option"

fun perform :: "registry_request \<Rightarrow> db_calls \<Rightarrow> db \<Rightarrow> answer \<times> db" where
  "perform (RegisterVersion mv) c d = apfst (map_sum id (\<lambda>_. None)) (ModelRegistry_Register mv c d)"
| "perform (DeployVersion m v reason) c d = apfst (map_sum id (\<lambda>_. None)) (ModelRegistry_Deploy m v reason c d)"
| "perform (RollbackModel m reason) c d = apfst (map_sum id Some) (ModelRegistry_Rollback m reason c d)"
| "perform (SplitTraffic m v pct) c d = apfst (map_sum id (\<lambda>_. None)) (ModelRegistry_SetTraffic m v pct c d)"

section \<open>Statements\<close>

type_synonym row_key = "string \<times> string"

datatype set_clause = ToArchived | ToProduction | ToShare int

fun set_row :: "set_clause \<Rightarrow> version_row \<Rightarrow> version_row" where
  "set_row ToArchived r = r\<lparr>row_stage := StageArchived, row_traffic_pct := 0\<rparr>"
| "set_row ToProduction r = r\<lparr>row_stage := StageProduction, row_traffic_pct := 100\<rparr>"
| "set_row (ToShare n) r = r\<lparr>row_traffic_pct := n\<rparr>"

datatype where_clause = InStage string string | OfVersion string string

fun where_row :: "where_clause \<Rightarrow> version_row \<Rightarrow> bool" where
  "where_row (InStage m st) = in_stage m st"
| "where_row (OfVersion m v) = is_version m v"

text \<open>An \<open>Update\<close> becomes one \<open>UpdateRow\<close> for every row it has found.\<close>

datatype tx_action =
    Update set_clause where_clause
  | UpdateRow set_clause where_clause row_key
  | CheckAffected
  | SelectArchived string string instant
  | InsertEvent event_row
  | Upsert version_row
  | Commit "string option"
  | CommitAffected

text \<open>Deploy and Rollback from their first \<open>UPDATE\<close> on.\<close>

definition switch_actions :: "string \<Rightarrow> string \<Rightarrow> tx_action list" where
  "switch_actions m v = [Update ToArchived (InStage m StageProduction), Update ToProduction (OfVersion m v)]"

definition event_of :: "string \<Rightarrow> string \<Rightarrow> string \<Rightarrow> string \<Rightarrow> instant \<Rightarrow> event_row" where
  "event_of m v action reason now =
     \<lparr>ev_model_name = m, ev_version = v, ev_action = action, ev_reason = reason, ev_created_at = now\<rparr>"

definition deploy_actions :: "string \<Rightarrow> string \<Rightarrow> string \<Rightarrow> instant \<Rightarrow> tx_action list" where
  "deploy_actions m v reason now =
     switch_actions m v @ [CheckAffected, InsertEvent (event_of m v ''deploy'' reason now), Commit None]"

definition rollback_actions :: "string \<Rightarrow> string \<Rightarrow> string \<Rightarrow> instant \<Rightarrow> tx_action list" where
  "rollback_actions m v reason now =
     switch_actions m v @ [InsertEvent (event_of m v ''rollback'' reason now), Commit (Some v)]"

text \<open>The statements a request sends, unless its arguments do not get that far.\<close>

fun request_actions :: "registry_request \<Rightarrow> instant \<Rightarrow> registry_error + tx_action list" where
  "request_actions (RegisterVersion mv) now =
     (case marshal_metrics (mv_Metrics mv) of
        None \<Rightarrow> Inl MarshalError
      | Some metricsJSON \<Rightarrow>
          if \<not> fits_int4 (mv_TrafficPct mv) then Inl (DbError ''int4'')
          else Inr [Upsert \<lparr>row_model_name = mv_ModelName mv, row_version = mv_Version mv,
                      row_stage = (if mv_Stage mv = [] then StageStaging else mv_Stage mv),
                      row_precision = mv_Precision mv, row_artifact_path = mv_ArtifactPath mv,
                      row_metrics = metricsJSON, row_traffic_pct = sint (mv_TrafficPct mv),
                      row_created_at = now\<rparr>, Commit None])"
| "request_actions (DeployVersion m v reason) now = Inr (deploy_actions m v reason now)"
| "request_actions (RollbackModel m reason) now = Inr [SelectArchived m reason now]"
| "request_actions (SplitTraffic m v pct) now =
     (if \<not> fits_int4 pct then Inl (DbError ''int4'')
      else Inr [Update (ToShare (sint pct)) (OfVersion m v), CommitAffected])"

section \<open>Transactions\<close>

text \<open>What a transaction has written: rows it changed, rows and events it added; the keys of the rows
  it has locked; how many rows its last \<open>UPDATE\<close> wrote; the answer, once it is closed.\<close>

record tx =
  tx_request :: registry_request
  tx_now :: instant
  tx_todo :: "tx_action list"
  tx_writes :: "row_key \<rightharpoonup> version_row"
  tx_new :: "version_row list"
  tx_events :: "event_row list"
  tx_locks :: "row_key list"
  tx_affected :: nat
  tx_answer :: "answer option"

definition finish :: "answer \<Rightarrow> tx \<Rightarrow> tx" where
  "finish res t = t\<lparr>tx_todo := [], tx_writes := Map.empty, tx_new := [], tx_events := [], tx_locks := [],
     tx_answer := Some res\<rparr>"

definition begin_tx :: "registry_request \<Rightarrow> instant \<Rightarrow> tx" where
  "begin_tx q now =
     (let t = \<lparr>tx_request = q, tx_now = now, tx_todo = [], tx_writes = Map.empty, tx_new = [], tx_events = [],
               tx_locks = [], tx_affected = 0, tx_answer = None\<rparr>
      in case request_actions q now of
           Inl err \<Rightarrow> finish (Inl err) t
         | Inr acts \<Rightarrow> t\<lparr>tx_todo := acts\<rparr>)"

definition overwritten :: "(row_key \<rightharpoonup> version_row) \<Rightarrow> version_row \<Rightarrow> version_row" where
  "overwritten w r = (case w (version_key r) of Some r' \<Rightarrow> r' | None \<Rightarrow> r)"

text \<open>The tables as the transaction sees them: what is committed, and its own writes. On commit they
  are everybody's.\<close>

definition tx_sees :: "db \<Rightarrow> tx \<Rightarrow> db" where
  "tx_sees d t = \<lparr>model_versions = map (overwritten (tx_writes t)) (model_versions d) @ tx_new t,
     deployment_events = deployment_events d @ tx_events t\<rparr>"

definition row_at :: "row_key \<Rightarrow> db \<Rightarrow> version_row option" where
  "row_at k d = find (\<lambda>r. version_key r = k) (model_versions d)"

definition found_keys :: "where_clause \<Rightarrow> db \<Rightarrow> row_key list" where
  "found_keys c d = map version_key (filter (where_row c) (model_versions d))"

definition next_action :: "tx \<Rightarrow> tx" where
  "next_action t = t\<lparr>tx_todo := tl (tx_todo t)\<rparr>"

definition write_row :: "version_row \<Rightarrow> tx \<Rightarrow> tx" where
  "write_row r t = t\<lparr>tx_writes := (tx_writes t)(version_key r \<mapsto> r), tx_affected := Suc (tx_affected t)\<rparr>"

definition lock_row :: "row_key \<Rightarrow> tx \<Rightarrow> tx" where
  "lock_row k t = t\<lparr>tx_locks := k # tx_locks t\<rparr>"

fun tx_action_step :: "tx_action \<Rightarrow> db \<Rightarrow> tx \<Rightarrow> tx \<times> db" where
  "tx_action_step (Update ch c) d t =
     (t\<lparr>tx_affected := 0, tx_todo := map (UpdateRow ch c) (found_keys c (tx_sees d t)) @ tl (tx_todo t)\<rparr>, d)"
| "tx_action_step (UpdateRow ch c k) d t =
     (lock_row k (next_action (case row_at k (tx_sees d t) of
        Some r \<Rightarrow> if where_row c r then write_row (set_row ch r) t else t
      | None \<Rightarrow> t)), d)"
| "tx_action_step CheckAffected d t =
     ((if tx_affected t = 0 then finish (Inl ErrNotFound) t else next_action t), d)"
| "tx_action_step (SelectArchived m reason now) d t =
     (case newest_archived m (tx_sees d t) of
        None \<Rightarrow> (finish (Inl ErrNotFound) t, d)
      | Some v \<Rightarrow> (t\<lparr>tx_todo := rollback_actions m v reason now\<rparr>, d))"
| "tx_action_step (InsertEvent e) d t = (next_action (t\<lparr>tx_events := tx_events t @ [e]\<rparr>), d)"
| "tx_action_step (Upsert new) d t =
     (lock_row (version_key new) (next_action (case row_at (version_key new) (tx_sees d t) of
        Some r \<Rightarrow> write_row (new\<lparr>row_created_at := row_created_at r\<rparr>) t
      | None \<Rightarrow> t\<lparr>tx_new := tx_new t @ [new]\<rparr>)), d)"
| "tx_action_step (Commit ans) d t = (finish (Inr ans) t, tx_sees d t)"
| "tx_action_step CommitAffected d t =
     (finish (if tx_affected t = 0 then Inl ErrNotFound else Inr None) t, tx_sees d t)"

definition tx_step :: "db \<Rightarrow> tx \<Rightarrow> tx \<times> db" where
  "tx_step d t = (case tx_todo t of [] \<Rightarrow> (t, d) | a # _ \<Rightarrow> tx_action_step a d t)"

section \<open>Interleavings\<close>

fun wants_row :: "tx_action list \<Rightarrow> row_key option" where
  "wants_row (UpdateRow ch c k # acts) = Some k"
| "wants_row (Upsert new # acts) = Some (version_key new)"
| "wants_row acts = None"

text \<open>Transaction \<open>i\<close> waits for a row that another one has locked.\<close>

definition waits :: "tx list \<Rightarrow> nat \<Rightarrow> bool" where
  "waits ts i = (case wants_row (tx_todo (ts ! i)) of
     None \<Rightarrow> False
   | Some k \<Rightarrow> (\<exists>j < length ts. j \<noteq> i \<and> k \<in> set (tx_locks (ts ! j))))"

definition commits_next :: "tx \<Rightarrow> bool" where
  "commits_next t = (case tx_todo t of Commit ans # _ \<Rightarrow> True | CommitAffected # _ \<Rightarrow> True | _ \<Rightarrow> False)"

inductive registry_step :: "db \<times> tx list \<Rightarrow> db \<times> tx list \<Rightarrow> bool" where
  arrives: "registry_step (d, ts) (d, ts @ [begin_tx q now])"
| proceeds: "i < length ts \<Longrightarrow> tx_answer (ts ! i) = None \<Longrightarrow> \<not> waits ts i \<Longrightarrow>
     tx_step d (ts ! i) = (t, d') \<Longrightarrow> registry_step (d, ts) (d', ts[i := t])"
| aborts: "i < length ts \<Longrightarrow> tx_answer (ts ! i) = None \<Longrightarrow>
     registry_step (d, ts) (d, ts[i := finish (Inl (DbError err)) (ts ! i)])"
| loses_answer: "i < length ts \<Longrightarrow> tx_answer (ts ! i) = None \<Longrightarrow> commits_next (ts ! i) \<Longrightarrow>
     tx_step d (ts ! i) = (t, d') \<Longrightarrow>
     registry_step (d, ts) (d', ts[i := finish (Inl (DbError err)) (ts ! i)])"

inductive_cases registry_stepE: "registry_step (d, ts) s'"

section \<open>A transaction on its own\<close>

text \<open>Steps of an open transaction before its commit; they leave the tables alone.\<close>

definition moves :: "db \<Rightarrow> tx \<Rightarrow> tx \<Rightarrow> bool" where
  "moves d t t' \<longleftrightarrow> tx_answer t = None \<and> tx_todo t \<noteq> [] \<and> \<not> commits_next t \<and> tx_step d t = (t', d)"

lemma moves_todo:
  "tx_answer t = None \<Longrightarrow> tx_todo t = a # acts \<Longrightarrow> \<not> commits_next t \<Longrightarrow> moves d t t' \<longleftrightarrow> tx_action_step a d t = (t', d)"
  by (simp add: moves_def tx_step_def)

lemma moves_unless_commit:
  assumes "tx_answer t = None" and "tx_todo t \<noteq> []" and "\<not> commits_next t" and "tx_step d t = (t', d')"
  shows "d' = d" and "moves d t t'"
proof -
  obtain a acts where a: "tx_todo t = a # acts"
    using assms(2) by (cases "tx_todo t") auto
  then show "d' = d"
    using assms(3,4) by (cases a) (auto simp: tx_step_def commits_next_def split: option.splits)
  with assms show "moves d t t'"
    by (simp add: moves_def)
qed

definition at_end :: "tx \<Rightarrow> bool" where
  "at_end t \<longleftrightarrow> tx_answer t \<noteq> None \<or> commits_next t"

lemma at_end_stays: "at_end t \<Longrightarrow> \<not> moves d t t'"
  by (auto simp: at_end_def moves_def)

lemma moves_fun: "moves d t t1 \<Longrightarrow> moves d t t2 \<Longrightarrow> t1 = t2"
  by (simp add: moves_def)

lemma same_end:
  assumes "(moves d)\<^sup>*\<^sup>* s t" and "at_end t" and "(moves d)\<^sup>*\<^sup>* s t'" and "at_end t'"
  shows "t = t'"
  using assms
proof (induction rule: converse_rtranclp_induct)
  case base
  from base(2) show ?case
    using at_end_stays [OF base(1)] by (cases rule: converse_rtranclpE) auto
next
  case (step s s')
  from step.prems(2) have "(moves d)\<^sup>*\<^sup>* s' t'"
  proof (cases rule: converse_rtranclpE)
    case base
    then show ?thesis
      using at_end_stays [OF step.prems(3)] step.hyps(1) by simp
  next
    case (step s'')
    then show ?thesis
      using moves_fun \<open>moves d s s'\<close> by blast
  qed
  then show ?case
    by (rule step.IH [OF step.prems(1) _ step.prems(3)])
qed

lemma key_updates [simp]:
  "version_key (r\<lparr>row_stage := st, row_traffic_pct := n\<rparr>) = version_key r"
  "version_key (r\<lparr>row_stage := st\<rparr>) = version_key r" "version_key (r\<lparr>row_traffic_pct := n\<rparr>) = version_key r"
  "version_key (r\<lparr>row_created_at := now\<rparr>) = version_key r"
  by (simp_all add: version_key_def)

lemma key_set_row [simp]: "version_key (set_row ch r) = version_key r"
  by (cases ch) simp_all

definition keeps_keys :: "(row_key \<rightharpoonup> version_row) \<Rightarrow> bool" where
  "keeps_keys w \<longleftrightarrow> (\<forall>k r. w k = Some r \<longrightarrow> version_key r = k)"

lemma keeps_keys_simps [simp]:
  "keeps_keys Map.empty" "keeps_keys w \<Longrightarrow> version_key r = k \<Longrightarrow> keeps_keys (w(k \<mapsto> r))"
  by (simp_all add: keeps_keys_def)

lemma overwritten_empty [simp]: "overwritten Map.empty = (\<lambda>r. r)"
  by (simp add: overwritten_def fun_eq_iff)

lemma overwritten_key [simp]: "keeps_keys w \<Longrightarrow> version_key (overwritten w r) = version_key r"
  by (metis keeps_keys_def option.case_eq_if option.collapse overwritten_def)

lemma overwritten_upd: "overwritten (w(version_key r \<mapsto> r)) x = (if version_key x = version_key r then r else overwritten w x)"
  by (simp add: overwritten_def)

text \<open>The parts of a transaction that a statement is about.\<close>

lemma tx_parts [simp]:
  "tx_sees d (lock_row k t) = tx_sees d t" "tx_sees d (next_action t) = tx_sees d t"
  "tx_sees d (t\<lparr>tx_todo := acts\<rparr>) = tx_sees d t" "tx_sees d (t\<lparr>tx_affected := n\<rparr>) = tx_sees d t"
  "tx_todo (lock_row k t) = tx_todo t" "tx_todo (next_action t) = tl (tx_todo t)" "tx_todo (write_row r t) = tx_todo t"
  "tx_writes (lock_row k t) = tx_writes t" "tx_writes (next_action t) = tx_writes t"
  "tx_writes (write_row r t) = (tx_writes t)(version_key r \<mapsto> r)"
  "tx_new (lock_row k t) = tx_new t" "tx_new (next_action t) = tx_new t" "tx_new (write_row r t) = tx_new t"
  "tx_events (lock_row k t) = tx_events t" "tx_events (next_action t) = tx_events t" "tx_events (write_row r t) = tx_events t"
  "tx_affected (lock_row k t) = tx_affected t" "tx_affected (next_action t) = tx_affected t"
  "tx_affected (write_row r t) = Suc (tx_affected t)"
  "tx_answer (lock_row k t) = tx_answer t" "tx_answer (next_action t) = tx_answer t" "tx_answer (write_row r t) = tx_answer t"
  "tx_request (lock_row k t) = tx_request t" "tx_request (next_action t) = tx_request t" "tx_request (write_row r t) = tx_request t"
  "tx_now (lock_row k t) = tx_now t" "tx_now (next_action t) = tx_now t" "tx_now (write_row r t) = tx_now t"
  "tx_locks (lock_row k t) = k # tx_locks t" "tx_locks (next_action t) = tx_locks t" "tx_locks (write_row r t) = tx_locks t"
  by (simp_all add: tx_sees_def lock_row_def next_action_def write_row_def)

lemma finish_parts [simp]:
  "tx_todo (finish res t) = []" "tx_writes (finish res t) = Map.empty" "tx_new (finish res t) = []"
  "tx_events (finish res t) = []" "tx_locks (finish res t) = []" "tx_answer (finish res t) = Some res"
  "tx_request (finish res t) = tx_request t" "tx_now (finish res t) = tx_now t" "tx_sees d (finish res t) = d"
  by (simp_all add: finish_def tx_sees_def)

text \<open>Alone on tables with a primary key, a transaction that has added no rows sees every row under
  its own key.\<close>

definition plain :: "db \<Rightarrow> tx \<Rightarrow> bool" where
  "plain d t \<longleftrightarrow> distinct (map version_key (model_versions d)) \<and> keeps_keys (tx_writes t) \<and> tx_new t = []"

lemma plain_keys: "plain d t \<Longrightarrow> map version_key (model_versions (tx_sees d t)) = map version_key (model_versions d)"
  by (simp add: plain_def tx_sees_def)

lemma row_at_own:
  assumes "distinct (map version_key (model_versions d))" and "r \<in> set (model_versions d)"
  shows "row_at (version_key r) d = Some r"
proof -
  obtain r' where r': "row_at (version_key r) d = Some r'"
    using assms(2) by (cases "row_at (version_key r) d") (auto simp: row_at_def find_None_iff)
  then have "r' \<in> set (model_versions d)" and "version_key r' = version_key r"
    by (auto simp: row_at_def find_Some_iff)
  then show ?thesis
    using assms r' by (auto simp: distinct_map inj_on_def)
qed

lemma sees_write:
  assumes "plain d t"
  shows "model_versions (tx_sees d (write_row r t))
    = map (\<lambda>x. if version_key x = version_key r then r else x) (model_versions (tx_sees d t))"
  using assms by (auto simp: plain_def tx_sees_def overwritten_upd)

lemma events_seen [simp]: "deployment_events (tx_sees d t) = deployment_events d @ tx_events t"
  by (simp add: tx_sees_def)

lemma tx_end_update_rows:
  assumes "plain d t" and "tx_answer t = None" and "tx_todo t = map (UpdateRow ch c) ks @ acts" and "distinct ks"
    and "\<forall>k \<in> set ks. \<exists>r \<in> set (model_versions (tx_sees d t)). version_key r = k \<and> where_row c r"
  shows "\<exists>t'. (moves d)\<^sup>*\<^sup>* t t' \<and> plain d t' \<and> tx_answer t' = None \<and> tx_todo t' = acts \<and> tx_events t' = tx_events t
    \<and> tx_affected t' = tx_affected t + length ks
    \<and> model_versions (tx_sees d t') = map (\<lambda>r. if version_key r \<in> set ks then set_row ch r else r) (model_versions (tx_sees d t))"
  using assms
proof (induction ks arbitrary: t)
  case Nil
  then show ?case
    by (intro exI [of _ t]) simp
next
  case (Cons k ks)
  obtain r where r: "r \<in> set (model_versions (tx_sees d t))" "version_key r = k" "where_row c r"
    using Cons.prems(5) by auto
  have keys: "distinct (map version_key (model_versions (tx_sees d t)))"
    using Cons.prems(1) plain_keys by (simp add: plain_def)
  define t1 where "t1 = lock_row k (next_action (write_row (set_row ch r) t))"
  have m: "moves d t t1"
    using Cons.prems(2,3) row_at_own [OF keys r(1)] r(2,3)
    by (simp add: moves_def commits_next_def tx_step_def t1_def)
  have p: "plain d t1"
    using Cons.prems(1) by (simp add: plain_def t1_def)
  have rows1: "model_versions (tx_sees d t1) = map (\<lambda>x. if version_key x = k then set_row ch r else x) (model_versions (tx_sees d t))"
    using sees_write [OF Cons.prems(1)] r(2) by (simp add: t1_def)
  have own: "x = r" if "x \<in> set (model_versions (tx_sees d t))" "version_key x = k" for x
    using that r keys by (auto simp: distinct_map inj_on_def)
  have "\<exists>r' \<in> set (model_versions (tx_sees d t1)). version_key r' = k' \<and> where_row c r'" if k': "k' \<in> set ks" for k'
  proof -
    obtain r' where "r' \<in> set (model_versions (tx_sees d t))" "version_key r' = k'" "where_row c r'"
      using Cons.prems(5) k' by (meson list.set_intros(2))
    then show ?thesis
      using k' Cons.prems(4) by (intro bexI [of _ r']) (auto simp: rows1 image_iff intro!: bexI [of _ r'])
  qed
  then obtain t' where t': "(moves d)\<^sup>*\<^sup>* t1 t'" "plain d t'" "tx_answer t' = None" "tx_todo t' = acts"
    "tx_events t' = tx_events t1" "tx_affected t' = tx_affected t1 + length ks"
    "model_versions (tx_sees d t') = map (\<lambda>r. if version_key r \<in> set ks then set_row ch r else r) (model_versions (tx_sees d t1))"
    using Cons.IH [OF p] Cons.prems(2,3,4) by (auto simp: t1_def)
  have "model_versions (tx_sees d t') = map (\<lambda>r. if version_key r \<in> set (k # ks) then set_row ch r else r) (model_versions (tx_sees d t))"
    using Cons.prems(4) own r(2) by (auto simp: t'(7) rows1)
  then show ?case
    using t' m by (intro exI [of _ t']) (auto simp: t1_def intro: converse_rtranclp_into_rtranclp)
qed

lemma update_alone:
  assumes p: "plain d t" and "tx_answer t = None" and "tx_todo t = Update ch c # acts"
  shows "\<exists>t'. (moves d)\<^sup>*\<^sup>* t t' \<and> plain d t' \<and> tx_answer t' = None \<and> tx_todo t' = acts
    \<and> tx_sees d t' = fst (sql_update (set_row ch) (where_row c) (tx_sees d t))
    \<and> tx_affected t' = snd (sql_update (set_row ch) (where_row c) (tx_sees d t))"
proof -
  let ?rows = "model_versions (tx_sees d t)" and ?ks = "found_keys c (tx_sees d t)"
  let ?t = "t\<lparr>tx_affected := 0, tx_todo := map (UpdateRow ch c) ?ks @ acts\<rparr>"
  have keys: "distinct (map version_key ?rows)"
    using p plain_keys by (simp add: plain_def)
  have hit: "version_key r \<in> set ?ks \<longleftrightarrow> where_row c r" if "r \<in> set ?rows" for r
    using that keys by (auto simp: found_keys_def distinct_map inj_on_def)
  have "moves d t ?t"
    using assms by (simp add: moves_def commits_next_def tx_step_def)
  moreover obtain t' where t': "(moves d)\<^sup>*\<^sup>* ?t t'" "plain d t'" "tx_answer t' = None" "tx_todo t' = acts"
    "tx_events t' = tx_events t" "tx_affected t' = length ?ks"
    "model_versions (tx_sees d t') = map (\<lambda>r. if version_key r \<in> set ?ks then set_row ch r else r) ?rows"
    using tx_end_update_rows [of d ?t ch c ?ks acts] assms keys
    by (auto simp: found_keys_def plain_def distinct_map_filter)
  moreover have "tx_sees d t' = fst (sql_update (set_row ch) (where_row c) (tx_sees d t))"
    using hit t'(5,7) by (auto simp: sql_update_def intro!: db.equality)
  moreover have "tx_affected t' = snd (sql_update (set_row ch) (where_row c) (tx_sees d t))"
    by (simp add: t'(6) found_keys_def sql_update_def)
  ultimately show ?thesis
    by (intro exI [of _ t']) (auto intro: converse_rtranclp_into_rtranclp)
qed

lemma set_row_eq:
  "set_row ToArchived = (\<lambda>r. r\<lparr>row_stage := StageArchived, row_traffic_pct := 0\<rparr>)"
  "set_row ToProduction = (\<lambda>r. r\<lparr>row_stage := StageProduction, row_traffic_pct := 100\<rparr>)"
  "set_row (ToShare n) = (\<lambda>r. r\<lparr>row_traffic_pct := n\<rparr>)"
  by (simp_all add: fun_eq_iff)

lemma switch_alone:
  assumes p: "plain d t" and "tx_answer t = None" and "tx_todo t = switch_actions m v @ acts"
  shows "\<exists>t'. (moves d)\<^sup>*\<^sup>* t t' \<and> plain d t' \<and> tx_answer t' = None \<and> tx_todo t' = acts
    \<and> tx_sees d t' = fst (promote_version m v (fst (archive_production m (tx_sees d t))))
    \<and> tx_affected t' = snd (promote_version m v (fst (archive_production m (tx_sees d t))))"
proof -
  let ?acts = "Update ToProduction (OfVersion m v) # acts"
  have "tx_todo t = Update ToArchived (InStage m StageProduction) # ?acts"
    using assms(3) by (simp add: switch_actions_def)
  from update_alone [OF p assms(2) this] obtain t1 where t1: "(moves d)\<^sup>*\<^sup>* t t1" "plain d t1" "tx_answer t1 = None"
    "tx_todo t1 = ?acts" "tx_sees d t1 = fst (archive_production m (tx_sees d t))"
    by (auto simp: archive_production_def set_row_eq)
  from update_alone [OF t1(2-4)] show ?thesis
    using t1(1,5) by (auto simp: promote_version_def set_row_eq intro: rtranclp_trans)
qed

text \<open>Where a transaction that nobody disturbs ends: answered already, or about to commit.\<close>

definition ends_with :: "db \<Rightarrow> tx \<Rightarrow> answer \<Rightarrow> db \<Rightarrow> bool" where
  "ends_with d t res d' \<longleftrightarrow>
     (if commits_next t
      then tx_answer t = None \<and> tx_answer (fst (tx_step d t)) = Some res \<and> snd (tx_step d t) = d'
      else tx_answer t = Some res \<and> d' = d)"

lemma ends_with_at_end: "ends_with d t res d' \<Longrightarrow> at_end t"
  by (simp add: ends_with_def at_end_def split: if_splits)

lemma commit_ends:
  "tx_answer t = None \<Longrightarrow> tx_todo t = Commit ans # acts \<Longrightarrow> ends_with d t (Inr ans) (tx_sees d t)"
  "tx_answer t = None \<Longrightarrow> tx_todo t = CommitAffected # acts \<Longrightarrow>
     ends_with d t (if tx_affected t = 0 then Inl ErrNotFound else Inr None) (tx_sees d t)"
  by (simp_all add: ends_with_def commits_next_def tx_step_def)

lemma answer_ends: "ends_with d (finish res t) res d"
  by (simp add: ends_with_def commits_next_def)

definition undisturbed :: "instant \<Rightarrow> db_calls" where
  "undisturbed now = \<lparr>fails = (\<lambda>n. None), commits = Committed, db_now = now\<rparr>"

lemma undisturbed_parts [simp]:
  "fails (undisturbed now) n = None" "commits (undisturbed now) = Committed" "db_now (undisturbed now) = now"
  by (simp_all add: undisturbed_def)

lemma begin_parts [simp]:
  "tx_request (begin_tx q now) = q" "tx_now (begin_tx q now) = now" "tx_sees d (begin_tx q now) = d"
  "tx_writes (begin_tx q now) = Map.empty" "tx_new (begin_tx q now) = []" "tx_locks (begin_tx q now) = []"
  "tx_events (begin_tx q now) = []"
  by (simp_all add: begin_tx_def Let_def tx_sees_def finish_def split: sum.split)

lemma begin_open: "request_actions q now = Inr acts \<Longrightarrow>
    tx_answer (begin_tx q now) = None \<and> tx_todo (begin_tx q now) = acts"
  by (simp add: begin_tx_def)

lemma begin_refused: "request_actions q now = Inl err \<Longrightarrow>
    tx_answer (begin_tx q now) = Some (Inl err) \<and> tx_todo (begin_tx q now) = []"
  by (simp add: begin_tx_def finish_def)

lemma sees_event: "tx_sees d (t\<lparr>tx_events := tx_events t @ [event_of m v action reason now]\<rparr>)
    = insert_event now m v action reason (tx_sees d t)"
  by (simp add: tx_sees_def insert_event_def event_of_def)

text \<open>Inserting the event and committing.\<close>

lemma event_commit_alone:
  assumes "tx_answer t = None" and "tx_todo t = [InsertEvent (event_of m v action reason now), Commit ans]"
  shows "\<exists>t'. (moves d)\<^sup>*\<^sup>* t t' \<and> ends_with d t' (Inr ans) (insert_event now m v action reason (tx_sees d t))"
proof -
  let ?e = "event_of m v action reason now"
  let ?t = "next_action (t\<lparr>tx_events := tx_events t @ [?e]\<rparr>)"
  have "moves d t ?t"
    using assms by (simp add: moves_def commits_next_def tx_step_def)
  moreover have "ends_with d ?t (Inr ans) (insert_event now m v action reason (tx_sees d t))"
    using commit_ends(1) [of ?t ans "[]" d] assms by (simp add: sees_event)
  ultimately show ?thesis
    by blast
qed

lemma row_at_version:
  "row_at (m, v) d = None \<longleftrightarrow> \<not> has_version m v d"
  "row_at (m, v) d = Some r \<Longrightarrow> r \<in> set (model_versions d) \<and> is_version m v r"
  by (auto simp: row_at_def find_None_iff find_Some_iff has_version_def is_version_def version_key_def)

lemma upsert_alone:
  assumes p: "plain d t" and "tx_answer t = None" and "tx_todo t = [Upsert new, Commit ans]" and fresh: "row_created_at new = now"
  shows "\<exists>t'. (moves d)\<^sup>*\<^sup>* t t' \<and> ends_with d t' (Inr ans) (upsert_version now new (tx_sees d t))"
proof -
  let ?k = "version_key new" and ?m = "row_model_name new" and ?v = "row_version new"
  let ?t = "fst (tx_step d t)"
  have k: "?k = (?m, ?v)"
    by (simp add: version_key_def)
  have step: "moves d t ?t" "tx_todo ?t = [Commit ans]" "tx_answer ?t = None"
    using assms by (simp_all add: moves_def commits_next_def tx_step_def split: option.split)
  have "tx_sees d ?t = upsert_version now new (tx_sees d t)"
  proof (cases "row_at ?k (tx_sees d t)")
    case None
    then have "\<not> has_version ?m ?v (tx_sees d t)"
      by (simp add: k row_at_version)
    moreover have "?t = lock_row ?k (next_action (t\<lparr>tx_new := [new]\<rparr>))"
      using p None assms(3) by (simp add: tx_step_def plain_def)
    ultimately show ?thesis
      using p fresh by (auto simp: upsert_version_def has_version_def plain_def tx_sees_def Let_def)
  next
    case (Some r)
    then have r: "r \<in> set (model_versions (tx_sees d t))" "is_version ?m ?v r"
      using row_at_version(2) k by auto
    let ?new = "new\<lparr>row_created_at := row_created_at r\<rparr>"
    have "?t = lock_row ?k (next_action (write_row ?new t))"
      using Some assms(3) by (simp add: tx_step_def)
    then have rows: "model_versions (tx_sees d ?t)
        = map (\<lambda>x. if version_key x = ?k then ?new else x) (model_versions (tx_sees d t))"
      using sees_write [OF p, of ?new] by simp
    have keys: "distinct (map version_key (model_versions (tx_sees d t)))"
      using p plain_keys by (simp add: plain_def)
    have same: "version_key x = ?k \<longleftrightarrow> is_version ?m ?v x" for x
      by (auto simp: version_key_def is_version_def)
    have only: "x = r" if "x \<in> set (model_versions (tx_sees d t))" "is_version ?m ?v x" for x
      using that r keys by (auto simp: distinct_map inj_on_def same [symmetric])
    have "model_versions (tx_sees d ?t) = model_versions (upsert_version now new (tx_sees d t))"
      using r only by (auto simp: rows same upsert_version_def Let_def sql_update_def)
    moreover have "deployment_events (tx_sees d ?t) = deployment_events (upsert_version now new (tx_sees d t))"
      using r Some assms(3) by (auto simp: upsert_version_def Let_def sql_update_def tx_step_def)
    ultimately show ?thesis
      by (simp add: db.equality)
  qed
  then show ?thesis
    using step(1) commit_ends(1) [OF step(3,2), of d] by (metis r_into_rtranclp)
qed

lemma begin_plain: "distinct (map version_key (model_versions d)) \<Longrightarrow> plain d (begin_tx q now)"
  by (simp add: plain_def)

text \<open>Undisturbed, a request that is sent to the database answers and changes the tables as the
  registry's operation does.\<close>

lemma register_alone:
  assumes keys: "distinct (map version_key (model_versions d))" and acts: "request_actions q now = Inr acts"
    and RegisterVersion: "q = RegisterVersion mv"
  shows "\<exists>t. (moves d)\<^sup>*\<^sup>* (begin_tx q now) t \<and>
    ends_with d t (fst (perform q (undisturbed now) d)) (snd (perform q (undisturbed now) d))"
proof -
  let ?new = "row_of mv now"
  have "request_actions q now = Inr [Upsert ?new, Commit None]"
    and "perform q (undisturbed now) d = (Inr None, upsert_version now ?new d)"
    using acts by (auto simp: RegisterVersion row_of_def stage_or_staging_def marshal_metrics_def Register_eq
        register_effect_def tx_commit_def split: option.splits if_splits)
  then show ?thesis
    using upsert_alone [OF begin_plain [OF keys], of q now ?new None now] begin_open by (simp add: row_of_def)
qed

lemma deploy_alone:
  assumes keys: "distinct (map version_key (model_versions d))" and acts: "request_actions q now = Inr acts"
    and DeployVersion: "q = DeployVersion m v reason"
  shows "\<exists>t. (moves d)\<^sup>*\<^sup>* (begin_tx q now) t \<and>
    ends_with d t (fst (perform q (undisturbed now) d)) (snd (perform q (undisturbed now) d))"
proof -
  let ?t = "begin_tx q now" and ?d = "fst (promote_version m v (fst (archive_production m d)))"
  have t: "tx_answer ?t = None" "tx_todo ?t = deploy_actions m v reason now"
    using begin_open [of q now] DeployVersion by simp_all
  obtain t1 where t1: "(moves d)\<^sup>*\<^sup>* ?t t1" "tx_answer t1 = None"
    "tx_todo t1 = [CheckAffected, InsertEvent (event_of m v ''deploy'' reason now), Commit None]"
    "tx_sees d t1 = ?d" "tx_affected t1 = snd (promote_version m v (fst (archive_production m d)))"
    using switch_alone [OF begin_plain [OF keys] t(1) t(2) [unfolded deploy_actions_def]] by auto
  have hit: "tx_affected t1 = 0 \<longleftrightarrow> \<not> has_version m v d"
    using affected_0_iff t1(5) by simp
  have run: "perform q (undisturbed now) d
      = (if has_version m v d then (Inr None, insert_event now m v ''deploy'' reason ?d) else (Inl ErrNotFound, d))"
    using DeployVersion by (simp add: Deploy_eq tx_commit_def deploy_effect_def promote_after_archive)
  show ?thesis
  proof (cases "has_version m v d")
    case True
    then have "moves d t1 (next_action t1)"
      using t1(2,3) hit by (simp add: moves_def commits_next_def tx_step_def)
    moreover obtain t' where "(moves d)\<^sup>*\<^sup>* (next_action t1) t'"
      "ends_with d t' (Inr None) (insert_event now m v ''deploy'' reason ?d)"
      using event_commit_alone [of "next_action t1" m v "''deploy''" reason now None d] t1 by auto
    ultimately show ?thesis
      using True run t1(1) by (auto intro!: exI [of _ t'])
  next
    case False
    then have "moves d t1 (finish (Inl ErrNotFound) t1)"
      using t1(2,3) hit by (simp add: moves_def commits_next_def tx_step_def)
    then show ?thesis
      using False run t1(1) answer_ends [of d "Inl ErrNotFound" t1] by (auto intro: rtranclp.rtrancl_into_rtrancl)
  qed
qed

lemma rollback_alone:
  assumes keys: "distinct (map version_key (model_versions d))" and acts: "request_actions q now = Inr acts"
    and RollbackModel: "q = RollbackModel m reason"
  shows "\<exists>t. (moves d)\<^sup>*\<^sup>* (begin_tx q now) t \<and>
    ends_with d t (fst (perform q (undisturbed now) d)) (snd (perform q (undisturbed now) d))"
proof -
  let ?t = "begin_tx q now"
  have t: "tx_answer ?t = None" "tx_todo ?t = [SelectArchived m reason now]"
    using begin_open [of q now] RollbackModel by simp_all
  show ?thesis
  proof (cases "newest_archived m d")
    case None
    then have "moves d ?t (finish (Inl ErrNotFound) ?t)"
      using t by (simp add: moves_def commits_next_def tx_step_def)
    moreover have "perform q (undisturbed now) d = (Inl ErrNotFound, d)"
      using RollbackModel None by (simp add: Rollback_eq)
    ultimately show ?thesis
      using answer_ends [of d "Inl ErrNotFound" ?t] by auto
  next
    case (Some v)
    let ?t1 = "?t\<lparr>tx_todo := rollback_actions m v reason now\<rparr>"
    let ?d = "fst (promote_version m v (fst (archive_production m d)))"
    have "moves d ?t ?t1"
      using t Some by (simp add: moves_def commits_next_def tx_step_def)
    moreover have t1: "plain d ?t1" "tx_answer ?t1 = None"
      "tx_todo ?t1 = switch_actions m v @ [InsertEvent (event_of m v ''rollback'' reason now), Commit (Some v)]"
      using keys t(1) by (simp_all add: plain_def rollback_actions_def)
    obtain t2 where t2: "(moves d)\<^sup>*\<^sup>* ?t1 t2" "tx_answer t2 = None"
      "tx_todo t2 = [InsertEvent (event_of m v ''rollback'' reason now), Commit (Some v)]" "tx_sees d t2 = ?d"
      using switch_alone [OF t1] by auto
    moreover obtain t' where "(moves d)\<^sup>*\<^sup>* t2 t'"
      "ends_with d t' (Inr (Some v)) (insert_event now m v ''rollback'' reason ?d)"
      using event_commit_alone [OF t2(2,3), of d] t2(4) by auto
    moreover have "perform q (undisturbed now) d = (Inr (Some v), insert_event now m v ''rollback'' reason ?d)"
      using RollbackModel Some by (simp add: Rollback_eq tx_commit_def rollback_effect_def promote_after_archive)
    ultimately show ?thesis
      by (auto intro!: exI [of _ t'])
  qed
qed

lemma split_alone:
  assumes keys: "distinct (map version_key (model_versions d))" and acts: "request_actions q now = Inr acts"
    and SplitTraffic: "q = SplitTraffic m v pct"
  shows "\<exists>t. (moves d)\<^sup>*\<^sup>* (begin_tx q now) t \<and>
    ends_with d t (fst (perform q (undisturbed now) d)) (snd (perform q (undisturbed now) d))"
proof -
  let ?t = "begin_tx q now" and ?u = "sql_update (\<lambda>r. r\<lparr>row_traffic_pct := sint pct\<rparr>) (is_version m v) d"
  have fits: "fits_int4 pct"
    using acts SplitTraffic by (simp split: if_splits)
  then have t: "tx_answer ?t = None" "tx_todo ?t = [Update (ToShare (sint pct)) (OfVersion m v), CommitAffected]"
    using begin_open [of q now] SplitTraffic by simp_all
  obtain t1 where t1: "(moves d)\<^sup>*\<^sup>* ?t t1" "tx_answer t1 = None" "tx_todo t1 = [CommitAffected]"
    "tx_sees d t1 = fst ?u" "tx_affected t1 = snd ?u"
    using update_alone [OF begin_plain [OF keys] t] by (auto simp: set_row_eq)
  have "perform q (undisturbed now) d = (if snd ?u = 0 then Inl ErrNotFound else Inr None, fst ?u)"
    using SplitTraffic fits by (auto simp: ModelRegistry_SetTraffic_def tx_commit_def split: prod.split)
  then show ?thesis
    using t1(1) commit_ends(2) [OF t1(2,3), of d] t1(4,5) by (auto intro!: exI [of _ t1])
qed

lemma alone_performs:
  assumes "distinct (map version_key (model_versions d))" and "request_actions q now = Inr acts"
  shows "\<exists>t. (moves d)\<^sup>*\<^sup>* (begin_tx q now) t \<and>
    ends_with d t (fst (perform q (undisturbed now) d)) (snd (perform q (undisturbed now) d))"
  using register_alone deploy_alone rollback_alone split_alone assms by (cases q) blast+

end
