(* ===== verification/ApartRequests.thy ===== *)
theory ApartRequests
  imports Transactions
begin

text \<open>
  Interleavings in which no two open transactions are about one model. A transaction reads and writes rows of
  its model only, so nobody else's commit changes what it does: where it is, it would be with nobody else at work, and
  when it commits it carries out its operation on the tables as they are then. So the requests have the
  effect, and the answers, of the order of their commits.
\<close>

section \<open>Transactions on different models\<close>

definition model_rows :: "string \<Rightarrow> db \<Rightarrow> version_row list" where
  "model_rows m d = filter (\<lambda>r. row_model_name r = m) (model_versions d)"

fun where_model :: "where_clause \<Rightarrow> string" where
  "where_model (InStage m st) = m"
| "where_model (OfVersion m v) = m"

fun about_model :: "string \<Rightarrow> tx_action \<Rightarrow> bool" where
  "about_model m (Update ch c) = (where_model c = m)"
| "about_model m (UpdateRow ch c k) = (fst k = m)"
| "about_model m (SelectArchived m' reason now) = (m' = m)"
| "about_model m (Upsert new) = (row_model_name new = m)"
| "about_model m CheckAffected = True"
| "about_model m (InsertEvent e) = True"
| "about_model m (Commit ans) = True"
| "about_model m CommitAffected = True"

definition writes_in :: "string \<Rightarrow> (row_key \<rightharpoonup> version_row) \<Rightarrow> bool" where
  "writes_in m w \<longleftrightarrow> (\<forall>k r. w k = Some r \<longrightarrow> version_key r = k \<and> fst k = m)"

lemma writes_in_simps [simp]:
  "writes_in m Map.empty" "writes_in m w \<Longrightarrow> version_key r = k \<Longrightarrow> fst k = m \<Longrightarrow> writes_in m (w(k \<mapsto> r))"
  by (simp_all add: writes_in_def del: split_paired_All)

lemma writes_inD: "writes_in m w \<Longrightarrow> keeps_keys w" "writes_in m w \<Longrightarrow> fst k \<noteq> m \<Longrightarrow> w k = None"
  by (auto simp: writes_in_def keeps_keys_def simp del: split_paired_All) (metis not_Some_eq)

definition stays_in :: "string \<Rightarrow> tx \<Rightarrow> bool" where
  "stays_in m t \<longleftrightarrow> list_all (about_model m) (tx_todo t) \<and> writes_in m (tx_writes t) \<and> (\<forall>r \<in> set (tx_new t). row_model_name r = m)"

lemma where_row_model: "where_row c r \<Longrightarrow> row_model_name r = where_model c"
  by (cases c) (auto simp: in_stage_def is_version_def)

lemma row_model_key: "row_model_name r = fst (version_key r)" "fst (version_key r) = row_model_name r"
  by (simp_all add: version_key_def)

lemma model_rows_seen:
  assumes "stays_in m t"
  shows "model_rows n (tx_sees d t) = (if n = m then map (overwritten (tx_writes t)) (model_rows n d) @ tx_new t else model_rows n d)"
proof -
  have k: "row_model_name (overwritten (tx_writes t) r) = row_model_name r" for r
    using assms writes_inD(1) [of m "tx_writes t"] by (simp add: row_model_key(1) stays_in_def)
  have "overwritten (tx_writes t) r = r" if "row_model_name r \<noteq> m" for r
    using assms that writes_inD(2) [of m "tx_writes t"] by (simp add: overwritten_def stays_in_def row_model_key(1))
  then have "n \<noteq> m \<Longrightarrow> filter (\<lambda>r. row_model_name r = n) (map (overwritten (tx_writes t)) rs)
      = filter (\<lambda>r. row_model_name r = n) rs" for rs
    by (induction rs) (auto simp: k)
  then show ?thesis
    using assms by (auto simp: model_rows_def tx_sees_def filter_map o_def k stays_in_def filter_empty_conv
        intro: filter_True)
qed

lemma find_filter: "(\<And>x. p x \<Longrightarrow> q x) \<Longrightarrow> find p (filter q xs) = find p xs"
  by (induction xs) auto

lemma found_in_model: "found_keys c d = map version_key (filter (where_row c) (model_rows (where_model c) d))"
  unfolding found_keys_def model_rows_def filter_filter by (metis (lifting) where_row_model)

lemma row_in_model: "row_at k d = find (\<lambda>r. version_key r = k) (model_rows (fst k) d)"
  unfolding row_at_def model_rows_def by (rule find_filter [symmetric]) (auto simp: row_model_key(2) [symmetric])

lemma stage_in_model: "filter (in_stage m st) (model_versions d) = filter (in_stage m st) (model_rows m d)"
  by (auto simp: model_rows_def in_stage_def intro!: filter_cong)

lemma same_model_decides:
  assumes "model_rows m d = model_rows m d'"
  shows "where_model c = m \<Longrightarrow> found_keys c d = found_keys c d'" and "fst k = m \<Longrightarrow> row_at k d = row_at k d'"
    and "newest_archived m d = newest_archived m d'"
  using assms by (simp_all add: found_in_model row_in_model [of k] stage_in_model newest_archived_def)

lemma stays_in_todo:
  "stays_in m t \<Longrightarrow> list_all (about_model m) acts \<Longrightarrow> stays_in m (t\<lparr>tx_affected := n, tx_todo := acts\<rparr>)"
  by (simp add: stays_in_def)

lemma stays_in_step:
  assumes "stays_in m t" and "moves d t t'"
  shows "stays_in m t'"
proof -
  obtain a acts where a: "tx_todo t = a # acts" "tx_action_step a d t = (t', d)"
    using assms(2) by (cases "tx_todo t") (auto simp: moves_def tx_step_def)
  have m: "about_model m a" "list_all (about_model m) acts"
    using assms(1) a(1) by (simp_all add: stays_in_def)
  show ?thesis
  proof (cases a)
    case (Update ch c)
    have "fst k = m" if "k \<in> set (found_keys c (tx_sees d t))" for k
      using that m Update by (auto simp: found_keys_def row_model_key(2) dest: where_row_model)
    then have "list_all (about_model m) (map (UpdateRow ch c) (found_keys c (tx_sees d t)) @ acts)"
      using m(2) by (auto simp: list_all_iff)
    from stays_in_todo [OF assms(1) this, of 0] show ?thesis
      using a Update by auto
  next
    case (UpdateRow ch c k)
    have "version_key r = k" if "row_at k (tx_sees d t) = Some r" for r
      using that by (auto simp: row_at_def find_Some_iff)
    then show ?thesis
      using assms a m UpdateRow by (auto simp: stays_in_def split: option.splits if_splits)
  next
    case (Upsert new)
    have "version_key r = version_key new" if "row_at (version_key new) (tx_sees d t) = Some r" for r
      using that by (auto simp: row_at_def find_Some_iff)
    then show ?thesis
      using assms a m Upsert by (auto simp: stays_in_def row_model_key(2) split: option.splits)
  qed (use assms a m in \<open>auto simp: stays_in_def rollback_actions_def switch_actions_def next_action_def finish_def
      split: option.splits if_splits\<close>)
qed

lemma moves_same_model:
  assumes "stays_in m t" and "moves d t t'" and same: "model_rows m d = model_rows m d'"
  shows "moves d' t t'"
proof -
  obtain a acts where a: "tx_todo t = a # acts" "tx_action_step a d t = (t', d)"
    using assms(2) by (cases "tx_todo t") (auto simp: moves_def tx_step_def)
  have m: "about_model m a"
    using assms(1) a(1) by (simp add: stays_in_def)
  have seen: "model_rows m (tx_sees d t) = model_rows m (tx_sees d' t)"
    using same by (simp add: model_rows_seen [OF assms(1)])
  note decide = same_model_decides [OF seen]
  have "fst k = m \<Longrightarrow> row_at k (tx_sees d' t) = row_at k (tx_sees d t)" for k
    using decide(2) by simp
  then have "tx_action_step a d' t = (t', d')"
    using a m assms(2) decide(1,3) by (cases a) (auto simp: moves_def commits_next_def row_model_key(2) split: option.splits)
  then show ?thesis
    using a(1) assms(2) by (simp add: moves_def tx_step_def)
qed

lemma stays_in_begin: "stays_in (request_model q) (begin_tx q now)"
  by (cases q) (auto simp: stays_in_def begin_tx_def Let_def finish_def deploy_actions_def switch_actions_def
      split: option.split if_splits)

lemma moves_from_begin:
  assumes "(moves d)\<^sup>*\<^sup>* (begin_tx q now) t"
  shows "stays_in (request_model q) t" and "tx_request t = q" and "tx_now t = now"
proof -
  have keep: "tx_request t' = tx_request t \<and> tx_now t' = tx_now t" if "moves d t t'" for t t'
    using that by (cases "hd (tx_todo t)"; cases "tx_todo t")
      (auto simp: moves_def tx_step_def commits_next_def next_action_def lock_row_def write_row_def finish_def
        split: option.splits if_splits)
  from assms show "stays_in (request_model q) t" "tx_request t = q" "tx_now t = now"
    by (induction rule: rtranclp_induct) (auto simp: stays_in_begin keep intro: stays_in_step)
qed

lemma moves_on_other_tables:
  assumes "(moves d)\<^sup>*\<^sup>* (begin_tx q now) t" and "model_rows (request_model q) d = model_rows (request_model q) d'"
  shows "(moves d')\<^sup>*\<^sup>* (begin_tx q now) t"
  using assms(1)
proof (induction rule: rtranclp_induct)
  case (step t t')
  then show ?case
    using moves_same_model [OF moves_from_begin(1) [OF step.hyps(1)] step.hyps(2) assms(2)] by auto
qed simp

section \<open>Interleavings of transactions on different models\<close>

definition other_models :: "tx list \<Rightarrow> bool" where
  "other_models ts \<longleftrightarrow> (\<forall>i < length ts. \<forall>j < length ts. i \<noteq> j \<longrightarrow> tx_answer (ts ! i) = None \<longrightarrow> tx_answer (ts ! j) = None
     \<longrightarrow> request_model (tx_request (ts ! i)) \<noteq> request_model (tx_request (ts ! j)))"

text \<open>Steps between states in which no two open transactions are about one model.\<close>

definition apart_step :: "db \<times> tx list \<Rightarrow> db \<times> tx list \<Rightarrow> bool" where
  "apart_step s s' \<longleftrightarrow> registry_step s s' \<and> other_models (snd s) \<and> other_models (snd s')"

text \<open>Requests carried out one after the other, each with the number of its transaction, and the
  answers.\<close>

fun one_by_one :: "(nat \<times> registry_request \<times> db_calls) list \<Rightarrow> db \<Rightarrow> (nat \<times> answer) list \<times> db" where
  "one_by_one [] d = ([], d)"
| "one_by_one ((i, q, c) # qs) d =
     (let (res, d') = perform q c d; (answers, d'') = one_by_one qs d' in ((i, res) # answers, d''))"

lemma one_by_one_snoc:
  "one_by_one (qs @ [(i, q, c)]) d =
     (fst (one_by_one qs d) @ [(i, fst (perform q c (snd (one_by_one qs d))))], snd (perform q c (snd (one_by_one qs d))))"
  by (induction qs d rule: one_by_one.induct) (auto simp: split: prod.split)

lemma perform_keeps_key:
  assumes "distinct (map version_key (model_versions d))"
  shows "distinct (map version_key (model_versions (snd (perform q c d))))"
proof (cases q)
  case (RegisterVersion mv)
  have "version_key (row_of mv (db_now c)) \<notin> set (map version_key (model_versions d))"
    if "\<not> has_version (row_model_name (row_of mv (db_now c))) (row_version (row_of mv (db_now c))) d"
    using that by (auto simp: has_version_def is_version_def version_key_def)
  then show ?thesis
    using assms RegisterVersion register_op.keeps [of "\<lambda>d. distinct (map version_key (model_versions d))" d mv c]
    by (simp add: register_effect_def upsert_keys del: set_map)
next
  case (DeployVersion m v reason)
  then show ?thesis
    using assms deploy_op.keeps [of "\<lambda>d. distinct (map version_key (model_versions d))" d m v reason c]
    by (simp add: deploy_effect_def)
next
  case (RollbackModel m reason)
  then show ?thesis
    using assms rollback_op.keeps [of "\<lambda>d. distinct (map version_key (model_versions d))" d m reason c]
    by (simp add: rollback_effect_def split: option.split)
next
  case (SplitTraffic m v pct)
  have "map version_key (model_versions (traffic_effect m v pct c d)) = map version_key (model_versions d)"
    by (auto simp: traffic_effect_def version_key_def)
  then show ?thesis
    using assms SplitTraffic traffic_op.keeps [of "\<lambda>d. distinct (map version_key (model_versions d))" d m v pct c]
    by simp
qed

text \<open>A request whose connection fails, and one whose commit is carried out without an answer.\<close>

definition broken :: "string \<Rightarrow> instant \<Rightarrow> db_calls" where
  "broken err now = (undisturbed now)\<lparr>fails := (\<lambda>n. Some err)\<rparr>"

definition answer_lost :: "string \<Rightarrow> instant \<Rightarrow> db_calls" where
  "answer_lost err now = (undisturbed now)\<lparr>commits := CommitLost err\<rparr>"

lemma perform_refused:
  "request_actions q now = Inl err \<Longrightarrow> perform q (undisturbed now) d = (Inl err, d)"
  by (cases q) (auto simp: Register_eq SetTraffic_eq marshal_metrics_def split: option.splits if_splits)

lemma perform_broken:
  "request_actions q now = Inr acts \<Longrightarrow> perform q (broken err now) d = (Inl (DbError err), d)"
  by (cases q) (auto simp: Register_eq SetTraffic_eq Deploy_eq Rollback_eq marshal_metrics_def broken_def
      split: option.splits if_splits)

text \<open>The tables are those of the requests \<open>qs\<close> one by one, which are the closed transactions with
  their answers; an open transaction is where it would be with nobody else at work.\<close>

definition in_order :: "db \<Rightarrow> db \<times> tx list \<Rightarrow> (nat \<times> registry_request \<times> db_calls) list \<Rightarrow> bool" where
  "in_order d0 s qs \<longleftrightarrow> (case s of (d, ts) \<Rightarrow>
     distinct (map version_key (model_versions d)) \<and> snd (one_by_one qs d0) = d \<and> distinct (map fst qs)
     \<and> set (fst (one_by_one qs d0)) = {(i, res). i < length ts \<and> tx_answer (ts ! i) = Some res}
     \<and> (\<forall>(i, q, c) \<in> set qs. i < length ts \<and> tx_request (ts ! i) = q)
     \<and> (\<forall>i < length ts. tx_answer (ts ! i) = None \<longrightarrow>
          (moves d)\<^sup>*\<^sup>* (begin_tx (tx_request (ts ! i)) (tx_now (ts ! i))) (ts ! i)))"

lemma one_by_one_numbers: "map fst (fst (one_by_one qs d)) = map fst qs"
  by (induction qs d rule: one_by_one.induct) (auto split: prod.split)

lemma in_order_closed: "in_order d0 (d, ts) qs \<Longrightarrow> i \<in> set (map fst qs) \<Longrightarrow> tx_answer (ts ! i) \<noteq> None"
  by (auto simp: in_order_def simp flip: one_by_one_numbers [of qs d0] simp del: set_map) (auto simp: in_order_def)

lemma open_was_sent:
  assumes "(moves d)\<^sup>*\<^sup>* (begin_tx q now) t" and "tx_answer t = None"
  obtains acts where "request_actions q now = Inr acts"
proof (cases "request_actions q now")
  case (Inl err)
  then have "at_end (begin_tx q now)"
    using begin_refused by (simp add: at_end_def)
  then have "t = begin_tx q now"
    using assms(1) at_end_stays by (metis converse_rtranclpE)
  then show ?thesis
    using assms(2) begin_refused [OF Inl] by simp
qed

text \<open>Closing a transaction carries out its request.\<close>

lemma in_order_close:
  assumes ord: "in_order d0 (d, ts) qs" and i: "i < length ts" "tx_answer (ts ! i) = None"
    and t: "tx_answer t = Some res" "tx_request t = tx_request (ts ! i)"
    and run: "perform (tx_request (ts ! i)) c d = (res, d')"
    and others: "\<And>j. j < length ts \<Longrightarrow> j \<noteq> i \<Longrightarrow> tx_answer (ts ! j) = None \<Longrightarrow>
      model_rows (request_model (tx_request (ts ! j))) d = model_rows (request_model (tx_request (ts ! j))) d'"
  shows "in_order d0 (d', ts[i := t]) (qs @ [(i, tx_request (ts ! i), c)])"
proof -
  have d: "distinct (map version_key (model_versions d))" "snd (one_by_one qs d0) = d" "distinct (map fst qs)"
    "set (fst (one_by_one qs d0)) = {(i, res). i < length ts \<and> tx_answer (ts ! i) = Some res}"
    "\<forall>(i, q, c) \<in> set qs. i < length ts \<and> tx_request (ts ! i) = q"
    "\<forall>i < length ts. tx_answer (ts ! i) = None \<longrightarrow>
          (moves d)\<^sup>*\<^sup>* (begin_tx (tx_request (ts ! i)) (tx_now (ts ! i))) (ts ! i)"
    using ord by (simp_all add: in_order_def)
  have new: "i \<notin> fst ` set qs"
    using in_order_closed [OF ord, of i] i(2) by (metis set_map)
  have "distinct (map version_key (model_versions d'))"
    using perform_keeps_key [OF d(1), of "tx_request (ts ! i)" c] run by simp
  moreover have "set (fst (one_by_one (qs @ [(i, tx_request (ts ! i), c)]) d0))
      = {(j, r). j < length (ts[i := t]) \<and> tx_answer (ts[i := t] ! j) = Some r}"
    using d(2,4) i t run by (auto simp: one_by_one_snoc nth_list_update split: if_splits)
  moreover have "(moves d')\<^sup>*\<^sup>* (begin_tx (tx_request (ts ! j)) (tx_now (ts ! j))) (ts ! j)"
    if "j < length ts" "j \<noteq> i" "tx_answer (ts ! j) = None" for j
    using d(6) that others [OF that] moves_on_other_tables by blast
  ultimately show ?thesis
    using d(2,3,5) new run t i by (auto simp: in_order_def one_by_one_snoc nth_list_update)
qed

lemma commit_step:
  assumes "commits_next t" and "tx_step d t = (t', d')"
  shows "d' = tx_sees d t" and "tx_request t' = tx_request t"
  using assms by (auto simp: commits_next_def tx_step_def split: list.splits tx_action.splits)

lemma committed_others:
  assumes "(moves d)\<^sup>*\<^sup>* (begin_tx q now) t" and "n \<noteq> request_model q"
  shows "model_rows n (tx_sees d t) = model_rows n d"
  using assms model_rows_seen [OF moves_from_begin(1)] by simp

lemma undisturbed_end:
  assumes "distinct (map version_key (model_versions d))" and "(moves d)\<^sup>*\<^sup>* (begin_tx q now) t" and "at_end t"
    and "request_actions q now = Inr acts"
  shows "ends_with d t (fst (perform q (undisturbed now) d)) (snd (perform q (undisturbed now) d))"
  using alone_performs [OF assms(1,4)] same_end [OF assms(2,3)] ends_with_at_end by metis

lemma other_models_apart:
  "other_models ts \<Longrightarrow> i < length ts \<Longrightarrow> j < length ts \<Longrightarrow> j \<noteq> i \<Longrightarrow> tx_answer (ts ! i) = None
    \<Longrightarrow> tx_answer (ts ! j) = None \<Longrightarrow> request_model (tx_request (ts ! j)) \<noteq> request_model (tx_request (ts ! i))"
  unfolding other_models_def by blast

lemma in_order_arrives:
  assumes ord: "in_order d0 (d, ts) qs"
  shows "\<exists>qs'. in_order d0 (d, ts @ [begin_tx q now]) qs'"
proof (cases "request_actions q now")
  case (Inr acts)
  then have "in_order d0 (d, ts @ [begin_tx q now]) qs"
    using ord begin_open [OF Inr] by (auto simp: in_order_def nth_append split: if_splits)
  then show ?thesis
    by blast
next
  case (Inl err)
  have new: "length ts \<notin> fst ` set qs"
    using ord by (auto simp: in_order_def)
  have "in_order d0 (d, ts @ [begin_tx q now]) (qs @ [(length ts, q, undisturbed now)])"
    using ord begin_refused [OF Inl] perform_refused [OF Inl, of d] new
    by (auto simp: in_order_def nth_append one_by_one_snoc less_Suc_eq split: if_splits)
  then show ?thesis
    by blast
qed

lemma affected_means_split:
  assumes "(moves d)\<^sup>*\<^sup>* (begin_tx q now) t" and "CommitAffected \<in> set (tx_todo t)"
  obtains m v pct where "q = SplitTraffic m v pct"
proof -
  have "CommitAffected \<in> set (tx_todo t)" if "moves d t t'" "CommitAffected \<in> set (tx_todo t')" for t t'
    using that by (cases "tx_todo t"; cases "hd (tx_todo t)")
      (auto simp: moves_def tx_step_def rollback_actions_def switch_actions_def split: option.splits if_splits)
  with assms have "CommitAffected \<in> set (tx_todo (begin_tx q now))"
    by (induction rule: rtranclp_induct) auto
  then show ?thesis
    using that by (cases q) (auto simp: begin_tx_def Let_def deploy_actions_def switch_actions_def split: option.splits if_splits)
qed

lemma effects_lost [simp]:
  "register_effect mv (c\<lparr>commits := x\<rparr>) d = register_effect mv c d"
  "deploy_effect m v reason (c\<lparr>commits := x\<rparr>) d = deploy_effect m v reason c d"
  "rollback_effect m reason (c\<lparr>commits := x\<rparr>) d = rollback_effect m reason c d"
  "traffic_effect m v pct (c\<lparr>commits := x\<rparr>) d = traffic_effect m v pct c d"
  by (simp_all add: register_effect_def deploy_effect_def rollback_effect_def traffic_effect_def split: option.split)

lemma perform_lost:
  assumes "distinct (map version_key (model_versions d))" and "(moves d)\<^sup>*\<^sup>* (begin_tx q now) t" and "commits_next t"
    and "tx_step d t = (t', d')" and "request_actions q now = Inr acts"
  shows "perform q (answer_lost err now) d = (Inl (DbError err), d')"
proof -
  have e: "ends_with d t (fst (perform q (undisturbed now) d)) (snd (perform q (undisturbed now) d))"
    using undisturbed_end [OF assms(1,2) _ assms(5)] assms(3) by (simp add: at_end_def)
  obtain a acts' where a: "tx_todo t = a # acts'" "a = CommitAffected \<or> (\<exists>ans. a = Commit ans)"
    using assms(3) by (auto simp: commits_next_def split: list.splits tx_action.splits)
  from a(2) show ?thesis
  proof (elim disjE exE)
    assume "a = CommitAffected"
    then obtain m v pct where "q = SplitTraffic m v pct"
      using affected_means_split [OF assms(2)] a(1) by auto
    then show ?thesis
      using e assms(3,4,5) by (auto simp: ends_with_def SetTraffic_eq answer_lost_def tx_commit_def split: if_splits)
  next
    fix ans assume "a = Commit ans"
    then have "perform q (undisturbed now) d = (Inr ans, d')"
      using e assms(3,4) a(1) by (auto simp: ends_with_def tx_step_def prod_eq_iff)
    then show ?thesis
      using assms(5) by (cases q) (auto simp: Register_eq SetTraffic_eq Deploy_eq Rollback_eq marshal_metrics_def
          answer_lost_def tx_commit_def split: option.splits if_splits, metis)
  qed
qed

lemma in_order_proceeds:
  assumes ord: "in_order d0 (d, ts) qs" and apart: "other_models ts"
    and proceeds: "i < length ts" "tx_answer (ts ! i) = None" "tx_step d (ts ! i) = (t, d')"
  shows "\<exists>qs'. in_order d0 (d', ts[i := t]) qs'"
proof -
  let ?q = "tx_request (ts ! i)" and ?now = "tx_now (ts ! i)"
  have key: "distinct (map version_key (model_versions d))"
    and run: "(moves d)\<^sup>*\<^sup>* (begin_tx ?q ?now) (ts ! i)"
    using ord proceeds(1,2) by (simp_all add: in_order_def)
  obtain acts where acts: "request_actions ?q ?now = Inr acts"
    by (rule open_was_sent [OF run proceeds(2)])
  show ?thesis
  proof (cases "commits_next (ts ! i)")
    case True
    then have "ends_with d (ts ! i) (fst (perform ?q (undisturbed ?now) d)) (snd (perform ?q (undisturbed ?now) d))"
      by (intro undisturbed_end [OF key run _ acts]) (simp add: at_end_def)
    then have "perform ?q (undisturbed ?now) d = (the (tx_answer t), d')" "tx_answer t = Some (the (tx_answer t))"
      using True proceeds(3) by (auto simp: ends_with_def prod_eq_iff)
    then show ?thesis
      using in_order_close [OF ord proceeds(1,2), of t "the (tx_answer t)" "undisturbed ?now" d']
        commit_step [OF True proceeds(3)] committed_others [OF run other_models_apart [OF apart proceeds(1)]]
        proceeds(2) by auto
  next
    case False
    show ?thesis
    proof (cases "tx_todo (ts ! i) = []")
      case True
      then show ?thesis
        using ord proceeds(3) by (auto simp: tx_step_def)
    next
      case todo: False
      have d': "d' = d" and m: "moves d (ts ! i) t"
        using moves_unless_commit [OF proceeds(2) todo False proceeds(3)] by simp_all
      have run': "(moves d)\<^sup>*\<^sup>* (begin_tx ?q ?now) t"
        using run m by simp
      show ?thesis
      proof (cases "tx_answer t")
        case None
        then have "in_order d0 (d, ts[i := t]) qs"
          using ord run' proceeds(1,2) moves_from_begin(2,3) [OF run']
          by (auto simp: in_order_def nth_list_update split: if_splits)
        then show ?thesis
          using d' by auto
      next
        case (Some res)
        then have "perform ?q (undisturbed ?now) d = (res, d)"
          using undisturbed_end [OF key run' _ acts] by (auto simp: at_end_def ends_with_def prod_eq_iff split: if_splits)
        then show ?thesis
          using in_order_close [OF ord proceeds(1,2) Some moves_from_begin(2) [OF run']] d' by auto
      qed
    qed
  qed
qed

lemma in_order_aborts:
  assumes ord: "in_order d0 (d, ts) qs" and aborts: "i < length ts" "tx_answer (ts ! i) = None"
  shows "\<exists>qs'. in_order d0 (d, ts[i := finish (Inl (DbError err)) (ts ! i)]) qs'"
proof -
  let ?q = "tx_request (ts ! i)" and ?now = "tx_now (ts ! i)"
  have run: "(moves d)\<^sup>*\<^sup>* (begin_tx ?q ?now) (ts ! i)"
    using ord aborts by (simp add: in_order_def)
  obtain acts where "request_actions ?q ?now = Inr acts"
    by (rule open_was_sent [OF run aborts(2)])
  from perform_broken [OF this, of err d] show ?thesis
    using in_order_close [OF ord aborts, of "finish (Inl (DbError err)) (ts ! i)"] by auto
qed

lemma in_order_loses_answer:
  assumes ord: "in_order d0 (d, ts) qs" and apart: "other_models ts"
    and loses_answer: "i < length ts" "tx_answer (ts ! i) = None" "commits_next (ts ! i)" "tx_step d (ts ! i) = (t, d')"
  shows "\<exists>qs'. in_order d0 (d', ts[i := finish (Inl (DbError err)) (ts ! i)]) qs'"
proof -
  let ?q = "tx_request (ts ! i)" and ?now = "tx_now (ts ! i)"
  have key: "distinct (map version_key (model_versions d))"
    and run: "(moves d)\<^sup>*\<^sup>* (begin_tx ?q ?now) (ts ! i)"
    using ord loses_answer(1,2) by (simp_all add: in_order_def)
  obtain acts where acts: "request_actions ?q ?now = Inr acts"
    by (rule open_was_sent [OF run loses_answer(2)])
  from perform_lost [OF key run loses_answer(3,4) acts, of err] show ?thesis
    using in_order_close [OF ord loses_answer(1,2), of "finish (Inl (DbError err)) (ts ! i)" "Inl (DbError err)"
        "answer_lost err ?now" d']
      commit_step [OF loses_answer(3,4)] committed_others [OF run other_models_apart [OF apart loses_answer(1)]]
      loses_answer(2) by auto
qed

lemma in_order_step:
  assumes ord: "in_order d0 (d, ts) qs" and apart: "other_models ts" and "registry_step (d, ts) (d', ts')"
  shows "\<exists>qs'. in_order d0 (d', ts') qs'"
  using assms(3)
  by (cases rule: registry_step.cases)
    (use in_order_arrives [OF ord] in_order_proceeds [OF ord apart] in_order_aborts [OF ord]
      in_order_loses_answer [OF ord apart] in \<open>blast+\<close>)

lemma apart_in_order:
  assumes "apart_step\<^sup>*\<^sup>* (d, []) s" and "distinct (map version_key (model_versions d))"
  shows "\<exists>qs. in_order d s qs"
  using assms(1)
proof (induction rule: rtranclp_induct)
  case base
  show ?case
    using assms(2) by (intro exI [of _ "[]"]) (simp add: in_order_def)
next
  case (step s s')
  then show ?case
    using in_order_step by (cases s; cases s') (auto simp: apart_step_def)
qed

end
