(* ===== verification/Http.thy ===== *)
theory Http
  imports Queue
begin

text \<open>
  What the HTTP services share: requests and replies, \<open>writeJSON\<close>, \<open>http.Error\<close>, and the
  metrics middleware of \<open>shared/pkg/metrics/metrics.go\<close>.

  A handler is a function of the request and the state it works on; it may wait for ever
  (\<open>Blocked\<close>), because enqueueing may. A reply has one status: every handler here writes it
  once. A JSON reply is its document; \<open>http.Error\<close> sends its text followed by a newline.
\<close>

record http_request =
  hq_Method :: string
  hq_APIKey :: string
  hq_RemoteAddr :: string
  hq_Body :: body

datatype reply_body = JsonReply json | TextReply string

record http_reply =
  rp_status :: int
  rp_body :: reply_body

type_synonym 's http_handler = "http_request \<Rightarrow> 's \<Rightarrow> (http_reply \<times> 's) run"

definition writeJSON :: "int \<Rightarrow> json \<Rightarrow> http_reply" where
  "writeJSON status v = \<lparr>rp_status = status, rp_body = JsonReply v\<rparr>"

definition http_Error :: "string \<Rightarrow> int \<Rightarrow> http_reply" where
  "http_Error text status = \<lparr>rp_status = status, rp_body = TextReply (text @ [CHR 0x0A])\<rparr>"

lemma writeJSON_parts [simp]:
  "rp_status (writeJSON st v) = st" "rp_body (writeJSON st v) = JsonReply v"
  "writeJSON st v = writeJSON st' v' \<longleftrightarrow> st = st' \<and> v = v'"
  by (auto simp: writeJSON_def)

lemma http_Error_parts [simp]:
  "rp_status (http_Error t st) = st" "rp_body (http_Error t st) = TextReply (t @ [CHR 0x0A])"
  by (simp_all add: http_Error_def)

section \<open>The metrics middleware\<close>

text \<open>The counters, as the labels they were incremented with, latest last.\<close>

record http_metrics =
  hm_InFlight :: int
  hm_RequestDuration :: "(string \<times> string) list"
  hm_RequestsTotal :: "(string \<times> string \<times> string) list"
  hm_ErrorsTotal :: "(string \<times> string) list"

definition metrics_Middleware :: "string \<Rightarrow> 's http_handler \<Rightarrow> (http_metrics \<times> 's) http_handler" where
  "metrics_Middleware route next r = (\<lambda>(m, s).
     let m1 = m\<lparr>hm_InFlight := hm_InFlight m + 1\<rparr> in
     case next r s of
       Done (rep, s') \<Rightarrow>
         (let status = rp_status rep;
              m2 = m1\<lparr>hm_RequestDuration := hm_RequestDuration m1 @ [(route, hq_Method r)],
                      hm_RequestsTotal := hm_RequestsTotal m1 @ [(route, hq_Method r, strconv_itoa status)]\<rparr>;
              m3 = (if 500 \<le> status
                    then m2\<lparr>hm_ErrorsTotal := hm_ErrorsTotal m2 @ [(route, ''server_error'')]\<rparr> else m2)
          in Done (rep, (m3\<lparr>hm_InFlight := hm_InFlight m3 - 1\<rparr>, s')))
     | Blocked \<Rightarrow> Blocked
     | Panicked \<Rightarrow> Panicked)"

text \<open>The middleware is transparent: the reply and the state are those of the wrapped handler.\<close>

lemma metrics_Middleware_Done_iff:
  "metrics_Middleware route next r (m, s) = Done (rep, (m', s')) \<longleftrightarrow>
     next r s = Done (rep, s') \<and>
     m' = m\<lparr>hm_RequestDuration := hm_RequestDuration m @ [(route, hq_Method r)],
            hm_RequestsTotal := hm_RequestsTotal m @ [(route, hq_Method r, strconv_itoa (rp_status rep))],
            hm_ErrorsTotal := hm_ErrorsTotal m @ (if 500 \<le> rp_status rep then [(route, ''server_error'')] else [])\<rparr>"
  by (auto simp: metrics_Middleware_def Let_def split: run.splits)

end
