(* ===== verification/DeployerHandler.thy ===== *)
theory DeployerHandler
  imports ModelRegistry Http
begin

text \<open>
  The REST interface of the model deployer, \<open>services/model-deployer-go/internal/handler/http.go\<close>:
  one definition per handler, and \<open>deployer_serve\<close> for the routes of \<open>cmd/deployer/main.go\<close>.
  \<open>jerr\<close> is the text of the error \<open>encoding/json\<close> reports for the request, if it reports one.
\<close>

definition error_text :: "string \<Rightarrow> registry_error \<Rightarrow> string" where
  "error_text jerr e =
     (case e of ErrNotFound \<Rightarrow> ''model version not found'' | DbError err \<Rightarrow> err | MarshalError \<Rightarrow> jerr)"

definition writeError :: "int \<Rightarrow> string \<Rightarrow> http_reply" where
  "writeError status err = writeJSON status (JObj [(''error'', JStr err)])"

lemma writeError_status [simp]: "rp_status (writeError st e) = st"
  by (simp add: writeError_def)

section \<open>Request bodies\<close>

record registerRequest =
  rr_ModelName :: string
  rr_Version :: string
  rr_Precision :: string
  rr_ArtifactPath :: string
  rr_Metrics :: "(string, flt) gomap"

definition zero_register :: registerRequest where
  "zero_register = \<lparr>rr_ModelName = [], rr_Version = [], rr_Precision = [], rr_ArtifactPath = [], rr_Metrics = []\<rparr>"

definition register_field :: "string \<Rightarrow> json \<Rightarrow> registerRequest \<Rightarrow> registerRequest \<times> bool" where
  "register_field k v q =
     (if k = ''model_name'' then apfst (\<lambda>x. q\<lparr>rr_ModelName := x\<rparr>) (dec_string v (rr_ModelName q))
      else if k = ''version'' then apfst (\<lambda>x. q\<lparr>rr_Version := x\<rparr>) (dec_string v (rr_Version q))
      else if k = ''precision'' then apfst (\<lambda>x. q\<lparr>rr_Precision := x\<rparr>) (dec_string v (rr_Precision q))
      else if k = ''artifact_path'' then apfst (\<lambda>x. q\<lparr>rr_ArtifactPath := x\<rparr>) (dec_string v (rr_ArtifactPath q))
      else if k = ''metrics'' then apfst (\<lambda>x. q\<lparr>rr_Metrics := x\<rparr>) (dec_map dec_f64 flt_zero v (rr_Metrics q))
      else (q, True))"

record deployRequest =
  dq_Version :: string
  dq_Reason :: string

definition deploy_field :: "string \<Rightarrow> json \<Rightarrow> deployRequest \<Rightarrow> deployRequest \<times> bool" where
  "deploy_field k v q =
     (if k = ''version'' then apfst (\<lambda>x. q\<lparr>dq_Version := x\<rparr>) (dec_string v (dq_Version q))
      else if k = ''reason'' then apfst (\<lambda>x. q\<lparr>dq_Reason := x\<rparr>) (dec_string v (dq_Reason q))
      else (q, True))"

text \<open>A rollback request has the reason only.\<close>

definition rollback_field :: "string \<Rightarrow> json \<Rightarrow> string \<Rightarrow> string \<times> bool" where
  "rollback_field k v reason = (if k = ''reason'' then dec_string v reason else (reason, True))"

record trafficRequest =
  tq_Version :: string
  tq_TrafficPct :: go_int

definition traffic_field :: "string \<Rightarrow> json \<Rightarrow> trafficRequest \<Rightarrow> trafficRequest \<times> bool" where
  "traffic_field k v q =
     (if k = ''version'' then apfst (\<lambda>x. q\<lparr>tq_Version := x\<rparr>) (dec_string v (tq_Version q))
      else if k = ''traffic_pct'' then apfst (\<lambda>x. q\<lparr>tq_TrafficPct := x\<rparr>) (dec_int64 v (tq_TrafficPct q))
      else (q, True))"

section \<open>The handlers\<close>

text \<open>The zero \<open>time.Time\<close>, the first of January of year 1.\<close>

definition zero_time :: instant where
  "zero_time = - 62135596800 * 10 ^ 9"

definition Handler_Register :: "string \<Rightarrow> body \<Rightarrow> db_calls \<Rightarrow> db \<Rightarrow> http_reply \<times> db" where
  "Handler_Register jerr body c d =
     (case decode_struct register_field zero_register body of
        None \<Rightarrow> (writeError 400 jerr, d)
      | Some req \<Rightarrow>
          if rr_ModelName req = [] \<or> rr_Version req = [] \<or> rr_ArtifactPath req = []
          then (writeError 400 ''model_name, version and artifact_path are required'', d)
          else
            (let precision = (if rr_Precision req = [] then PrecisionFP32 else rr_Precision req)
             in case ModelRegistry_Register
                       \<lparr>mv_ModelName = rr_ModelName req, mv_Version = rr_Version req, mv_Stage = [],
                        mv_Precision = precision, mv_ArtifactPath = rr_ArtifactPath req,
                        mv_Metrics = rr_Metrics req, mv_TrafficPct = 0,
                        mv_CreatedAt = zero_time\<rparr> c d of
                  (Inl e, d') \<Rightarrow> (writeError 500 (error_text jerr e), d')
                | (Inr _, d') \<Rightarrow> (writeJSON 201 (JObj [(''status'', JStr ''registered'')]), d')))"

definition version_json :: "ModelVersion \<Rightarrow> json" where
  "version_json mv = JObj
     [(''model_name'', JStr (mv_ModelName mv)), (''version'', JStr (mv_Version mv)),
      (''stage'', JStr (mv_Stage mv)), (''precision'', JStr (mv_Precision mv)),
      (''artifact_path'', JStr (mv_ArtifactPath mv)), (''metrics'', metrics_json (mv_Metrics mv)),
      (''traffic_pct'', JInt (sint (mv_TrafficPct mv))), (''created_at'', JTime (mv_CreatedAt mv))]"

definition Handler_List :: "string \<Rightarrow> db_calls \<Rightarrow> db \<Rightarrow> http_reply" where
  "Handler_List name c d =
     (case ModelRegistry_List name c d of
        Inl e \<Rightarrow> writeError 500 (error_text [] e)
      | Inr versions \<Rightarrow> writeJSON 200 (if versions = [] then JNull else JArr (map version_json versions)))"

definition Handler_Production :: "string \<Rightarrow> db_calls \<Rightarrow> db \<Rightarrow> http_reply" where
  "Handler_Production name c d =
     (case ModelRegistry_Production name c d of
        Inl e \<Rightarrow> writeError (if e = ErrNotFound then 404 else 500) (error_text [] e)
      | Inr mv \<Rightarrow> writeJSON 200 (version_json mv))"

definition Handler_Deploy :: "string \<Rightarrow> body \<Rightarrow> db_calls \<Rightarrow> db \<Rightarrow> http_reply \<times> db" where
  "Handler_Deploy name body c d =
     (case decode_struct deploy_field \<lparr>dq_Version = [], dq_Reason = []\<rparr> body of
        None \<Rightarrow> (writeError 400 ''version is required'', d)
      | Some req \<Rightarrow>
          if dq_Version req = [] then (writeError 400 ''version is required'', d)
          else case ModelRegistry_Deploy name (dq_Version req) (dq_Reason req) c d of
                 (Inl e, d') \<Rightarrow> (writeError (if e = ErrNotFound then 404 else 500) (error_text [] e), d')
               | (Inr _, d') \<Rightarrow>
                   (writeJSON 200 (JObj [(''status'', JStr ''deployed''), (''version'', JStr (dq_Version req))]), d'))"

definition Handler_Rollback :: "string \<Rightarrow> body \<Rightarrow> db_calls \<Rightarrow> db \<Rightarrow> http_reply \<times> db" where
  "Handler_Rollback name body c d =
     (let reason = decode_ignoring rollback_field [] body in
      case ModelRegistry_Rollback name reason c d of
        (Inl e, d') \<Rightarrow> (writeError (if e = ErrNotFound then 404 else 500) (error_text [] e), d')
      | (Inr prev, d') \<Rightarrow>
          (writeJSON 200 (JObj [(''status'', JStr ''rolled_back''), (''version'', JStr prev)]), d'))"

definition Handler_Traffic :: "string \<Rightarrow> body \<Rightarrow> db_calls \<Rightarrow> db \<Rightarrow> http_reply \<times> db" where
  "Handler_Traffic name body c d =
     (case decode_struct traffic_field \<lparr>tq_Version = [], tq_TrafficPct = 0\<rparr> body of
        None \<Rightarrow> (writeError 400 ''version is required'', d)
      | Some req \<Rightarrow>
          if tq_Version req = [] then (writeError 400 ''version is required'', d)
          else if sint (tq_TrafficPct req) < 0 \<or> 100 < sint (tq_TrafficPct req)
          then (writeError 400 ''traffic_pct must be 0-100'', d)
          else case ModelRegistry_SetTraffic name (tq_Version req) (tq_TrafficPct req) c d of
                 (Inl e, d') \<Rightarrow> (writeError (if e = ErrNotFound then 404 else 500) (error_text [] e), d')
               | (Inr _, d') \<Rightarrow>
                   (writeJSON 200 (JObj [(''status'', JStr ''updated''),
                      (''traffic_pct'', JInt (sint (tq_TrafficPct req))),
                      (''version'', JStr (tq_Version req))]), d'))"

definition Deployer_Healthz :: http_reply where
  "Deployer_Healthz = writeJSON 200 (JObj [(''status'', JStr ''ok'')])"

text \<open>The routes; \<open>name\<close> is the path's \<open>{name}\<close>.\<close>

datatype deployer_request =
    PostRegister body
  | GetVersions string
  | GetProduction string
  | PostDeploy string body
  | PostRollback string body
  | PostTraffic string body
  | GetHealthz

fun deployer_serve :: "string \<Rightarrow> deployer_request \<Rightarrow> db_calls \<Rightarrow> db \<Rightarrow> http_reply \<times> db" where
  "deployer_serve jerr (PostRegister b) c d = Handler_Register jerr b c d"
| "deployer_serve jerr (GetVersions name) c d = (Handler_List name c d, d)"
| "deployer_serve jerr (GetProduction name) c d = (Handler_Production name c d, d)"
| "deployer_serve jerr (PostDeploy name b) c d = Handler_Deploy name b c d"
| "deployer_serve jerr (PostRollback name b) c d = Handler_Rollback name b c d"
| "deployer_serve jerr (PostTraffic name b) c d = Handler_Traffic name b c d"
| "deployer_serve jerr GetHealthz c d = (Deployer_Healthz, d)"

section \<open>The running deployer\<close>

text \<open>The tables after any sequence of requests, each with any database failures.\<close>

inductive deployer_reachable :: "db \<Rightarrow> bool" where
  empty_tables: "deployer_reachable \<lparr>model_versions = [], deployment_events = []\<rparr>"
| request: "deployer_reachable d \<Longrightarrow> deployer_serve jerr q c d = (rep, d') \<Longrightarrow> deployer_reachable d'"

inductive_cases deployer_requestE: "deployer_reachable d"

end
