(* ===== verification/Deployer.thy ===== *)
theory Deployer
  imports DeployerHandler
begin

text \<open>
  The model deployer as a whole: what any sequence of requests keeps of its tables, and the
  properties of its operations, with a concrete deployer for their instances.
\<close>

section \<open>Requests keep the invariant\<close>

lemma Handler_Register_cases:
  "(\<exists>t. Handler_Register jerr b c d = (writeError 400 t, d)) \<or>
   (\<exists>mv. mv_Stage mv = [] \<and> mv_TrafficPct mv = 0 \<and>
      snd (Handler_Register jerr b c d) = snd (ModelRegistry_Register mv c d) \<and>
      rp_status (fst (Handler_Register jerr b c d))
        = (case fst (ModelRegistry_Register mv c d) of Inl _ \<Rightarrow> 500 | Inr _ \<Rightarrow> 201))"
proof (cases "decode_struct register_field zero_register b")
  case None
  then show ?thesis
    by (auto simp: Handler_Register_def)
next
  case (Some req)
  show ?thesis
  proof (cases "rr_ModelName req = [] \<or> rr_Version req = [] \<or> rr_ArtifactPath req = []")
    case True
    then show ?thesis
      using Some by (auto simp: Handler_Register_def)
  next
    case False
    then show ?thesis
      using Some by (intro disjI2 exI [of _ "\<lparr>mv_ModelName = rr_ModelName req, mv_Version = rr_Version req,
          mv_Stage = [], mv_Precision = (if rr_Precision req = [] then PrecisionFP32 else rr_Precision req),
          mv_ArtifactPath = rr_ArtifactPath req, mv_Metrics = rr_Metrics req, mv_TrafficPct = 0,
          mv_CreatedAt = zero_time\<rparr>"])
        (auto simp: Handler_Register_def Let_def split: prod.split sum.split)
  qed
qed

text \<open>Every request that changes the tables does so by one of the registry's operations.\<close>

inductive registry_call :: "(db_calls \<Rightarrow> db \<Rightarrow> db) \<Rightarrow> bool" where
  registers [simp]: "mv_Stage mv = [] \<Longrightarrow> mv_TrafficPct mv = 0 \<Longrightarrow> registry_call (register_effect mv)"
| deploys [simp]: "registry_call (deploy_effect m v reason)"
| rolls_back [simp]: "registry_call (rollback_effect m reason)"
| splits_traffic [simp]: "0 \<le> sint pct \<Longrightarrow> sint pct \<le> 100 \<Longrightarrow> registry_call (traffic_effect m v pct)"

lemma registry_call_ok: "registry_call eff \<Longrightarrow> registry_ok d \<Longrightarrow> registry_ok (eff c d)"
  by (auto elim!: registry_call.cases intro!: inv_intro simp: stage_or_staging_def)

context db_operation
begin

text \<open>A handler that answers below 400 only when its operation succeeded.\<close>

lemma settles:
  assumes "op c d = (r, d')" and "registry_call effect" and "\<And>x. r = Inr x \<Longrightarrow> st < (400 :: int)"
  shows "d' = d \<or> (\<exists>eff. registry_call eff \<and> d' = eff c d \<and> (st < 400 \<or> (\<exists>err. commits c = CommitLost err)))"
  using assms applied [of c d] refused [of c d] by (cases r) blast+

end

lemma serve_effect:
  assumes "deployer_serve jerr q c d = (rep, d')"
  shows "d' = d \<or> (\<exists>eff. registry_call eff \<and> d' = eff c d \<and>
    (rp_status rep < 400 \<or> (\<exists>err. commits c = CommitLost err)))"
proof (cases q)
  case (PostRegister b)
  have reg: "Handler_Register jerr b c d = (rep, d')"
    using assms PostRegister by simp
  from Handler_Register_cases [of jerr b c d] show ?thesis
  proof (elim disjE exE conjE)
    fix t assume "Handler_Register jerr b c d = (writeError 400 t, d)"
    then show ?thesis
      using reg by simp
  next
    fix mv assume "mv_Stage mv = []" "mv_TrafficPct mv = 0"
      and "snd (Handler_Register jerr b c d) = snd (ModelRegistry_Register mv c d)"
      and "rp_status (fst (Handler_Register jerr b c d))
        = (case fst (ModelRegistry_Register mv c d) of Inl _ \<Rightarrow> 500 | Inr _ \<Rightarrow> 201)"
    then show ?thesis
      using reg by (intro register_op.settles [of mv c d "fst (ModelRegistry_Register mv c d)"])
        (auto simp: prod_eq_iff)
  qed
next
  case (PostDeploy name b)
  then show ?thesis
    using assms deploy_op.settles [of name _ _ c d _ d' "rp_status rep"]
    by (auto simp: Handler_Deploy_def Let_def split: option.splits if_splits prod.splits sum.splits) blast+
next
  case (PostRollback name b)
  then show ?thesis
    using assms rollback_op.settles [of name _ c d _ d' "rp_status rep"]
    by (auto simp: Handler_Rollback_def Let_def split: if_splits prod.splits sum.splits) blast+
next
  case (PostTraffic name b)
  then show ?thesis
    using assms traffic_op.settles [of name _ _ c d _ d' "rp_status rep"]
    by (auto simp: Handler_Traffic_def Let_def not_less split: option.splits if_splits prod.splits sum.splits)
       (blast intro: splits_traffic)+
qed (use assms in auto)

lemma reachable_ok: "deployer_reachable d \<Longrightarrow> registry_ok d"
proof (induction rule: deployer_reachable.induct)
  case empty_tables
  then show ?case
    by (simp add: registry_ok_def one_production_def audited_def)
next
  case (request d jerr q c rep d')
  then show ?case
    using serve_effect registry_call_ok by metis
qed

section \<open>Reading after writing\<close>

lemma mset_newest_first [simp]: "mset (newest_first rs) = mset rs" "set (newest_first rs) = set rs"
  "length (newest_first rs) = length rs"
  by (simp_all add: newest_first_def)

lemma newest_first_sorted: "sorted_wrt (\<lambda>r r'. row_created_at r' \<le> row_created_at r) (newest_first rs)"
proof -
  have "sorted (map (\<lambda>r. - row_created_at r) (newest_first rs))"
    unfolding newest_first_def by (rule sorted_sort_key)
  then show ?thesis
    by (simp add: sorted_map)
qed

lemma list_rows_ok: "(\<And>n. fail n = None) \<Longrightarrow> list_rows fail k rs = Inr (map scanVersion rs)"
  by (induction rs arbitrary: k) auto

lemma newest_archived_iff:
  "newest_archived m d = None \<longleftrightarrow> (\<forall>r \<in> set (model_versions d). \<not> in_stage m StageArchived r)"
proof -
  let ?rs = "filter (in_stage m StageArchived) (model_versions d)"
  have "newest_first ?rs = [] \<longleftrightarrow> ?rs = []"
    by (metis length_0_conv mset_newest_first(3))
  then show ?thesis
    by (cases "newest_first ?rs") (auto simp: newest_archived_def filter_empty_conv)
qed

lemma newest_archived_Some:
  assumes "newest_archived m d = Some v"
  shows "\<exists>r \<in> set (model_versions d). in_stage m StageArchived r \<and> row_version r = v \<and>
    (\<forall>r' \<in> set (model_versions d). in_stage m StageArchived r' \<longrightarrow> row_created_at r' \<le> row_created_at r)"
proof -
  let ?rs = "filter (in_stage m StageArchived) (model_versions d)"
  obtain r rest where rs: "newest_first ?rs = r # rest" and v: "row_version r = v"
    using assms by (auto simp: newest_archived_def split: list.splits)
  have "set (r # rest) = set ?rs"
    using mset_newest_first(2) [of ?rs] rs by simp
  moreover have "\<forall>r' \<in> set rest. row_created_at r' \<le> row_created_at r"
    using newest_first_sorted [of ?rs] rs by simp
  ultimately show ?thesis
    using v by (intro bexI [of _ r]) auto
qed

lemma switch_Production:
  assumes "has_version m v d" and "fails c 0 = None"
  shows "\<exists>r. is_version m v r \<and> ModelRegistry_Production m c (switch_production m v action reason now d)
    = Inr (scanVersion (r\<lparr>row_stage := StageProduction, row_traffic_pct := 100\<rparr>)) \<and> r \<in> set (model_versions d)"
proof -
  let ?d = "switch_production m v action reason now d"
  obtain r where r: "r \<in> set (model_versions d)" "is_version m v r"
    using assms(1) by (auto simp: has_version_def)
  then have "r\<lparr>row_stage := StageProduction, row_traffic_pct := 100\<rparr>
      \<in> set (filter (in_stage m StageProduction) (model_versions ?d))"
    by (force simp: switch_production_def in_stage_def is_version_def)
  then obtain r1 rest where rs: "filter (in_stage m StageProduction) (model_versions ?d) = r1 # rest"
    by (cases "filter (in_stage m StageProduction) (model_versions ?d)") auto
  then have "r1 \<in> set (filter (in_stage m StageProduction) (model_versions ?d))"
    by simp
  then have "r1 \<in> set (model_versions ?d)" "in_stage m StageProduction r1"
    by simp_all
  then obtain r0 where r0: "r0 \<in> set (model_versions d)"
    and r1: "r1 = (if is_version m v r0 then r0\<lparr>row_stage := StageProduction, row_traffic_pct := 100\<rparr>
      else if in_stage m StageProduction r0 then r0\<lparr>row_stage := StageArchived, row_traffic_pct := 0\<rparr> else r0)"
    by (auto simp: switch_production_def)
  have "is_version m v r0"
    using \<open>in_stage m StageProduction r1\<close> by (auto simp: r1 in_stage_def split: if_splits)
  then show ?thesis
    using rs assms(2) r0 r1 by (auto simp: ModelRegistry_Production_def ModelRegistry_queryOne_def)
qed

lemma scan_metrics:
  assumes "distinct (map fst m)"
  shows "map_of (fst (dec_map dec_f64 z (metrics_json m) [])) = map_of m"
proof -
  have dec: "fst (dec_entries dec_f64 z (map (\<lambda>(k, x). (k, JFlt x)) kvs) acc) = fold (\<lambda>(k, x). AList.update k x) kvs acc"
    for kvs acc and z :: flt
    by (induction kvs arbitrary: acc) (auto simp: Let_def split: prod.split)
  have "map_of (fold (\<lambda>(k, x). AList.update k x) kvs acc) = map_of acc ++ map_of (rev kvs)"
    for kvs :: "(string \<times> flt) list" and acc
    by (induction kvs arbitrary: acc) (auto simp: update_conv' map_add_def fun_eq_iff split: option.splits)
  moreover have "map_of (rev (sort_key fst m)) = map_of m"
  proof (rule map_of_inject_set [THEN iffD2])
    show "distinct (map fst (rev (sort_key fst m)))"
      using assms by (simp add: rev_map [symmetric] distinct_map)
  qed (use assms in auto)
  ultimately show ?thesis
    by (auto simp: metrics_json_def dec)
qed
section \<open>A concrete deployer\<close>

definition calm :: "instant \<Rightarrow> db_calls" where
  "calm t = \<lparr>fails = (\<lambda>_. None), commits = Committed, db_now = t\<rparr>"

lemma calm_parts [simp]: "fails (calm t) n = None" "commits (calm t) = Committed" "db_now (calm t) = t"
  by (simp_all add: calm_def)

definition demo_register :: "string \<Rightarrow> body" where
  "demo_register v = Doc (JObj [(''model_name'', JStr ''m''), (''version'', JStr v), (''artifact_path'', JStr ''p'')])"

definition demo_deploy :: "string \<Rightarrow> body" where
  "demo_deploy v = Doc (JObj [(''version'', JStr v)])"

definition demo_row :: "string \<Rightarrow> string \<Rightarrow> int \<Rightarrow> instant \<Rightarrow> version_row" where
  "demo_row v stage pct t =
     \<lparr>row_model_name = ''m'', row_version = v, row_stage = stage, row_precision = PrecisionFP32,
      row_artifact_path = ''p'', row_metrics = JNull, row_traffic_pct = pct, row_created_at = t\<rparr>"

definition demo_event :: "string \<Rightarrow> instant \<Rightarrow> event_row" where
  "demo_event v t =
     \<lparr>ev_model_name = ''m'', ev_version = v, ev_action = ''deploy'', ev_reason = [], ev_created_at = t\<rparr>"

text \<open>Three versions registered in order, then 3, 1 and 2 deployed in this order.\<close>

definition demo_db :: db where
  "demo_db =
     \<lparr>model_versions = [demo_row ''1'' StageArchived 0 1, demo_row ''2'' StageProduction 100 2,
                        demo_row ''3'' StageArchived 0 3],
      deployment_events = [demo_event ''3'' 4, demo_event ''1'' 5, demo_event ''2'' 6]\<rparr>"

lemma demo_registers:
  "v \<noteq> [] \<Longrightarrow> snd (Handler_Register jerr (demo_register v) (calm t) d)
     = upsert_version t (demo_row v StageStaging 0 t) d"
  by (simp add: Handler_Register_def demo_register_def decode_struct_def register_field_def lower_def zero_register_def
      Register_eq fits_int4_def register_effect_def row_of_def stage_or_staging_def metrics_json_def tx_commit_def
      demo_row_def)

lemma demo_deploys:
  "v \<noteq> [] \<Longrightarrow> has_version ''m'' v d \<Longrightarrow> snd (Handler_Deploy ''m'' (demo_deploy v) (calm t) d)
     = switch_production ''m'' v ''deploy'' [] t d"
  by (simp add: Handler_Deploy_def demo_deploy_def decode_struct_def deploy_field_def lower_def Deploy_eq tx_commit_def
      deploy_effect_def)

lemma reachable_step: "deployer_reachable d \<Longrightarrow> snd (deployer_serve jerr q c d) = d' \<Longrightarrow> deployer_reachable d'"
  by (metis deployer_reachable.request prod.collapse)

lemma demo_db_reachable: "deployer_reachable demo_db"
proof -
  define rows where "rows = (\<lambda>s1 p1 s2 p2 s3 p3. [demo_row ''1'' s1 p1 1, demo_row ''2'' s2 p2 2, demo_row ''3'' s3 p3 3])"
  let ?st = "rows StageStaging 0 StageStaging 0"
  have register: "deployer_reachable d \<Longrightarrow> v \<noteq> [] \<Longrightarrow> upsert_version t (demo_row v StageStaging 0 t) d = d'
      \<Longrightarrow> deployer_reachable d'" for d d' v t
    by (rule reachable_step [where q = "PostRegister (demo_register v)" and c = "calm t"])
       (simp_all add: demo_registers)
  have "deployer_reachable \<lparr>model_versions = [demo_row ''1'' StageStaging 0 1], deployment_events = []\<rparr>"
    by (rule register [OF empty_tables, of "''1''" 1]) (simp_all add: upsert_version_def demo_row_def)
  then have "deployer_reachable \<lparr>model_versions = [demo_row ''1'' StageStaging 0 1, demo_row ''2'' StageStaging 0 2],
      deployment_events = []\<rparr>"
    by (rule register [of _ "''2''" 2]) (simp_all add: upsert_version_def demo_row_def is_version_def)
  then have r3: "deployer_reachable \<lparr>model_versions = ?st StageStaging 0, deployment_events = []\<rparr>"
    by (rule register [of _ "''3''" 3]) (simp_all add: upsert_version_def demo_row_def is_version_def rows_def)
  have deploy: "deployer_reachable d \<Longrightarrow> v \<noteq> [] \<Longrightarrow> has_version ''m'' v d
      \<Longrightarrow> switch_production ''m'' v ''deploy'' [] t d = d' \<Longrightarrow> deployer_reachable d'" for d d' v t
    by (rule reachable_step [where q = "PostDeploy ''m'' (demo_deploy v)" and c = "calm t"])
       (use demo_deploys [of v d t] in simp_all)
  have "deployer_reachable \<lparr>model_versions = ?st StageProduction 100, deployment_events = [demo_event ''3'' 4]\<rparr>"
    by (rule deploy [OF r3, of "''3''" 4])
       (simp_all add: has_version_def is_version_def rows_def demo_row_def switch_production_def in_stage_def
        demo_event_def)
  then have "deployer_reachable \<lparr>model_versions = rows StageProduction 100 StageStaging 0 StageArchived 0,
      deployment_events = [demo_event ''3'' 4, demo_event ''1'' 5]\<rparr>"
    by (rule deploy [of _ "''1''" 5])
       (simp_all add: has_version_def is_version_def rows_def demo_row_def switch_production_def in_stage_def
        demo_event_def)
  then show ?thesis
    by (rule deploy [of _ "''2''" 6])
       (simp_all add: has_version_def is_version_def rows_def demo_row_def switch_production_def in_stage_def
        demo_event_def demo_db_def)
qed

lemma demo_db_versions [simp]:
  "has_version ''m'' v demo_db \<longleftrightarrow> v \<in> {''1'', ''2'', ''3''}"
  by (auto simp: has_version_def demo_db_def demo_row_def is_version_def)

lemma demo_newest_archived: "newest_archived ''m'' demo_db = Some ''3''"
  by (simp add: newest_archived_def newest_first_def demo_db_def demo_row_def in_stage_def)

lemma version_unique:
  assumes "registry_ok d" and "r \<in> set (model_versions d)" and "r' \<in> set (model_versions d)"
    and "row_model_name r = row_model_name r'" and "row_version r = row_version r'"
  shows "r = r'"
proof -
  have "inj_on version_key (set (model_versions d))"
    using assms(1) by (simp add: registry_ok_def distinct_map)
  then show ?thesis
    using assms(2-5) by (intro inj_onD [of version_key]) (simp_all add: version_key_def)
qed

lemma production_unique:
  assumes "registry_ok d" and "r \<in> set (model_versions d)" and "r' \<in> set (model_versions d)"
    and "in_stage m StageProduction r" and "in_stage m StageProduction r'"
  shows "r = r'"
proof (rule version_unique [OF assms(1-3)])
  show "row_version r = row_version r'"
    using assms unfolding registry_ok_def one_production_def in_stage_def by metis
qed (use assms(4,5) in \<open>simp add: in_stage_def\<close>)

lemma filter_map_same:
  assumes "\<And>r. P r \<Longrightarrow> f r = r" and "\<And>r. P (f r) \<longleftrightarrow> P r"
  shows "filter P (map f rs) = filter P rs"
  using assms(2) by (simp add: filter_map comp_def) (rule map_idI, simp add: assms(1))

text \<open>What a switch does to one row.\<close>

definition switch_row :: "string \<Rightarrow> string \<Rightarrow> version_row \<Rightarrow> version_row" where
  "switch_row m v r =
     (if is_version m v r then r\<lparr>row_stage := StageProduction, row_traffic_pct := 100\<rparr>
      else if in_stage m StageProduction r then r\<lparr>row_stage := StageArchived, row_traffic_pct := 0\<rparr> else r)"

lemma rows_switch: "model_versions (switch_production m v action reason now d) = map (switch_row m v) (model_versions d)"
  by (simp add: switch_production_def switch_row_def [abs_def])

lemma switch_row_model [simp]: "row_model_name (switch_row m v r) = row_model_name r"
  by (simp add: switch_row_def)

lemma switch_row_production: "in_stage m StageProduction (switch_row m v r) \<longleftrightarrow> is_version m v r"
  by (simp add: switch_row_def in_stage_def) (auto simp: is_version_def)

lemma production_after_switch:
  "filter (in_stage m StageProduction) (model_versions (switch_production m v action reason now d))
     = map (switch_row m v) (filter (is_version m v) (model_versions d))"
  by (simp add: rows_switch filter_map comp_def switch_row_production)

section \<open>Properties\<close>

text \<open>C13: whatever requests the deployer serves and whatever database calls fail: (model, version)
  stays a key, at most one version of a model is in production, every stage is one of the three,
  every traffic share is between 0 and 100, and a version in production is the one the model's
  latest deployment event names.\<close>

theorem deployer_invariant:
  assumes "deployer_reachable d"
  shows "distinct (map (\<lambda>r. (row_model_name r, row_version r)) (model_versions d))
    \<and> (\<forall>r \<in> set (model_versions d). \<forall>r' \<in> set (model_versions d).
         row_model_name r = row_model_name r' \<and> row_stage r = StageProduction \<and> row_stage r' = StageProduction \<longrightarrow> r = r')
    \<and> (\<forall>r \<in> set (model_versions d). row_stage r \<in> {StageStaging, StageProduction, StageArchived}
         \<and> 0 \<le> row_traffic_pct r \<and> row_traffic_pct r \<le> 100)
    \<and> (\<forall>r \<in> set (model_versions d). row_stage r = StageProduction \<longrightarrow>
         (\<exists>e. last_event (row_model_name r) d = Some e \<and> ev_version e = row_version r))"
proof (intro conjI)
  have ok: "registry_ok d"
    using assms by (rule reachable_ok)
  then show "distinct (map (\<lambda>r. (row_model_name r, row_version r)) (model_versions d))"
    by (simp add: registry_ok_def version_key_def [abs_def])
  show "\<forall>r \<in> set (model_versions d). \<forall>r' \<in> set (model_versions d).
      row_model_name r = row_model_name r' \<and> row_stage r = StageProduction \<and> row_stage r' = StageProduction \<longrightarrow> r = r'"
    using production_unique [OF ok] by (auto simp: in_stage_def)
  show "\<forall>r \<in> set (model_versions d). row_stage r \<in> {StageStaging, StageProduction, StageArchived}
      \<and> 0 \<le> row_traffic_pct r \<and> row_traffic_pct r \<le> 100"
    using ok by (simp add: registry_ok_def list_all_iff row_ok_def)
  show "\<forall>r \<in> set (model_versions d). row_stage r = StageProduction \<longrightarrow>
      (\<exists>e. last_event (row_model_name r) d = Some e \<and> ev_version e = row_version r)"
    using ok by (simp add: registry_ok_def audited_def)
qed

theorem deployer_invariant_witness:
  "\<exists>e. last_event ''m'' demo_db = Some e \<and> ev_version e = ''2''"
  using deployer_invariant [OF demo_db_reachable]
  by (simp add: demo_db_def demo_row_def)

text \<open>C18: \<open>Deploy\<close> is all or nothing. If it returns without error, the version existed and is now in
  production with all the traffic, the previous one is archived with none, no other row changed,
  and one event was recorded; \<open>ErrNotFound\<close> means the version does not exist; after any error
  nothing changed, unless the commit was carried out and only its answer was lost.\<close>

theorem deploy_all_or_nothing:
  "case ModelRegistry_Deploy m v reason c d of
     (Inr _, d') \<Rightarrow> has_version m v d \<and> d' = switch_production m v ''deploy'' reason (db_now c) d
   | (Inl ErrNotFound, d') \<Rightarrow> \<not> has_version m v d \<and> d' = d
   | (Inl _, d') \<Rightarrow> d' = d \<or> (\<exists>err. commits c = CommitLost err) \<and> has_version m v d \<and>
                      d' = switch_production m v ''deploy'' reason (db_now c) d"
  by (auto simp: Deploy_eq tx_commit_def deploy_effect_def
      split: option.splits commit_result.splits registry_error.splits)

text \<open>C29: after a successful \<open>Deploy\<close>, \<open>Production\<close> returns that version, with all the traffic; no
  other version of the model is in production; other models are untouched.\<close>

theorem deployed_version_is_production:
  assumes "ModelRegistry_Deploy m v reason c d = (Inr u, d')" and "fails c' 0 = None"
  shows "(\<exists>mv. ModelRegistry_Production m c' d' = Inr mv \<and> mv_ModelName mv = m \<and> mv_Version mv = v \<and>
      mv_Stage mv = StageProduction \<and> mv_TrafficPct mv = 100)
    \<and> set (map row_version (filter (in_stage m StageProduction) (model_versions d'))) = {v}
    \<and> filter (\<lambda>r. row_model_name r \<noteq> m) (model_versions d') = filter (\<lambda>r. row_model_name r \<noteq> m) (model_versions d)"
proof (intro conjI)
  have ver: "has_version m v d" and d': "d' = switch_production m v ''deploy'' reason (db_now c) d"
    using deploy_op.applied [OF assms(1)] assms(1)
    by (auto simp: Deploy_eq deploy_effect_def split: option.splits if_splits)
  show "\<exists>mv. ModelRegistry_Production m c' d' = Inr mv \<and> mv_ModelName mv = m \<and> mv_Version mv = v \<and>
      mv_Stage mv = StageProduction \<and> mv_TrafficPct mv = 100"
    using switch_Production [OF ver assms(2), of "''deploy''" reason "db_now c"] d'
    by (auto simp: scanVersion_def is_version_def)
  obtain r0 where "r0 \<in> set (model_versions d)" "is_version m v r0"
    using ver by (auto simp: has_version_def)
  then show "set (map row_version (filter (in_stage m StageProduction) (model_versions d'))) = {v}"
    unfolding d' production_after_switch by (auto simp: switch_row_def is_version_def)
  show "filter (\<lambda>r. row_model_name r \<noteq> m) (model_versions d') = filter (\<lambda>r. row_model_name r \<noteq> m) (model_versions d)"
    unfolding d' rows_switch
    by (rule filter_map_same) (auto simp: switch_row_def is_version_def in_stage_def)
qed

theorem deployed_version_is_production_witness:
  "\<exists>mv. ModelRegistry_Production ''m'' (calm 8) (snd (ModelRegistry_Deploy ''m'' ''1'' [] (calm 7) demo_db)) = Inr mv
     \<and> mv_Version mv = ''1''"
proof -
  have "ModelRegistry_Deploy ''m'' ''1'' [] (calm 7) demo_db
      = (Inr (), switch_production ''m'' ''1'' ''deploy'' [] 7 demo_db)"
    by (simp add: Deploy_eq tx_commit_def deploy_effect_def)
  from deployed_version_is_production [OF this, of "calm 8"] this
  show ?thesis
    by auto
qed

text \<open>C30: \<open>Rollback\<close> is all or nothing too. It succeeds only with an archived version of the model
  that no archived version of it was created after, and puts that one in production as
  \<open>Deploy\<close> does; \<open>ErrNotFound\<close> means the model has no archived version.\<close>

theorem rollback_picks_newest_created:
  "case ModelRegistry_Rollback m reason c d of
     (Inr v, d') \<Rightarrow> d' = switch_production m v ''rollback'' reason (db_now c) d \<and>
       (\<exists>r \<in> set (model_versions d). in_stage m StageArchived r \<and> row_version r = v \<and>
          list_all (\<lambda>r'. row_created_at r' \<le> row_created_at r) (filter (in_stage m StageArchived) (model_versions d)))
   | (Inl ErrNotFound, d') \<Rightarrow> filter (in_stage m StageArchived) (model_versions d) = [] \<and> d' = d
   | (Inl _, d') \<Rightarrow> d' = d \<or> (\<exists>err v. commits c = CommitLost err \<and>
                      d' = switch_production m v ''rollback'' reason (db_now c) d)"
proof (cases "newest_archived m d")
  case None
  then show ?thesis
    using newest_archived_iff [of m d]
    by (auto simp: Rollback_eq filter_empty_conv split: option.splits)
next
  case (Some v)
  then show ?thesis
    using newest_archived_Some [OF Some]
    by (auto simp: Rollback_eq tx_commit_def rollback_effect_def list_all_iff
        split: option.splits commit_result.splits)
qed

text \<open>So \<open>Rollback\<close> does not undo the last deployment: here the model went 3, 1, 2, version 1 was
  archived last, and the rollback of 2 restores 3, because 3 was registered after 1.\<close>

lemma rollback_skips_last_archived:
  "deployer_reachable demo_db
    \<and> map ev_version (deployment_events demo_db) = [''3'', ''1'', ''2'']
    \<and> fst (ModelRegistry_Rollback ''m'' reason (calm 7) demo_db) = Inr ''3''"
proof -
  have "fst (ModelRegistry_Rollback ''m'' reason (calm 7) demo_db) = Inr ''3''"
    by (simp add: Rollback_eq demo_newest_archived tx_commit_def)
  then show ?thesis
    using demo_db_reachable by (simp add: demo_db_def demo_event_def)
qed

text \<open>Registering a version again takes it out of production: the model is left without a
  production version until the next deployment.\<close>

lemma reregistering_empties_production:
  assumes "registry_ok d" and "r \<in> set (model_versions d)" and "in_stage m StageProduction r"
    and "mv_ModelName mv = m" and "mv_Version mv = row_version r" and "mv_Stage mv = []"
    and "ModelRegistry_Register mv c d = (Inr u, d')" and "fails c' 0 = None"
  shows "ModelRegistry_Production m c' d' = Inl ErrNotFound"
proof -
  have key: "r' = r" if "r' \<in> set (model_versions d)" "in_stage m StageProduction r'" for r'
    using production_unique [OF assms(1) that(1) assms(2) that(2) assms(3)] .
  have "has_version (mv_ModelName mv) (mv_Version mv) d"
    using assms by (auto simp: has_version_def is_version_def in_stage_def)
  then have rows: "model_versions d' = map (\<lambda>r'. if is_version m (row_version r) r'
      then (row_of mv (db_now c))\<lparr>row_created_at := row_created_at r'\<rparr> else r') (model_versions d)"
    using register_op.applied [OF assms(7)] assms(4,5)
    by (auto simp: register_effect_def upsert_version_def Let_def row_of_def sql_update_def has_version_def)
  have "\<not> in_stage m StageProduction r'" if "r' \<in> set (model_versions d')" for r'
    using that key assms(3,6)
    by (auto simp: rows row_of_def in_stage_def stage_or_staging_def is_version_def split: if_splits)
  then show ?thesis
    using assms(8) by (simp add: ModelRegistry_Production_def ModelRegistry_queryOne_def filter_empty_conv [THEN iffD2])
qed

text \<open>A key picks out one row.\<close>

lemma version_rows_single:
  assumes "distinct (map version_key rs)" and "r \<in> set rs" and "is_version m v r"
    and "mset xs = mset (filter (is_version m v) rs)"
  shows "xs = [r]"
proof -
  have "r' = r" if "r' \<in> set rs" "is_version m v r'" for r'
    using that assms(1-3) by (intro inj_onD [of version_key "set rs"])
      (simp_all add: version_key_def is_version_def distinct_map)
  then have "set (filter (is_version m v) rs) = {r}"
    unfolding set_filter using assms(2,3) by blast
  moreover have dist: "distinct (filter (is_version m v) rs)"
    using assms(1) by (simp add: distinct_map)
  ultimately have "length (filter (is_version m v) rs) = 1"
    using distinct_card [OF dist] by simp
  then have "filter (is_version m v) rs = [r]"
    using \<open>set (filter (is_version m v) rs) = {r}\<close> by (cases "filter (is_version m v) rs") auto
  then show ?thesis
    using assms(4) by simp
qed

text \<open>C32: what \<open>Register\<close> stores, \<open>List\<close> returns: as long as the primary key holds, the version is in the list once,
  with the stage it was given, staging if it was given none, and the same precision, path, traffic share and
  metrics, whether or not it was registered before.\<close>

theorem register_then_list:
  assumes "distinct (map version_key (model_versions d))" and "ModelRegistry_Register mv c d = (Inr u, d')"
    and "\<forall>n. fails c' n = None" and "distinct (map fst (mv_Metrics mv))"
  shows "\<exists>out got. ModelRegistry_List (mv_ModelName mv) c' d' = Inr out
    \<and> filter (\<lambda>x. mv_Version x = mv_Version mv) out = [got]
    \<and> map_of (mv_Metrics got) = map_of (mv_Metrics mv)
    \<and> got = mv\<lparr>mv_Stage := if mv_Stage mv = [] then StageStaging else mv_Stage mv,
        mv_Metrics := mv_Metrics got, mv_CreatedAt := mv_CreatedAt got\<rparr>"
proof -
  let ?is = "is_version (mv_ModelName mv) (mv_Version mv)"
  let ?ours = "filter (\<lambda>r. row_model_name r = mv_ModelName mv) (model_versions d')"
  have d': "d' = register_effect mv c d"
    using register_op.applied [OF assms(2)] .
  have "distinct (map version_key (model_versions d'))"
    unfolding d' by (rule register_distinct [OF assms(1)])
  moreover have new: "\<exists>t. (row_of mv (db_now c))\<lparr>row_created_at := t\<rparr> \<in> set (model_versions d')"
    by (auto simp: d' register_effect_def upsert_version_def Let_def row_of_def sql_update_def)
  then obtain t where row: "(row_of mv (db_now c))\<lparr>row_created_at := t\<rparr> \<in> set (model_versions d')" ..
  moreover have "?is ((row_of mv (db_now c))\<lparr>row_created_at := t\<rparr>)"
    by (simp add: is_version_def row_of_def)
  moreover have "mset (filter ?is (newest_first ?ours)) = mset (filter ?is (model_versions d'))"
    by (simp add: is_version_def multiset_eq_iff)
  ultimately have one: "filter ?is (newest_first ?ours) = [(row_of mv (db_now c))\<lparr>row_created_at := t\<rparr>]"
    using version_rows_single by metis
  have "filter (\<lambda>x. mv_Version x = mv_Version mv) (map scanVersion (newest_first ?ours))
      = map scanVersion (filter ?is (newest_first ?ours))"
    by (auto simp: filter_map comp_def scanVersion_def is_version_def intro!: arg_cong [of _ _ "map _"] filter_cong)
  then show ?thesis
    using assms(3) scan_metrics [OF assms(4), of flt_zero]
    by (simp add: ModelRegistry_List_def list_rows_ok one) (simp add: scanVersion_def row_of_def stage_or_staging_def)
qed
theorem register_then_list_witness:
  "\<exists>out got. ModelRegistry_List ''m'' (calm 9)
      (snd (ModelRegistry_Register ((scanVersion (demo_row ''4'' [] 0 0))\<lparr>mv_Metrics := [(''acc'', Fin False 1 0)]\<rparr>) (calm 8) demo_db))
      = Inr out
    \<and> filter (\<lambda>x. mv_Version x = ''4'') out = [got] \<and> map_of (mv_Metrics got) ''acc'' = Some (Fin False 1 0)"
proof -
  let ?mv = "(scanVersion (demo_row ''4'' [] 0 0))\<lparr>mv_Metrics := [(''acc'', Fin False 1 0)]\<rparr>"
  have parts: "mv_TrafficPct (scanVersion (demo_row ''4'' [] 0 0)) = 0" "mv_Stage ?mv = []" "mv_ModelName ?mv = ''m''" "mv_Version ?mv = ''4''" "mv_TrafficPct ?mv = 0"
    by (simp_all add: scanVersion_def demo_row_def)
  have "ModelRegistry_Register ?mv (calm 8) demo_db = (Inr (), snd (ModelRegistry_Register ?mv (calm 8) demo_db))"
    by (simp add: Register_eq tx_commit_def parts fits_int4_def is_finite_def)
  from register_then_list [OF _ this, of "calm 9"] reachable_ok [OF demo_db_reachable]
  show ?thesis
    by (auto simp: scanVersion_def demo_row_def registry_ok_def)
qed

text \<open>\<open>List\<close> returns every version of the model, once, newest first.\<close>

lemma list_is_complete_and_sorted:
  assumes "\<forall>n. fails c n = None"
  shows "\<exists>out. ModelRegistry_List m c d = Inr out
    \<and> mset out = mset (map scanVersion (filter (\<lambda>r. row_model_name r = m) (model_versions d)))
    \<and> sorted_wrt (\<lambda>x y. mv_CreatedAt y \<le> mv_CreatedAt x) out"
proof -
  let ?rs = "filter (\<lambda>r. row_model_name r = m) (model_versions d)"
  have "ModelRegistry_List m c d = Inr (map scanVersion (newest_first ?rs))"
    using assms by (simp add: ModelRegistry_List_def list_rows_ok)
  moreover have "sorted_wrt (\<lambda>x y. mv_CreatedAt y \<le> mv_CreatedAt x) (map scanVersion (newest_first ?rs))"
    using newest_first_sorted [of ?rs] by (simp add: sorted_wrt_map scanVersion_def)
  ultimately show ?thesis
    by simp
qed

text \<open>C31: a request answered with an error status changed nothing, whatever the request, unless its
  commit was carried out and the answer lost.\<close>

theorem error_reply_changes_nothing:
  assumes "deployer_serve jerr q c d = (rep, d')" and "400 \<le> rp_status rep" and "\<forall>err. commits c \<noteq> CommitLost err"
  shows "d' = d"
  using serve_effect [OF assms(1)] assms(2,3) by auto

theorem error_reply_changes_nothing_witness:
  "snd (deployer_serve [] (PostDeploy ''m'' (demo_deploy ''4'')) (calm 7) demo_db) = demo_db"
proof (rule error_reply_changes_nothing)
  show "deployer_serve [] (PostDeploy ''m'' (demo_deploy ''4'')) (calm 7) demo_db
    = (writeError 404 (error_text [] ErrNotFound), snd (deployer_serve [] (PostDeploy ''m'' (demo_deploy ''4'')) (calm 7) demo_db))"
    by (simp add: Handler_Deploy_def demo_deploy_def decode_struct_def deploy_field_def lower_def Deploy_eq)
qed simp_all

text \<open>\<open>POST .../traffic\<close>: a share outside 0 to 100, a missing version or a body that does not
  decode is refused with 400 before the database is asked; otherwise the reply is 200, 404 when
  the version does not exist, or 500 when the database fails.\<close>

lemma traffic_replies:
  "rp_status (fst (Handler_Traffic name body c d)) =
    (case decode_struct traffic_field \<lparr>tq_Version = [], tq_TrafficPct = 0\<rparr> body of
       None \<Rightarrow> 400
     | Some req \<Rightarrow>
         if tq_Version req = [] \<or> sint (tq_TrafficPct req) \<notin> {0..100} then 400
         else if fails c 0 \<noteq> None \<or> commits c \<noteq> Committed then 500
         else if has_version name (tq_Version req) d then 200 else 404)"
  by (auto simp: Handler_Traffic_def SetTraffic_eq tx_commit_def fits_int4_def
      split: option.split sum.split prod.split commit_result.split)

text \<open>Nothing bounds the sum of a model's traffic shares: a canary share is added to the 100
  that production holds, and an archived version can be given traffic.\<close>

lemma traffic_shares_exceed_100:
  "(fst (ModelRegistry_SetTraffic ''m'' ''1'' 50 c demo_db) = Inr () \<longleftrightarrow> fails c 0 = None \<and> commits c = Committed)
    \<and> sum_list (map row_traffic_pct (model_versions (snd (ModelRegistry_SetTraffic ''m'' ''1'' 50 (calm 7) demo_db)))) = 150"
  by (auto simp: SetTraffic_eq fits_int4_def tx_commit_def traffic_effect_def demo_db_def demo_row_def is_version_def
      has_version_def split: option.splits commit_result.splits)

end
