(* ===== verification/ConcurrentDeploys.thy ===== *)
theory ConcurrentDeploys
  imports ApartRequests Deployer
begin

text \<open>
  What holds of the registry when requests are interleaved, over the transactions of \<open>Transactions\<close>.
  In any interleaving the primary key holds, and stages and shares are in range, because open transactions
  have locked different rows. Two deployments of one model can leave two versions in
  production; requests about different models keep the whole invariant (\<open>ApartRequests\<close>).
\<close>

section \<open>Rows in every interleaving\<close>

text \<open>What the deployer's handlers ask for: new versions in staging without traffic, shares in range.\<close>

fun from_handler :: "registry_request \<Rightarrow> bool" where
  "from_handler (RegisterVersion mv) = (mv_Stage mv = [] \<and> mv_TrafficPct mv = 0)"
| "from_handler (DeployVersion m v reason) = True"
| "from_handler (RollbackModel m reason) = True"
| "from_handler (SplitTraffic m v pct) = (0 \<le> sint pct \<and> sint pct \<le> 100)"

fun set_ok :: "set_clause \<Rightarrow> bool" where
  "set_ok ToArchived = True"
| "set_ok ToProduction = True"
| "set_ok (ToShare n) = (0 \<le> n \<and> n \<le> 100)"

fun action_ok :: "tx_action \<Rightarrow> bool" where
  "action_ok (Update ch c) = set_ok ch"
| "action_ok (UpdateRow ch c k) = set_ok ch"
| "action_ok (Upsert new) = row_ok new"
| "action_ok CheckAffected = True"
| "action_ok (SelectArchived m reason now) = True"
| "action_ok (InsertEvent e) = True"
| "action_ok (Commit ans) = True"
| "action_ok CommitAffected = True"

definition tx_ok :: "tx \<Rightarrow> bool" where
  "tx_ok t \<longleftrightarrow> list_all action_ok (tx_todo t) \<and> keeps_keys (tx_writes t) \<and> (\<forall>r \<in> ran (tx_writes t). row_ok r)
     \<and> list_all row_ok (tx_new t) \<and> set (map version_key (tx_new t)) \<subseteq> set (tx_locks t)
     \<and> distinct (map version_key (tx_new t))"

definition rows_ok :: "db \<Rightarrow> bool" where
  "rows_ok d \<longleftrightarrow> distinct (map version_key (model_versions d)) \<and> list_all row_ok (model_versions d)"

text \<open>Open transactions have locked different rows, and the rows one adds are new.\<close>

definition adds_new :: "db \<Rightarrow> tx \<Rightarrow> bool" where
  "adds_new d t \<longleftrightarrow> version_key ` set (tx_new t) \<inter> version_key ` set (model_versions d) = {}"

definition tables_ok :: "db \<times> tx list \<Rightarrow> bool" where
  "tables_ok s \<longleftrightarrow> rows_ok (fst s) \<and> (\<forall>t \<in> set (snd s). tx_ok t \<and> adds_new (fst s) t)
     \<and> (\<forall>i < length (snd s). \<forall>j < length (snd s). j \<noteq> i \<longrightarrow>
          set (tx_locks (snd s ! i)) \<inter> set (tx_locks (snd s ! j)) = {})"

lemma set_row_ok: "set_ok ch \<Longrightarrow> row_ok r \<Longrightarrow> row_ok (set_row ch r)"
  by (cases ch) (auto simp: row_ok_def)

lemma row_ok_created [simp]: "row_ok (r\<lparr>row_created_at := n\<rparr>) = row_ok r"
  by (simp add: row_ok_def)

lemma row_at_mem: "row_at k d = Some r \<Longrightarrow> r \<in> set (model_versions d) \<and> version_key r = k"
  by (auto simp: row_at_def find_Some_iff)

lemma row_at_none: "row_at k d = None \<Longrightarrow> k \<notin> version_key ` set (model_versions d)"
  by (auto simp: row_at_def find_None_iff)

lemma sees_ok:
  assumes "tx_ok t" and "rows_ok d" and "adds_new d t"
  shows "rows_ok (tx_sees d t)"
proof -
  have "row_ok (overwritten (tx_writes t) r)" if "r \<in> set (model_versions d)" for r
    using assms that by (auto simp: overwritten_def tx_ok_def rows_ok_def list_all_iff dest: ranI split: option.split)
  moreover have "map version_key (map (overwritten (tx_writes t)) rs) = map version_key rs" for rs
    using assms(1) by (simp add: tx_ok_def)
  ultimately show ?thesis
    using assms by (auto simp: rows_ok_def tx_ok_def tx_sees_def list_all_iff adds_new_def simp del: map_map)
qed

lemma finish_ok [simp]: "tx_ok (finish res t)" "adds_new d (finish res t)"
  by (simp_all add: tx_ok_def adds_new_def)

lemma write_row_ok:
  "tx_ok t \<Longrightarrow> row_ok r \<Longrightarrow> tx_ok (write_row r t)"
  by (auto simp: tx_ok_def ran_def)

lemma tx_ok_parts:
  "tx_ok t \<Longrightarrow> tx_ok (lock_row k (next_action t))" "tx_ok t \<Longrightarrow> tx_ok (next_action t)"
  by (cases "tx_todo t"; auto simp: tx_ok_def)+

lemma adds_row_ok:
  assumes "tx_ok t" and "adds_new d t" and "row_ok new" and "version_key new \<notin> version_key ` set (tx_new t)"
    and "version_key new \<notin> version_key ` set (model_versions d)"
  shows "tx_ok (lock_row (version_key new) (next_action (t\<lparr>tx_new := tx_new t @ [new]\<rparr>)))"
    and "adds_new d (t\<lparr>tx_new := tx_new t @ [new]\<rparr>)"
  using assms by (cases "tx_todo t"; simp add: tx_ok_def subset_insertI2) (use assms in \<open>simp add: adds_new_def\<close>)

lemma tx_ok_todo: "tx_ok t \<Longrightarrow> list_all action_ok acts \<Longrightarrow> tx_ok (t\<lparr>tx_affected := n, tx_todo := acts\<rparr>)"
  by (simp add: tx_ok_def)

lemma tx_ok_event: "tx_ok t \<Longrightarrow> tx_ok (t\<lparr>tx_events := es\<rparr>)"
  by (simp add: tx_ok_def)

lemma adds_new_same [simp]:
  "adds_new d (t\<lparr>tx_todo := acts\<rparr>) = adds_new d t" "adds_new d (t\<lparr>tx_events := es\<rparr>) = adds_new d t"
  "adds_new d (t\<lparr>tx_affected := n\<rparr>) = adds_new d t" "adds_new d (write_row r t) = adds_new d t"
  "adds_new d (lock_row k t) = adds_new d t" "adds_new d (next_action t) = adds_new d t"
  by (simp_all add: adds_new_def)

lemma step_tables:
  assumes "tx_step d t = (t', d')"
  shows "d' = d \<or> tx_todo t' = [] \<and> d' = tx_sees d t" and "d' = d \<or> tx_locks t' = [] \<and> tx_new t' = [] \<and> tx_ok t'"
    and "set (tx_locks t') \<subseteq> set (tx_locks t) \<union> set_option (wants_row (tx_todo t))"
  using assms by (cases "tx_todo t"; cases "hd (tx_todo t)"; auto simp: tx_step_def split: option.splits if_splits)+

lemma upsert_tx_ok:
  assumes t: "tx_ok t" "adds_new d t" and new: "row_ok new" and step: "tx_action_step (Upsert new) d t = (t', d)"
  shows "tx_ok t' \<and> adds_new d t'"
proof (cases "row_at (version_key new) (tx_sees d t)")
  case None
  have "version_key ` set (model_versions (tx_sees d t)) = version_key ` set (model_versions d) \<union> version_key ` set (tx_new t)"
    using t(1) by (simp add: tx_sees_def tx_ok_def image_Un image_image)
  then have "version_key new \<notin> version_key ` set (tx_new t)" "version_key new \<notin> version_key ` set (model_versions d)"
    using row_at_none [OF None] by auto
  then show ?thesis
    using None step new adds_row_ok [OF t, of new] by auto
next
  case (Some r)
  then show ?thesis
    using t(2) step new
      tx_ok_parts(1) [OF write_row_ok [OF t(1), of "new\<lparr>row_created_at := row_created_at r\<rparr>"], of "version_key new"]
    by auto
qed

lemma step_tx_ok:
  assumes t: "tx_ok t" "adds_new d t" and d: "rows_ok d" and step: "tx_step d t = (t', d)"
  shows "tx_ok t' \<and> adds_new d t'"
proof -
  have sees: "row_ok r" if "row_at k (tx_sees d t) = Some r" for k r
    using row_at_mem [OF that] sees_ok [OF t(1) d t(2)] by (simp add: rows_ok_def list_all_iff)
  show ?thesis
  proof (cases "tx_todo t")
    case Nil
    then show ?thesis
      using t step by (simp add: tx_step_def)
  next
    case (Cons a acts)
    have a: "action_ok a" "list_all action_ok acts"
      using t(1) Cons by (simp_all add: tx_ok_def)
    show ?thesis
    proof (cases a)
      case (Update ch c)
      have "list_all action_ok (map (UpdateRow ch c) ks @ acts)" for ks
        using a Update by (auto simp: list_all_iff)
      from tx_ok_todo [OF t(1) this] show ?thesis
        using t(2) step Cons Update by (auto simp: tx_step_def)
    next
      case (UpdateRow ch c k)
      let ?t = "case row_at k (tx_sees d t) of Some r \<Rightarrow> if where_row c r then write_row (set_row ch r) t else t | None \<Rightarrow> t"
      have "tx_ok ?t" and "adds_new d ?t"
        using t a(1) UpdateRow sees by (auto simp: write_row_ok set_row_ok split: option.split)
      with tx_ok_parts(1) [of ?t k] show ?thesis
        using step Cons UpdateRow by (auto simp: tx_step_def)
    next
      case (Upsert new)
      then show ?thesis
        using upsert_tx_ok [OF t] step Cons a(1) by (auto simp: tx_step_def)
    next
      case (SelectArchived m reason now)
      then show ?thesis
        using t(2) step Cons tx_ok_todo [OF t(1), of _ "tx_affected t"]
        by (auto simp: tx_step_def rollback_actions_def switch_actions_def split: option.splits)
    next
      case CheckAffected
      then show ?thesis
        using t step a Cons tx_ok_parts(2) [OF t(1)] by (auto simp: tx_step_def split: if_splits)
    next
      case (InsertEvent e)
      then show ?thesis
        using t step Cons tx_ok_parts(2) [OF tx_ok_event [OF t(1)]] by (auto simp: tx_step_def)
    qed (use step Cons in \<open>auto simp: tx_step_def\<close>)
  qed
qed

lemma disjoint_grows: "A \<inter> D = {} \<Longrightarrow> D' \<subseteq> D \<union> L \<Longrightarrow> A \<subseteq> M \<Longrightarrow> L \<inter> M = {} \<Longrightarrow> A \<inter> D' = {}"
  by blast

lemma tables_ok_set:
  assumes ok: "tables_ok (d, ts)" and i: "i < length ts"
    and t: "tx_ok t" "adds_new d' t" and d: "rows_ok d'"
    and locks: "set (tx_locks t) \<subseteq> set (tx_locks (ts ! i)) \<union> set_option w"
    and w: "\<forall>k. w = Some k \<longrightarrow> (\<forall>j < length ts. j \<noteq> i \<longrightarrow> k \<notin> set (tx_locks (ts ! j)))"
    and keys: "version_key ` set (model_versions d') \<subseteq> version_key ` set (model_versions d) \<union> set (tx_locks (ts ! i))"
  shows "tables_ok (d', ts[i := t])"
proof -
  have apart: "set (tx_locks (ts ! k)) \<inter> set (tx_locks (ts ! j)) = {}" if "k < length ts" "j < length ts" "j \<noteq> k" for k j
    using ok that by (simp add: tables_ok_def)
  have "tx_ok (ts ! j) \<and> adds_new d' (ts ! j)" if "j < length ts" "j \<noteq> i" for j
  proof -
    have u: "tx_ok (ts ! j)" "adds_new d (ts ! j)"
      using ok that by (auto simp: tables_ok_def)
    have sub: "version_key ` set (tx_new (ts ! j)) \<subseteq> set (tx_locks (ts ! j))"
      using u(1) by (simp add: tx_ok_def)
    from disjoint_grows [OF u(2) [unfolded adds_new_def] keys sub apart [OF i that]] show ?thesis
      using u(1) by (simp add: adds_new_def)
  qed
  then have "tx_ok (ts[i := t] ! k) \<and> adds_new d' (ts[i := t] ! k)" if "k < length ts" for k
    using that t i by (cases "k = i") simp_all
  then have "\<forall>u \<in> set (ts[i := t]). tx_ok u \<and> adds_new d' u"
    by (auto simp: in_set_conv_nth)
  moreover have own: "set (tx_locks t) \<inter> set (tx_locks (ts ! j)) = {}" if "j < length ts" "j \<noteq> i" for j
    using locks w apart [OF i that] that by (cases w) auto
  have "set (tx_locks (ts[i := t] ! k)) \<inter> set (tx_locks (ts[i := t] ! j)) = {}"
    if "k < length ts" "j < length ts" "j \<noteq> k" for k j
  proof (cases "k = i \<or> j = i")
    case True
    then show ?thesis
      using own [of j] own [of k] that i by auto
  next
    case False
    then show ?thesis
      using apart [OF that] by simp
  qed
  ultimately show ?thesis
    using d unfolding tables_ok_def fst_conv snd_conv length_list_update by blast
qed

lemma tables_ok_step:
  assumes ok: "tables_ok (d, ts)" and "registry_step (d, ts) (d', ts')" and req: "\<forall>t \<in> set ts'. from_handler (tx_request t)"
  shows "tables_ok (d', ts')"
  using assms(2)
proof (cases rule: registry_step.cases)
  case (arrives q now)
  have "list_all action_ok acts" if "request_actions q now = Inr acts" for acts
    using that req arrives by (cases q) (auto simp: deploy_actions_def switch_actions_def row_ok_def
        split: option.splits if_splits)
  then have "tx_ok (begin_tx q now)"
    by (cases "request_actions q now") (auto simp: tx_ok_def begin_refused begin_open)
  then show ?thesis
    using ok arrives by (auto simp: tables_ok_def nth_append adds_new_def)
next
  case (proceeds i t)
  have own: "tx_ok (ts ! i)" "adds_new d (ts ! i)" and d: "rows_ok d"
    using ok proceeds(2) by (auto simp: tables_ok_def)
  have w: "\<forall>k. wants_row (tx_todo (ts ! i)) = Some k \<longrightarrow> (\<forall>j < length ts. j \<noteq> i \<longrightarrow> k \<notin> set (tx_locks (ts ! j)))"
    using proceeds(4) by (auto simp: waits_def)
  have sees: "version_key ` set (model_versions (tx_sees d (ts ! i))) \<subseteq> version_key ` set (model_versions d) \<union> set (tx_locks (ts ! i))"
    using own(1) by (auto simp: tx_sees_def tx_ok_def)
  note tabs = step_tables [OF proceeds(5)]
  have "tx_ok t \<and> adds_new d' t \<and> rows_ok d'
    \<and> version_key ` set (model_versions d') \<subseteq> version_key ` set (model_versions d) \<union> set (tx_locks (ts ! i))"
  proof (cases "d' = d")
    case True
    then show ?thesis
      using step_tx_ok [OF own d] proceeds(5) d by auto
  next
    case False
    then show ?thesis
      using tabs(1,2) sees sees_ok [OF own(1) d own(2)] by (auto simp: adds_new_def)
  qed
  then show ?thesis
    using tables_ok_set [OF ok proceeds(2) _ _ _ tabs(3) w] proceeds(1) by simp
next
  case (aborts i err)
  then show ?thesis
    using ok tables_ok_set [OF ok aborts(3), of "finish (Inl (DbError err)) (ts ! i)" d None] by (auto simp: tables_ok_def)
next
  case (loses_answer i t err)
  have own: "tx_ok (ts ! i)" "adds_new d (ts ! i)" and d: "rows_ok d"
    using ok loses_answer(2) by (auto simp: tables_ok_def)
  have "version_key ` set (model_versions (tx_sees d (ts ! i))) \<subseteq> version_key ` set (model_versions d) \<union> set (tx_locks (ts ! i))"
    using own(1) by (auto simp: tx_sees_def tx_ok_def)
  then show ?thesis
    using tables_ok_set [OF ok loses_answer(2), of "finish (Inl (DbError err)) (ts ! i)" d' None]
      commit_step(1) [OF loses_answer(4,5)] sees_ok [OF own(1) d own(2)] loses_answer(1) by auto
qed

lemma step_request: "tx_step d t = (t', d') \<Longrightarrow> tx_request t' = tx_request t"
  by (cases "tx_todo t"; cases "hd (tx_todo t)") (auto simp: tx_step_def split: option.splits if_splits)

lemma requests_stay:
  assumes "registry_step (d, ts) (d', ts')" and "t \<in> set ts"
  shows "\<exists>t' \<in> set ts'. tx_request t' = tx_request t"
proof -
  have upd: "\<exists>t' \<in> set (ts[i := u]). tx_request t' = tx_request t" if "tx_request u = tx_request (ts ! i)" for i u
    using that assms(2) by (metis in_set_conv_nth length_list_update nth_list_update_eq nth_list_update_neq)
  from assms(1) show ?thesis
    by (cases rule: registry_step.cases) (use assms(2) upd step_request in auto)
qed

section \<open>Two deployments of one model\<close>

lemma skip_rows:
  assumes "tx_answer t = None" and "tx_todo t = map (UpdateRow ch c) ks @ acts"
    and "\<forall>r \<in> set (model_versions (tx_sees d t)). version_key r \<in> set ks \<longrightarrow> \<not> where_row c r"
  shows "\<exists>t'. (moves d)\<^sup>*\<^sup>* t t' \<and> tx_answer t' = None \<and> tx_todo t' = acts \<and> tx_sees d t' = tx_sees d t
    \<and> (plain d t \<longrightarrow> plain d t')"
  using assms
proof (induction ks arbitrary: t)
  case Nil
  then show ?case
    by (intro exI [of _ t]) simp
next
  case (Cons k ks)
  let ?t = "lock_row k (next_action t)"
  have "moves d t ?t"
    using Cons.prems row_at_mem by (auto simp: moves_def commits_next_def tx_step_def split: option.split)
  moreover obtain t' where "(moves d)\<^sup>*\<^sup>* ?t t'" "tx_answer t' = None" "tx_todo t' = acts" "tx_sees d t' = tx_sees d t"
    "plain d t \<longrightarrow> plain d t'"
    using Cons.IH [of ?t] Cons.prems by (auto simp: plain_def)
  ultimately show ?case
    by (auto intro!: exI [of _ t'])
qed

lemma waits_two [simp]:
  "waits [a, b] 0 \<longleftrightarrow> (\<exists>k. wants_row (tx_todo a) = Some k \<and> k \<in> set (tx_locks b))"
  "waits [a, b] (Suc 0) \<longleftrightarrow> (\<exists>k. wants_row (tx_todo b) = Some k \<and> k \<in> set (tx_locks a))"
  by (simp_all add: waits_def Ex_less_Suc split: option.split)

lemma swapped_step:
  assumes "registry_step (d, [a, b]) (d', [a', b'])"
  shows "registry_step (d, [b, a]) (d', [b', a'])"
  using assms
proof (cases rule: registry_step.cases)
  case (proceeds i t)
  have i: "i = 0 \<or> i = Suc 0"
    using proceeds(2) by auto
  then show ?thesis
    using proceeds registry_step.proceeds [of "1 - i" "[b, a]" d t d']
    by auto
next
  case (aborts i err)
  have i: "i = 0 \<or> i = Suc 0"
    using aborts(3) by auto
  then show ?thesis
    using aborts registry_step.aborts [of "1 - i" "[b, a]" d err] by auto
next
  case (loses_answer i t err)
  have i: "i = 0 \<or> i = Suc 0"
    using loses_answer(2) by auto
  then show ?thesis
    using loses_answer registry_step.loses_answer [of "1 - i" "[b, a]" d t d' err] by auto
qed simp

text \<open>While the other one has locked nothing, a transaction need not wait.\<close>

lemma alone_steps:
  assumes "(moves d)\<^sup>*\<^sup>* a a'" and "tx_locks b = []"
  shows "registry_step\<^sup>*\<^sup>* (d, [a, b]) (d, [a', b]) \<and> registry_step\<^sup>*\<^sup>* (d, [b, a]) (d, [b, a'])"
  using assms(1)
proof (induction rule: rtranclp_induct)
  case (step t t')
  have "registry_step (d, [t, b]) (d, [t, b][0 := t'])"
    using step.hyps(2) assms(2) by (intro registry_step.proceeds) (auto simp: moves_def)
  then show ?case
    using step.IH swapped_step by (auto intro: rtranclp.rtrancl_into_rtrancl)
qed simp

lemma alone_commits:
  assumes "(moves d)\<^sup>*\<^sup>* a t" and "ends_with d t res d'" and "d' \<noteq> d" and "tx_locks b = []"
  shows "\<exists>a'. registry_step\<^sup>*\<^sup>* (d, [a, b]) (d', [a', b]) \<and> registry_step\<^sup>*\<^sup>* (d, [b, a]) (d', [b, a'])
    \<and> tx_answer a' = Some res \<and> tx_locks a' = []"
proof -
  let ?t = "fst (tx_step d t)"
  have c: "commits_next t" "tx_answer t = None" "tx_answer ?t = Some res" "tx_step d t = (?t, d')"
    using assms(2,3) by (auto simp: ends_with_def split: if_splits)
  then have "registry_step (d, [t, b]) (d', [t, b][0 := ?t])"
    using assms(4) by (intro registry_step.proceeds) auto
  then have "registry_step (d, [t, b]) (d', [?t, b])" "registry_step (d, [b, t]) (d', [b, ?t])"
    using swapped_step by auto
  moreover have "tx_locks ?t = []"
    using c(1) by (auto simp: commits_next_def tx_step_def split: list.splits tx_action.splits)
  ultimately show ?thesis
    using c(3) alone_steps [OF assms(1,4)] by (intro exI [of _ ?t]) (auto intro: rtranclp.rtrancl_into_rtrancl)
qed

lemma switched_rows:
  assumes "r \<in> set (model_versions (switch_production m v action reason now d))" and "in_stage m StageProduction r"
  shows "row_version r = v"
proof -
  obtain r0 where "r0 \<in> set (model_versions d)" "r = (if is_version m v r0 then r0\<lparr>row_stage := StageProduction, row_traffic_pct := 100\<rparr>
      else if in_stage m StageProduction r0 then r0\<lparr>row_stage := StageArchived, row_traffic_pct := 0\<rparr> else r0)"
    using assms(1) by (auto simp: switch_production_def)
  with assms(2) show ?thesis
    by (cases "is_version m v r0"; cases "in_stage m StageProduction r0") (simp_all add: in_stage_def is_version_def split: if_splits)
qed

lemma has_version_keys: "has_version m v d \<longleftrightarrow> (m, v) \<in> set (map version_key (model_versions d))"
  by (auto simp: has_version_def is_version_def version_key_def)

lemma has_version_switch [simp]:
  "has_version n w (switch_production m v action reason now d) = has_version n w d"
  by (simp add: has_version_keys del: set_map)

lemma stays_in_production:
  assumes "r \<in> set (model_versions d)" and "is_version m v r" and "row_stage r = StageProduction"
  shows "\<exists>r' \<in> set (model_versions (fst (promote_version m' v' d))). is_version m v r' \<and> row_stage r' = StageProduction"
  using assms by (intro bexI [of _ "if is_version m' v' r then r\<lparr>row_stage := StageProduction, row_traffic_pct := 100\<rparr> else r"])
    (auto simp: promote_version_def sql_update_def is_version_def)

lemma promoted_in_production:
  assumes "has_version m v d"
  shows "\<exists>r \<in> set (model_versions (fst (promote_version m v d))). is_version m v r \<and> row_stage r = StageProduction"
proof -
  obtain r where "r \<in> set (model_versions d)" "is_version m v r"
    using assms by (auto simp: has_version_def)
  then show ?thesis
    by (intro bexI [of _ "r\<lparr>row_stage := StageProduction, row_traffic_pct := 100\<rparr>"])
      (auto simp: promote_version_def sql_update_def is_version_def)
qed

lemma event_changes: "insert_event now m v action reason d' \<noteq> d" if "length (deployment_events d) \<le> length (deployment_events d')"
  using that by (auto simp: insert_event_def dest: arg_cong [where f = "\<lambda>d. length (deployment_events d)"])

text \<open>A deployment that has looked for rows to archive, and visits them when nothing it has found is in
  production any more, goes on to put its version into production.\<close>

lemma late_deploy:
  assumes keys: "distinct (map version_key (model_versions d))" and v: "has_version m v d"
    and b: "b = begin_tx (DeployVersion m v reason) now"
    and t: "t = b\<lparr>tx_affected := 0, tx_todo := map (UpdateRow ToArchived (InStage m StageProduction)) ks @ tl (tx_todo b)\<rparr>"
    and old: "\<forall>r \<in> set (model_versions d). version_key r \<in> set ks \<longrightarrow> \<not> in_stage m StageProduction r"
  shows "\<exists>t'. (moves d)\<^sup>*\<^sup>* t t' \<and>
    ends_with d t' (Inr None) (insert_event now m v ''deploy'' reason (fst (promote_version m v d)))"
proof -
  let ?acts = "[CheckAffected, InsertEvent (event_of m v ''deploy'' reason now), Commit None]"
  have todo: "tx_answer b = None" "tx_todo b = deploy_actions m v reason now"
    using begin_open [of "DeployVersion m v reason" now] b by simp_all
  have sees: "tx_sees d t = d"
    using b t by simp
  obtain b1 where b1: "(moves d)\<^sup>*\<^sup>* t b1" "tx_answer b1 = None"
    "tx_todo b1 = Update ToProduction (OfVersion m v) # ?acts" "tx_sees d b1 = d" "plain d b1"
    using skip_rows [of t ToArchived "InStage m StageProduction" ks _ d] todo keys sees b t old
    by (auto simp: deploy_actions_def switch_actions_def plain_def)
  from update_alone [OF b1(5,2,3)] obtain b2 where b2: "(moves d)\<^sup>*\<^sup>* b1 b2" "tx_answer b2 = None" "tx_todo b2 = ?acts"
    "tx_sees d b2 = fst (promote_version m v d)" "tx_affected b2 = snd (promote_version m v d)"
    using b1(4) by (auto simp: promote_version_def set_row_eq)
  then have "tx_affected b2 \<noteq> 0"
    using v by (auto simp: promote_version_def sql_update_def has_version_def filter_empty_conv)
  then have "moves d b2 (next_action b2)"
    using b2(2,3) by (simp add: moves_def commits_next_def tx_step_def)
  moreover obtain b3 where "(moves d)\<^sup>*\<^sup>* (next_action b2) b3"
    "ends_with d b3 (Inr None) (insert_event now m v ''deploy'' reason (fst (promote_version m v d)))"
    using event_commit_alone [of "next_action b2" m v "''deploy''" reason now None d] b2(2-4) by auto
  ultimately show ?thesis
    using b1(1) b2(1) by (meson converse_rtranclp_into_rtranclp rtranclp_trans)
qed

text \<open>Transaction \<open>b\<close> looks for rows to archive; \<open>a\<close> runs and commits; \<open>b\<close> finds the row it wanted to archive
  archived, does not look again, and commits.\<close>

lemma overtaken_deploy:
  assumes keys: "distinct (map version_key (model_versions d))"
    and a: "a = begin_tx (DeployVersion m v1 reason1) now1" "has_version m v1 d"
    and b: "b = begin_tx (DeployVersion m v2 reason2) now2" "has_version m v2 d"
    and old: "\<forall>r \<in> set (model_versions d). is_version m v1 r \<longrightarrow> row_stage r \<noteq> StageProduction"
    and d1: "d1 = switch_production m v1 ''deploy'' reason1 now1 d"
    and d2: "d2 = insert_event now2 m v2 ''deploy'' reason2 (fst (promote_version m v2 d1))"
  shows "\<exists>a' b'. registry_step\<^sup>*\<^sup>* (d, [a, b]) (d2, [a', b']) \<and> registry_step\<^sup>*\<^sup>* (d, [b, a]) (d2, [b', a'])
    \<and> tx_answer a' = Some (Inr None) \<and> tx_answer b' = Some (Inr None)"
proof -
  let ?ks = "found_keys (InStage m StageProduction) d"
  define t where "t = b\<lparr>tx_affected := 0, tx_todo := map (UpdateRow ToArchived (InStage m StageProduction)) ?ks @ tl (tx_todo b)\<rparr>"
  have "moves d b t"
    using begin_open [of "DeployVersion m v2 reason2" now2] b(1)
    by (simp add: moves_def commits_next_def tx_step_def deploy_actions_def switch_actions_def t_def)
  then have s1: "registry_step\<^sup>*\<^sup>* (d, [a, b]) (d, [a, t])" "registry_step\<^sup>*\<^sup>* (d, [b, a]) (d, [t, a])"
    using alone_steps [of d b t a] a(1) by auto
  have "d1 \<noteq> d"
    by (auto simp: d1 switch_production_def dest: arg_cong [where f = "\<lambda>d. length (deployment_events d)"])
  moreover obtain u where "(moves d)\<^sup>*\<^sup>* a u" "ends_with d u (Inr None) d1"
    using alone_performs [OF keys, of "DeployVersion m v1 reason1" now1] a
    by (auto simp: Deploy_eq tx_commit_def deploy_effect_def d1)
  ultimately obtain a' where s2: "registry_step\<^sup>*\<^sup>* (d, [a, t]) (d1, [a', t])"
    "registry_step\<^sup>*\<^sup>* (d, [t, a]) (d1, [t, a'])" "tx_answer a' = Some (Inr None)" "tx_locks a' = []"
    using alone_commits [of d a u "Inr None" d1 t] b(1) t_def by auto
  have "\<not> in_stage m StageProduction r" if "r \<in> set (model_versions d1)" "version_key r \<in> set ?ks" for r
  proof
    assume "in_stage m StageProduction r"
    then have "version_key r = (m, v1)"
      using switched_rows [of r m v1] that(1) by (simp add: d1 version_key_def in_stage_def)
    then show False
      using that(2) old by (auto simp: found_keys_def version_key_def in_stage_def is_version_def)
  qed
  moreover have "distinct (map version_key (model_versions d1))" "has_version m v2 d1"
    using keys b(2) by (simp_all add: d1)
  ultimately obtain t' where "(moves d1)\<^sup>*\<^sup>* t t'" "ends_with d1 t' (Inr None) d2"
    using late_deploy [OF _ _ b(1) t_def] d2 by blast
  moreover have "d2 \<noteq> d1"
    unfolding d2 by (rule event_changes) (simp add: promote_version_def sql_update_def)
  ultimately obtain b' where "registry_step\<^sup>*\<^sup>* (d1, [a', t]) (d2, [a', b'])" "tx_answer b' = Some (Inr None)"
    "registry_step\<^sup>*\<^sup>* (d1, [t, a']) (d2, [b', a'])"
    using alone_commits [of d1 t t' "Inr None" d2 a'] s2(4) by auto
  then show ?thesis
    using s1 s2(1,2,3) by (intro exI [of _ a'] exI [of _ b']) (auto intro: rtranclp_trans)
qed

lemma both_in_production:
  assumes "has_version m v1 d" and "has_version m v2 d"
    and d2: "d2 = insert_event now2 m v2 ''deploy'' reason2 (fst (promote_version m v2 (switch_production m v1 ''deploy'' reason1 now1 d)))"
  shows "(\<exists>r1 \<in> set (model_versions d2). is_version m v1 r1 \<and> row_stage r1 = StageProduction)
    \<and> (\<exists>r2 \<in> set (model_versions d2). is_version m v2 r2 \<and> row_stage r2 = StageProduction)"
proof -
  let ?d0 = "fst (archive_production m d)" and ?d1 = "switch_production m v1 ''deploy'' reason1 now1 d"
  have "map version_key (model_versions ?d0) = map version_key (model_versions d)"
    by (auto simp: archive_production_def sql_update_def)
  then have "has_version m v1 ?d0"
    using assms(1) by (metis has_version_keys)
  moreover have rows: "model_versions ?d1 = model_versions (fst (promote_version m v1 ?d0))"
    by (simp add: promote_after_archive [symmetric] insert_event_def)
  ultimately obtain r1 where r1: "r1 \<in> set (model_versions ?d1)" "is_version m v1 r1" "row_stage r1 = StageProduction"
    using promoted_in_production by force
  have "has_version m v2 ?d1"
    using assms(2) by simp
  then show ?thesis
    using promoted_in_production stays_in_production [OF r1] by (simp add: d2 insert_event_def)
qed

lemma one_versionD:
  "registry_ok d \<Longrightarrow> r \<in> set (model_versions d) \<Longrightarrow> r' \<in> set (model_versions d) \<Longrightarrow> row_stage r = StageProduction
    \<Longrightarrow> row_stage r' = StageProduction \<Longrightarrow> row_model_name r = row_model_name r' \<Longrightarrow> row_version r = row_version r'"
  unfolding registry_ok_def one_production_def by blast

lemma perform_ok:
  assumes "from_handler q" and "registry_ok d"
  shows "registry_ok (snd (perform q c d))"
proof (cases q)
  case (RegisterVersion mv)
  then show ?thesis
    using assms register_op.keeps [of registry_ok d mv c] by (simp add: register_effect_ok stage_or_staging_def)
next
  case (DeployVersion m v reason)
  then show ?thesis
    using assms deploy_op.keeps [of registry_ok d m v reason c] by (simp add: deploy_effect_ok)
next
  case (RollbackModel m reason)
  then show ?thesis
    using assms rollback_op.keeps [of registry_ok d m reason c] by (simp add: rollback_effect_ok)
next
  case (SplitTraffic m v pct)
  then show ?thesis
    using assms traffic_op.keeps [of registry_ok d m v pct c] by (simp add: traffic_effect_ok)
qed

lemma one_by_one_ok:
  "\<forall>(i, q, c) \<in> set qs. from_handler q \<Longrightarrow> registry_ok d \<Longrightarrow> registry_ok (snd (one_by_one qs d))"
  by (induction qs d rule: one_by_one.induct) (auto split: prod.splits, metis perform_ok snd_conv)

text \<open>The concrete tables and requests of the instances.\<close>

definition demo_tables :: db where
  "demo_tables = \<lparr>model_versions = [demo_row ''1'' StageStaging 0 1, demo_row ''2'' StageStaging 0 2],
     deployment_events = []\<rparr>"

lemma demo_tables_ok: "registry_ok demo_tables" "has_version ''m'' ''1'' demo_tables" "has_version ''m'' ''2'' demo_tables"
  by (simp_all add: demo_tables_def registry_ok_def version_key_def demo_row_def one_production_def row_ok_def audited_def
      has_version_def is_version_def)

definition demo_split :: tx where
  "demo_split = begin_tx (SplitTraffic ''m'' ''1'' 5) 3"

definition demo_visit :: tx where
  "demo_visit = demo_split\<lparr>tx_affected := 0, tx_todo := [UpdateRow (ToShare 5) (OfVersion ''m'' ''1'') (''m'', ''1''), CommitAffected]\<rparr>"

definition demo_commit :: tx where
  "demo_commit = lock_row (''m'', ''1'') (next_action (write_row (demo_row ''1'' StageStaging 5 1) demo_visit))"

definition demo_done :: tx where
  "demo_done = finish (Inr None) demo_commit"

definition demo_other :: tx where
  "demo_other = begin_tx (DeployVersion ''n'' ''1'' []) 4"

definition demo_after :: db where
  "demo_after = \<lparr>model_versions = [demo_row ''1'' StageStaging 5 1, demo_row ''2'' StageStaging 0 2],
     deployment_events = []\<rparr>"

lemma demo_split_parts: "tx_answer demo_split = None" "tx_affected demo_split = 0"
  "tx_todo demo_split = [Update (ToShare 5) (OfVersion ''m'' ''1''), CommitAffected]"
  "tx_writes demo_split = Map.empty" "tx_new demo_split = []" "tx_events demo_split = []"
  by (simp_all add: demo_split_def begin_tx_def fits_int4_def)

lemma demo_steps:
  "tx_step demo_tables demo_split = (demo_visit, demo_tables)"
  "tx_step demo_tables demo_visit = (demo_commit, demo_tables)"
  "tx_step demo_tables demo_commit = (demo_done, demo_after)"
  by (simp_all add: demo_visit_def demo_commit_def demo_done_def demo_after_def demo_tables_def demo_row_def tx_step_def
      demo_split_parts found_keys_def row_at_def tx_sees_def is_version_def
      version_key_def overwritten_def)

lemma other_models_two: "request_model (tx_request a) \<noteq> request_model (tx_request b) \<Longrightarrow> other_models [a, b]"
  by (auto simp: other_models_def less_Suc_eq)

lemma demo_requests: "tx_request demo_split = SplitTraffic ''m'' ''1'' 5" "tx_request demo_visit = SplitTraffic ''m'' ''1'' 5"
  "tx_request demo_commit = SplitTraffic ''m'' ''1'' 5" "tx_request demo_done = SplitTraffic ''m'' ''1'' 5"
  "tx_request demo_other = DeployVersion ''n'' ''1'' []"
  by (simp_all add: demo_split_def demo_visit_def demo_commit_def demo_done_def demo_other_def)

lemma demo_run: "apart_step\<^sup>*\<^sup>* (demo_tables, []) (demo_after, [demo_done, demo_other])"
proof -
  have "apart_step (demo_tables, []) (demo_tables, [demo_split])"
    using registry_step.arrives [of demo_tables "[]"] by (simp add: apart_step_def other_models_def demo_split_def)
  moreover have "apart_step (demo_tables, [demo_split]) (demo_tables, [demo_split, demo_other])"
    using registry_step.arrives [of demo_tables "[demo_split]"] other_models_two [of demo_split demo_other]
    by (simp add: apart_step_def demo_requests) (simp add: other_models_def demo_other_def)
  moreover have "apart_step (d, [t, demo_other]) (d', [t', demo_other])"
    if "tx_step d t = (t', d')" "tx_answer t = None" "request_model (tx_request t) = ''m''" "request_model (tx_request t') = ''m''"
    for d d' t t'
    using registry_step.proceeds [of 0 "[t, demo_other]" d t' d'] that other_models_two [of t demo_other]
      other_models_two [of t' demo_other] by (simp add: apart_step_def demo_requests) (simp add: demo_other_def)
  from this [OF demo_steps(1)] this [OF demo_steps(2)] this [OF demo_steps(3)]
  have "apart_step (demo_tables, [demo_split, demo_other]) (demo_tables, [demo_visit, demo_other])"
    "apart_step (demo_tables, [demo_visit, demo_other]) (demo_tables, [demo_commit, demo_other])"
    "apart_step (demo_tables, [demo_commit, demo_other]) (demo_after, [demo_done, demo_other])"
    by (simp_all add: demo_requests demo_split_parts demo_visit_def demo_commit_def)
  ultimately show ?thesis
    by (auto intro: converse_rtranclp_into_rtranclp)
qed

lemma apart_run: "apart_step\<^sup>*\<^sup>* s s' \<Longrightarrow> registry_step\<^sup>*\<^sup>* s s'"
  by (induction rule: rtranclp_induct) (auto simp: apart_step_def intro: rtranclp.rtrancl_into_rtrancl)

lemma demo_from_handler: "\<forall>t \<in> set [demo_done, demo_other]. from_handler (tx_request t)"
  by (simp add: demo_requests)

section \<open>Properties\<close>

text \<open>C15: two requests to deploy different versions of a model, whatever is in production, can be interleaved so
  that both are answered with success and both versions end up in production, against the invariant
  that requests one after the other keep: the transaction that looked for versions to archive before the
  other one committed does not see the version the other one put into production.\<close>

theorem concurrent_deploys_break_invariant:
  assumes "registry_ok d" and "v1 \<noteq> v2" and "has_version m v1 d" and "has_version m v2 d"
  shows "\<exists>d' t1 t2. registry_step\<^sup>*\<^sup>*
      (d, [begin_tx (DeployVersion m v1 reason1) now1, begin_tx (DeployVersion m v2 reason2) now2]) (d', [t1, t2])
    \<and> tx_answer t1 = Some (Inr None) \<and> tx_answer t2 = Some (Inr None)
    \<and> (\<exists>r1 \<in> set (model_versions d'). is_version m v1 r1 \<and> row_stage r1 = StageProduction)
    \<and> (\<exists>r2 \<in> set (model_versions d'). is_version m v2 r2 \<and> row_stage r2 = StageProduction)
    \<and> \<not> registry_ok d'"
proof -
  let ?a = "begin_tx (DeployVersion m v1 reason1) now1" and ?b = "begin_tx (DeployVersion m v2 reason2) now2"
  have keys: "distinct (map version_key (model_versions d))"
    using assms(1) by (simp add: registry_ok_def)
  let ?both = "\<lambda>d'. (\<exists>r1 \<in> set (model_versions d'). is_version m v1 r1 \<and> row_stage r1 = StageProduction)
    \<and> (\<exists>r2 \<in> set (model_versions d'). is_version m v2 r2 \<and> row_stage r2 = StageProduction)"
  have "\<exists>d' t1 t2. registry_step\<^sup>*\<^sup>* (d, [?a, ?b]) (d', [t1, t2])
    \<and> tx_answer t1 = Some (Inr None) \<and> tx_answer t2 = Some (Inr None) \<and> ?both d'"
  proof (cases "\<forall>r \<in> set (model_versions d). is_version m v1 r \<longrightarrow> row_stage r \<noteq> StageProduction")
    case True
    from overtaken_deploy [OF keys refl assms(3) refl assms(4) True refl refl] both_in_production [OF assms(3,4) refl]
    show ?thesis
      by metis
  next
    case False
    then have other: "\<forall>r \<in> set (model_versions d). is_version m v2 r \<longrightarrow> row_stage r \<noteq> StageProduction"
      using one_versionD [OF assms(1)] assms(2) by (metis is_version_def)
    let ?d2 = "insert_event now1 m v1 ''deploy'' reason1 (fst (promote_version m v1 (switch_production m v2 ''deploy'' reason2 now2 d)))"
    obtain t1 t2 where "registry_step\<^sup>*\<^sup>* (d, [?a, ?b]) (?d2, [t1, t2])" "tx_answer t1 = Some (Inr None)"
      "tx_answer t2 = Some (Inr None)"
      using overtaken_deploy [OF keys refl assms(4) refl assms(3) other refl refl] by blast
    moreover have "?both ?d2"
      using both_in_production [OF assms(4,3) refl] by simp
    ultimately show ?thesis
      by blast
  qed
  then obtain d' t1 t2 where run: "registry_step\<^sup>*\<^sup>* (d, [?a, ?b]) (d', [t1, t2])" "tx_answer t1 = Some (Inr None)"
    "tx_answer t2 = Some (Inr None)" and both: "?both d'"
    by blast
  have "\<not> registry_ok d'"
    using both assms(2) one_versionD [of d'] by (metis is_version_def)
  with run both show ?thesis
    by blast
qed

theorem concurrent_deploys_break_invariant_witness:
  "\<exists>d' t1 t2. registry_step\<^sup>*\<^sup>* (demo_tables,
       [begin_tx (DeployVersion ''m'' ''1'' []) 3, begin_tx (DeployVersion ''m'' ''2'' []) 4]) (d', [t1, t2])
    \<and> \<not> registry_ok d'"
proof -
  have "''1'' \<noteq> ''2''"
    by simp
  from concurrent_deploys_break_invariant [OF demo_tables_ok(1) this demo_tables_ok(2,3)] show ?thesis
    by blast
qed

text \<open>C16: in every interleaving of requests the rows keep their primary key, and stages and shares are in
  range: no two transactions add or change one row at the same time.\<close>

theorem interleaved_requests_keep_rows:
  assumes "registry_step\<^sup>*\<^sup>* (d, []) (d', ts)" and "\<forall>t \<in> set ts. from_handler (tx_request t)"
    and "distinct (map version_key (model_versions d))" and "list_all row_ok (model_versions d)"
  shows "distinct (map version_key (model_versions d')) \<and> list_all row_ok (model_versions d')"
proof -
  have "(\<forall>t \<in> set (snd s). from_handler (tx_request t)) \<longrightarrow> tables_ok s" if "registry_step\<^sup>*\<^sup>* (d, []) s" for s
    using that
  proof (induction rule: rtranclp_induct)
    case base
    show ?case
      using assms(3,4) by (simp add: tables_ok_def rows_ok_def)
  next
    case (step s s')
    have "\<forall>t \<in> set (snd s'). from_handler (tx_request t) \<Longrightarrow> \<forall>t \<in> set (snd s). from_handler (tx_request t)"
      using requests_stay [of "fst s" "snd s" "fst s'" "snd s'"] step.hyps(2) by (metis prod.collapse)
    then show ?case
      using tables_ok_step [of "fst s" "snd s" "fst s'" "snd s'"] step by auto
  qed
  then show ?thesis
    using assms(1,2) by (fastforce simp: tables_ok_def rows_ok_def)
qed

theorem interleaved_requests_keep_rows_witness:
  "distinct (map version_key (model_versions demo_after)) \<and> list_all row_ok (model_versions demo_after)"
  using interleaved_requests_keep_rows [OF apart_run [OF demo_run] demo_from_handler] demo_tables_ok(1)
  by (simp add: registry_ok_def)

text \<open>C14: as long as no two open transactions are about one model, every interleaving of requests (with transactions
  given up and answers lost anywhere) is an order of requests one after the other: the closed
  transactions are the requests of that order, once each, with the answers they have there, and the
  tables are those it leaves.\<close>

theorem requests_on_other_models_are_serial:
  assumes "apart_step\<^sup>*\<^sup>* (d, []) (d', ts)" and "distinct (map version_key (model_versions d))"
  shows "\<exists>qs. snd (one_by_one qs d) = d' \<and> distinct (map fst qs)
    \<and> (\<forall>(i, q, c) \<in> set qs. i < length ts \<and> tx_request (ts ! i) = q)
    \<and> set (fst (one_by_one qs d)) = {(i, res). i < length ts \<and> tx_answer (ts ! i) = Some res}"
  using apart_in_order [OF assms] by (auto simp: in_order_def)

theorem requests_on_other_models_are_serial_witness:
  "\<exists>qs. snd (one_by_one qs demo_tables) = demo_after
    \<and> set (fst (one_by_one qs demo_tables)) = {(i, res). i < 2 \<and> tx_answer ([demo_done, demo_other] ! i) = Some res}"
  using requests_on_other_models_are_serial [OF demo_run] demo_tables_ok(1) by (auto simp: registry_ok_def numeral_2_eq_2)

text \<open>C17: so interleaved requests keep the tables' invariant (at most one version of a model in production,
  named by the latest event, besides key and ranges) as long as no two open transactions are about
  one model.\<close>

theorem requests_on_other_models_keep_invariant:
  assumes "apart_step\<^sup>*\<^sup>* (d, []) (d', ts)" and "\<forall>t \<in> set ts. from_handler (tx_request t)" and "registry_ok d"
  shows "registry_ok d'"
proof -
  have "distinct (map version_key (model_versions d))"
    using assms(3) by (simp add: registry_ok_def)
  then obtain qs where "snd (one_by_one qs d) = d'" "\<forall>(i, q, c) \<in> set qs. i < length ts \<and> tx_request (ts ! i) = q"
    using apart_in_order [OF assms(1)] by (auto simp: in_order_def)
  then show ?thesis
    using one_by_one_ok [of qs d] assms(2,3) by fastforce
qed

theorem requests_on_other_models_keep_invariant_witness: "registry_ok demo_after"
  by (rule requests_on_other_models_keep_invariant [OF demo_run demo_from_handler demo_tables_ok(1)])

end
