(* ===== verification/Auth.thy ===== *)
theory Auth
  imports Http
begin

text \<open>
  The gateway's API keys: \<open>splitCSV\<close> of \<open>services/gateway-go/cmd/gateway/main.go\<close>, which reads
  them from the environment, and \<open>services/gateway-go/internal/auth/apikey.go\<close>.
\<close>

section \<open>Reading the list of keys\<close>

text \<open>\<open>strings.TrimSpace\<close> on ASCII text.\<close>

definition is_space :: "char \<Rightarrow> bool" where
  "is_space c \<longleftrightarrow> c \<in> {CHR '' '', CHR 0x09, CHR 0x0A, CHR 0x0B, CHR 0x0C, CHR 0x0D}"

definition trim_space :: "string \<Rightarrow> string" where
  "trim_space s = rev (dropWhile is_space (rev (dropWhile is_space s)))"

definition splitCSV :: "string \<Rightarrow> string list" where
  "splitCSV s = (if s = [] then [] else map trim_space (split_at (CHR '','') s))"

section \<open>Key sets\<close>

type_synonym KeySet = "(string, bool) gomap"

fun add_keys :: "string list \<Rightarrow> KeySet \<Rightarrow> KeySet" where
  "add_keys [] s = s"
| "add_keys (k # ks) s = add_keys ks (if k \<noteq> [] then AList.update k True s else s)"

definition NewKeySet :: "string list \<Rightarrow> KeySet" where
  "NewKeySet keys = add_keys keys []"

definition KeySet_has :: "KeySet \<Rightarrow> string \<Rightarrow> bool" where
  "KeySet_has s k = (map_of s k = Some True)"

definition KeySet_Middleware :: "KeySet \<Rightarrow> 's http_handler \<Rightarrow> 's http_handler" where
  "KeySet_Middleware s next r st =
     (if length s = 0 then next r st
      else
        let key = hq_APIKey r in
        if key = [] \<or> \<not> KeySet_has s key
        then Done (http_Error ''{\"error\":\"invalid or missing X-API-Key\"}'' 401, st)
        else next r st)"

section \<open>Which keys are accepted\<close>

lemma map_of_add_keys: "map_of (add_keys ks s) k = (if k \<in> set ks \<and> k \<noteq> [] then Some True else map_of s k)"
  by (induction ks arbitrary: s) (auto simp: update_conv')

lemma KeySet_has_New [simp]: "KeySet_has (NewKeySet ks) k \<longleftrightarrow> k \<in> set ks \<and> k \<noteq> []"
  by (simp add: KeySet_has_def NewKeySet_def map_of_add_keys)

lemma NewKeySet_empty_iff: "length (NewKeySet ks) = 0 \<longleftrightarrow> (\<forall>k \<in> set ks. k = [])"
proof -
  have "length (NewKeySet ks) = 0 \<longleftrightarrow> (\<forall>k. map_of (NewKeySet ks) k = None)"
    by (cases "NewKeySet ks") auto
  also have "\<dots> \<longleftrightarrow> (\<forall>k \<in> set ks. k = [])"
    by (auto simp: NewKeySet_def map_of_add_keys)
  finally show ?thesis .
qed

end
