(* ===== verification/RateLimit.thy ===== *)
theory RateLimit
  imports Http
begin

text \<open>
  The gateway's rate limiter, \<open>services/gateway-go/internal/ratelimit/ratelimit.go\<close>. The token
  bucket is \<open>rate.Limiter\<close> of \<open>golang.org/x/time/rate\<close>, which is not part of the repository:
  \<open>new\<close> and \<open>allow\<close> are parameters, any functions of the type of its constructor and of \<open>Allow\<close>.
\<close>

section \<open>Who a request counts for\<close>

fun index_of :: "char \<Rightarrow> string \<Rightarrow> nat option" where
  "index_of c [] = None"
| "index_of c (x # xs) = (if x = c then Some 0 else map_option Suc (index_of c xs))"

fun last_index_of :: "char \<Rightarrow> string \<Rightarrow> nat option" where
  "last_index_of c [] = None"
| "last_index_of c (x # xs) =
     (case last_index_of c xs of
        Some i \<Rightarrow> Some (Suc i)
      | None \<Rightarrow> if x = c then Some 0 else None)"

text \<open>The host of \<open>net.SplitHostPort\<close>; \<open>None\<close> is an error.\<close>

definition split_host :: "string \<Rightarrow> string option" where
  "split_host s =
     (case last_index_of (CHR '':'') s of
        None \<Rightarrow> None
      | Some i \<Rightarrow>
          if hd s = CHR ''[''
          then (case index_of (CHR '']'') s of
                  None \<Rightarrow> None
                | Some e \<Rightarrow>
                    if e + 1 \<noteq> i then None
                    else if CHR ''['' \<in> set (drop 1 s) \<or> CHR '']'' \<in> set (drop (e + 1) s) then None
                    else Some (drop 1 (take e s)))
          else if CHR '':'' \<in> set (take i s) then None
          else if CHR ''['' \<in> set s \<or> CHR '']'' \<in> set s then None
          else Some (take i s))"

definition clientKey :: "http_request \<Rightarrow> string" where
  "clientKey r =
     (if hq_APIKey r \<noteq> [] then hq_APIKey r
      else case split_host (hq_RemoteAddr r) of None \<Rightarrow> hq_RemoteAddr r | Some host \<Rightarrow> host)"

section \<open>The limiter\<close>

record 'l Limiter =
  limiters :: "(string, 'l) gomap"
  rps :: flt
  burst :: go_int

definition NewLimiter :: "flt \<Rightarrow> go_int \<Rightarrow> 'l Limiter" where
  "NewLimiter r b = \<lparr>limiters = [], rps = r, burst = b\<rparr>"

definition limiterFor :: "(flt \<Rightarrow> go_int \<Rightarrow> 'l) \<Rightarrow> string \<Rightarrow> 'l Limiter \<Rightarrow> 'l \<times> 'l Limiter" where
  "limiterFor new key l =
     (case map_of (limiters l) key of
        Some lim \<Rightarrow> (lim, l)
      | None \<Rightarrow> (let lim = new (rps l) (burst l) in (lim, l\<lparr>limiters := AList.update key lim (limiters l)\<rparr>)))"

text \<open>\<open>limiterFor(key).Allow()\<close>: \<open>Allow\<close> changes the bucket \<open>limiterFor\<close> gave out. The map holds it only if it was
  stored there: otherwise the change is lost with the bucket.\<close>

definition Limiter_allow ::
  "(flt \<Rightarrow> go_int \<Rightarrow> 'l) \<Rightarrow> (instant \<Rightarrow> 'l \<Rightarrow> bool \<times> 'l) \<Rightarrow> instant \<Rightarrow> string \<Rightarrow> 'l Limiter \<Rightarrow> bool \<times> 'l Limiter"
where
  "Limiter_allow new allow now key l =
     (let (lim, l1) = limiterFor new key l;
          (ok, lim') = allow now lim
      in (ok, l1\<lparr>limiters := AList.map_entry key (\<lambda>_. lim') (limiters l1)\<rparr>))"

definition Limiter_Middleware ::
  "(flt \<Rightarrow> go_int \<Rightarrow> 'l) \<Rightarrow> (instant \<Rightarrow> 'l \<Rightarrow> bool \<times> 'l) \<Rightarrow> instant
     \<Rightarrow> 's http_handler \<Rightarrow> ('l Limiter \<times> 's) http_handler"
where
  "Limiter_Middleware new allow now next r = (\<lambda>(l, s).
     let (ok, l') = Limiter_allow new allow now (clientKey r) l in
     if \<not> ok then Done (http_Error ''{\"error\":\"rate limit exceeded\"}'' 429, (l', s))
     else (case next r s of
             Done (rep, s') \<Rightarrow> Done (rep, (l', s'))
           | Blocked \<Rightarrow> Blocked
           | Panicked \<Rightarrow> Panicked))"

section \<open>One bucket per client\<close>

text \<open>The bucket a client has: its own if it was seen before, otherwise a new one.\<close>

definition bucket :: "(flt \<Rightarrow> go_int \<Rightarrow> 'l) \<Rightarrow> 'l Limiter \<Rightarrow> string \<Rightarrow> 'l" where
  "bucket new l key = (case map_of (limiters l) key of Some lim \<Rightarrow> lim | None \<Rightarrow> new (rps l) (burst l))"

lemma Limiter_allow_eq:
  "fst (Limiter_allow new allow now key l) = fst (allow now (bucket new l key))"
  "bucket new (snd (Limiter_allow new allow now key l)) =
     (bucket new l)(key := snd (allow now (bucket new l key)))"
  by (auto simp: Limiter_allow_def limiterFor_def bucket_def Let_def update_conv' AList.map_of_map_entry fun_eq_iff
      split: option.splits prod.splits)

text \<open>The verdicts on a sequence of requests, each with its time; and those of one bucket alone.\<close>

fun verdicts ::
  "(flt \<Rightarrow> go_int \<Rightarrow> 'l) \<Rightarrow> (instant \<Rightarrow> 'l \<Rightarrow> bool \<times> 'l) \<Rightarrow> 'l Limiter \<Rightarrow> (instant \<times> http_request) list \<Rightarrow> bool list"
where
  "verdicts new allow l [] = []"
| "verdicts new allow l ((t, r) # rs) =
     (let (ok, l') = Limiter_allow new allow t (clientKey r) l in ok # verdicts new allow l' rs)"

fun bucket_verdicts :: "(instant \<Rightarrow> 'l \<Rightarrow> bool \<times> 'l) \<Rightarrow> 'l \<Rightarrow> instant list \<Rightarrow> bool list" where
  "bucket_verdicts allow b [] = []"
| "bucket_verdicts allow b (t # ts) = (let (ok, b') = allow t b in ok # bucket_verdicts allow b' ts)"

lemma verdicts_by_client:
  "map snd (filter (\<lambda>((t, r), ok). clientKey r = k) (zip rs (verdicts new allow l rs)))
     = bucket_verdicts allow (bucket new l k) (map fst (filter (\<lambda>(t, r). clientKey r = k) rs))"
proof (induction rs arbitrary: l)
  case (Cons tr rs)
  obtain t r where tr: "tr = (t, r)"
    by fastforce
  let ?a = "Limiter_allow new allow t (clientKey r) l"
  show ?case
    using Cons.IH [of "snd ?a"] Limiter_allow_eq [of new allow t "clientKey r" l]
    by (auto simp: tr Let_def split: prod.split)
qed simp

end
