(* ===== verification/Gateway.thy ===== *)
theory Gateway
  imports Auth RateLimit Dispatcher
begin

text \<open>
  The gateway's REST handlers, \<open>services/gateway-go/internal/handler/http.go\<close>, and the chain of
  middlewares \<open>cmd/gateway/main.go\<close> puts in front of them.

  The gRPC client is the parameter \<open>router\<close>: it takes the request and the router's state and
  returns an error's text or a response, with the new state. Its call timeout is one of its
  errors. The request's UUID and the time are in \<open>gw_env\<close>.
\<close>

section \<open>Requests and conversions\<close>

record inferRequest =
  iq_VehicleID :: string
  iq_ModelName :: string
  iq_ModelVersion :: string
  iq_Precision :: string
  iq_Features :: "flt list"
  iq_Priority :: string

definition zero_infer :: inferRequest where
  "zero_infer = \<lparr>iq_VehicleID = [], iq_ModelName = [], iq_ModelVersion = [], iq_Precision = [],
     iq_Features = [], iq_Priority = []\<rparr>"

definition infer_field :: "string \<Rightarrow> json \<Rightarrow> inferRequest \<Rightarrow> inferRequest \<times> bool" where
  "infer_field k v q =
     (if k = ''vehicle_id'' then apfst (\<lambda>x. q\<lparr>iq_VehicleID := x\<rparr>) (dec_string v (iq_VehicleID q))
      else if k = ''model_name'' then apfst (\<lambda>x. q\<lparr>iq_ModelName := x\<rparr>) (dec_string v (iq_ModelName q))
      else if k = ''model_version'' then apfst (\<lambda>x. q\<lparr>iq_ModelVersion := x\<rparr>) (dec_string v (iq_ModelVersion q))
      else if k = ''precision'' then apfst (\<lambda>x. q\<lparr>iq_Precision := x\<rparr>) (dec_string v (iq_Precision q))
      else if k = ''features'' then
        apfst (\<lambda>x. q\<lparr>iq_Features := x\<rparr>) (dec_slice dec_f64 flt_zero v (iq_Features q))
      else if k = ''priority'' then apfst (\<lambda>x. q\<lparr>iq_Priority := x\<rparr>) (dec_string v (iq_Priority q))
      else (q, True))"

definition decode_infer :: "body \<Rightarrow> inferRequest option" where
  "decode_infer = decode_struct infer_field zero_infer"

definition gateway_precisionToProto :: "string \<Rightarrow> pb_Precision" where
  "gateway_precisionToProto p =
     (if p = PrecisionFP32 then PRECISION_FP32
      else if p = PrecisionFP16 then PRECISION_FP16
      else if p = PrecisionINT8 then PRECISION_INT8
      else if p = PrecisionINT4 then PRECISION_INT4
      else PRECISION_UNSPECIFIED)"

definition gateway_priorityToProto :: "string \<Rightarrow> pb_Priority" where
  "gateway_priorityToProto p =
     (if p = ''high'' then PRIORITY_HIGH
      else if p = ''critical'' then PRIORITY_CRITICAL
      else PRIORITY_NORMAL)"

definition priorityFromString :: "string \<Rightarrow> Priority" where
  "priorityFromString p =
     (if p = ''high'' then PriorityHigh
      else if p = ''critical'' then PriorityCritical
      else PriorityNormal)"

section \<open>The handlers\<close>

record gw_env =
  ge_uuid :: string
  ge_now :: instant

record ('q, 'r) gateway =
  gw_queue :: 'q
  gw_router :: 'r

text \<open>The checks both handlers start with: the decoded request, or the reply that refuses it.\<close>

definition checked_request :: "body \<Rightarrow> http_reply + inferRequest" where
  "checked_request b =
     (case decode_infer b of
        None \<Rightarrow> Inl (http_Error ''{\"error\":\"invalid json body\"}'' 400)
      | Some req \<Rightarrow>
          if iq_ModelName req = [] \<or> length (iq_Features req) = 0
          then Inl (http_Error ''{\"error\":\"model_name and features are required\"}'' 400)
          else Inr req)"

definition infer_request :: "gw_env \<Rightarrow> inferRequest \<Rightarrow> InferenceRequest" where
  "infer_request env req =
     \<lparr>req_RequestId = ge_uuid env, req_VehicleId = iq_VehicleID req, req_ModelName = iq_ModelName req,
      req_ModelVersion = iq_ModelVersion req,
      req_PreferredPrecision = gateway_precisionToProto (iq_Precision req),
      req_Features = map narrow32 (iq_Features req),
      req_Priority = gateway_priorityToProto (iq_Priority req),
      req_SubmittedAtUnixMs = UnixMilli (ge_now env)\<rparr>"

text \<open>A confidence that JSON cannot express leaves the body of the reply empty.\<close>

definition infer_reply :: "InferenceResponse \<Rightarrow> http_reply" where
  "infer_reply resp =
     (if is_finite (resp_Confidence resp)
      then writeJSON 200 (JObj
        [(''request_id'', JStr (resp_RequestId resp)), (''worker_id'', JStr (resp_WorkerId resp)),
         (''model_version'', JStr (resp_ModelVersion resp)), (''predicted_label'', JStr (resp_PredictedLabel resp)),
         (''confidence'', JFlt (resp_Confidence resp)), (''latency_ms'', JInt (sint (resp_LatencyMs resp)))])
      else \<lparr>rp_status = 200, rp_body = TextReply []\<rparr>)"

definition Handler_Infer ::
  "(InferenceRequest \<Rightarrow> 'r \<Rightarrow> (string + InferenceResponse) \<times> 'r) \<Rightarrow> gw_env \<Rightarrow> ('q, 'r) gateway http_handler"
where
  "Handler_Infer router env r s =
     (case checked_request (hq_Body r) of
        Inl rep \<Rightarrow> Done (rep, s)
      | Inr req \<Rightarrow>
          (case router (infer_request env req) (gw_router s) of
             (Inl err, rs) \<Rightarrow>
               Done (http_Error (''{\"error\":\"inference failed: '' @ err @ ''\"}'') 502, s\<lparr>gw_router := rs\<rparr>)
           | (Inr resp, rs) \<Rightarrow> Done (infer_reply resp, s\<lparr>gw_router := rs\<rparr>)))"

definition submitted_job :: "gw_env \<Rightarrow> inferRequest \<Rightarrow> InferenceJob" where
  "submitted_job env req =
     \<lparr>job_ID = ge_uuid env, job_VehicleID = iq_VehicleID req, job_ModelName = iq_ModelName req,
      job_ModelVersion = iq_ModelVersion req, job_PreferPrecision = iq_Precision req,
      job_Features = iq_Features req, job_Priority = priorityFromString (iq_Priority req),
      job_SubmittedAt = ge_now env, job_Attempt = 0, job_MaxAttempts = 3\<rparr>"

definition Handler_SubmitJob ::
  "'q queue_ops \<Rightarrow> string \<Rightarrow> gw_env \<Rightarrow> ('q, 'r) gateway http_handler"
where
  "Handler_SubmitJob ops jobsTopic env r s =
     (case checked_request (hq_Body r) of
        Inl rep \<Rightarrow> Done (rep, s)
      | Inr req \<Rightarrow>
          (let job = submitted_job env req in
           case q_Enqueue ops jobsTopic (marshal_job job) (gw_queue s) of
             Done (Some err, q') \<Rightarrow> Done (http_Error ''{\"error\":\"failed to enqueue job\"}'' 503, s\<lparr>gw_queue := q'\<rparr>)
           | Done (None, q') \<Rightarrow> Done (writeJSON 202 (JObj [(''job_id'', JStr (job_ID job))]), s\<lparr>gw_queue := q'\<rparr>)
           | Blocked \<Rightarrow> Blocked
           | Panicked \<Rightarrow> Panicked))"

definition Gateway_Healthz :: "'s http_handler" where
  "Gateway_Healthz r s = Done (writeJSON 200 (JObj [(''status'', JStr ''ok'')]), s)"

section \<open>The chain\<close>

definition gateway_chain ::
  "KeySet \<Rightarrow> (flt \<Rightarrow> go_int \<Rightarrow> 'l) \<Rightarrow> (instant \<Rightarrow> 'l \<Rightarrow> bool \<times> 'l) \<Rightarrow> instant \<Rightarrow> string
     \<Rightarrow> 's http_handler \<Rightarrow> (http_metrics \<times> 'l Limiter \<times> 's) http_handler"
where
  "gateway_chain keys new allow now route fn =
     metrics_Middleware route (KeySet_Middleware keys (Limiter_Middleware new allow now fn))"

section \<open>What passes the chain\<close>

definition authorised :: "KeySet \<Rightarrow> http_request \<Rightarrow> bool" where
  "authorised keys r \<longleftrightarrow> keys = [] \<or> hq_APIKey r \<noteq> [] \<and> KeySet_has keys (hq_APIKey r)"

definition counted :: "string \<Rightarrow> http_request \<Rightarrow> int \<Rightarrow> http_metrics \<Rightarrow> http_metrics" where
  "counted route r status m =
     m\<lparr>hm_RequestDuration := hm_RequestDuration m @ [(route, hq_Method r)],
       hm_RequestsTotal := hm_RequestsTotal m @ [(route, hq_Method r, strconv_itoa status)],
       hm_ErrorsTotal := hm_ErrorsTotal m @ (if 500 \<le> status then [(route, ''server_error'')] else [])\<rparr>"

lemma chain_unauthorised:
  "\<not> authorised keys r \<Longrightarrow> gateway_chain keys new allow now route fn r (m, l, s) =
     Done (http_Error ''{\"error\":\"invalid or missing X-API-Key\"}'' 401, (counted route r 401 m, l, s))"
  by (auto simp: gateway_chain_def metrics_Middleware_def KeySet_Middleware_def authorised_def counted_def Let_def)

lemma chain_limited:
  "authorised keys r \<Longrightarrow> Limiter_allow new allow now (clientKey r) l = (False, l') \<Longrightarrow>
     gateway_chain keys new allow now route fn r (m, l, s) =
     Done (http_Error ''{\"error\":\"rate limit exceeded\"}'' 429, (counted route r 429 m, l', s))"
  by (auto simp: gateway_chain_def metrics_Middleware_def KeySet_Middleware_def Limiter_Middleware_def authorised_def
      counted_def Let_def)

lemma chain_admitted:
  "authorised keys r \<Longrightarrow> Limiter_allow new allow now (clientKey r) l = (True, l') \<Longrightarrow>
     gateway_chain keys new allow now route fn r (m, l, s) =
     (case fn r s of
        Done (rep, s') \<Rightarrow> Done (rep, (counted route r (rp_status rep) m, l', s'))
      | Blocked \<Rightarrow> Blocked
      | Panicked \<Rightarrow> Panicked)"
  by (auto simp: gateway_chain_def metrics_Middleware_def KeySet_Middleware_def Limiter_Middleware_def authorised_def
      counted_def Let_def split: run.split)

section \<open>Accepting a job, over any queue that keeps the laws\<close>

context work_queue
begin

lemma submit_effect:
  assumes "Handler_SubmitJob ops jobsTopic env r s = Done (rep, s')"
  shows "gw_router s' = gw_router s \<and> dead (gw_queue s') = dead (gw_queue s) \<and>
    (case checked_request (hq_Body r) of
       Inl refusal \<Rightarrow> rep = refusal \<and> s' = s
     | Inr req \<Rightarrow>
         rp_status rep = 202 \<and> rp_body rep = JsonReply (JObj [(''job_id'', JStr (ge_uuid env))]) \<and>
           pending (gw_queue s') = (pending (gw_queue s))
             (jobsTopic := pending (gw_queue s) jobsTopic @ [marshal_job (submitted_job env req)])
       \<or> rp_status rep = 503 \<and> pending (gw_queue s') = pending (gw_queue s))"
  using assms
  by (auto simp: Handler_SubmitJob_def Let_def submitted_job_def split: sum.splits run.splits option.splits
      dest!: enqueue_ok enqueue_err)

end

section \<open>The two ways to submit a request agree\<close>

lemma precision_agrees: "gateway_precisionToProto = scheduler_precisionToProto"
  by (simp add: gateway_precisionToProto_def scheduler_precisionToProto_def fun_eq_iff)

lemma priority_agrees: "scheduler_priorityToProto (priorityFromString p) = gateway_priorityToProto p"
  by (simp add: scheduler_priorityToProto_def priorityFromString_def gateway_priorityToProto_def priority_defs)

lemma same_request: "dispatch_request (submitted_job env req) = infer_request env req"
  by (simp add: dispatch_request_def submitted_job_def infer_request_def precision_agrees priority_agrees)

lemma wf_infer_request [simp]: "wf_request (infer_request env req)"
  unfolding wf_request_def infer_request_def
  by (simp add: gateway_precisionToProto_def gateway_priorityToProto_def)

lemma submit_enqueues:
  assumes "Handler_SubmitJob ops t env r s = Done (rep, s')" and "rp_status rep = 202" and "checked_request (hq_Body r) = Inr req"
  shows "q_Enqueue ops t (marshal_job (submitted_job env req)) (gw_queue s) = Done (None, gw_queue s')"
  using assms by (auto simp: Handler_SubmitJob_def Let_def split: run.splits option.splits)

end
