(* ===== verification/Config.thy ===== *)
theory Config
  imports Dispatcher
begin

text \<open>
  Configuration: \<open>shared/pkg/config/config.go\<close>, the choice of the queue backend in
  \<open>shared/pkg/queue/factory.go\<close>, and the settings the scheduler reads. The environment is a map
  from names to values. \<open>parse_duration\<close> is \<open>time.ParseDuration\<close>, whose grammar the properties
  do not depend on.
\<close>

type_synonym environment = "string \<rightharpoonup> string"

definition config_String :: "environment \<Rightarrow> string \<Rightarrow> string \<Rightarrow> string" where
  "config_String env key def_val =
     (case env key of Some v \<Rightarrow> if v \<noteq> [] then v else def_val | None \<Rightarrow> def_val)"

definition config_Int :: "environment \<Rightarrow> string \<Rightarrow> go_int \<Rightarrow> go_int" where
  "config_Int env key def_val =
     (case env key of
        None \<Rightarrow> def_val
      | Some v \<Rightarrow> if v = [] then def_val
                  else (case atoi v of None \<Rightarrow> def_val | Some n \<Rightarrow> word_of_int n))"

text \<open>\<open>strconv.ParseBool\<close>\<close>

definition parse_bool :: "string \<Rightarrow> bool option" where
  "parse_bool v =
     (if v \<in> {''1'', ''t'', ''T'', ''true'', ''TRUE'', ''True''} then Some True
      else if v \<in> {''0'', ''f'', ''F'', ''false'', ''FALSE'', ''False''} then Some False
      else None)"

definition config_Bool :: "environment \<Rightarrow> string \<Rightarrow> bool \<Rightarrow> bool" where
  "config_Bool env key def_val =
     (case env key of
        None \<Rightarrow> def_val
      | Some v \<Rightarrow> if v = [] then def_val
                  else (case parse_bool v of None \<Rightarrow> def_val | Some b \<Rightarrow> b))"

definition config_Duration :: "(string \<Rightarrow> int64 option) \<Rightarrow> environment \<Rightarrow> string \<Rightarrow> int64 \<Rightarrow> int64" where
  "config_Duration parse_duration env key def_val =
     (case env key of
        None \<Rightarrow> def_val
      | Some v \<Rightarrow> if v = [] then def_val
                  else (case parse_duration v of None \<Rightarrow> def_val | Some d \<Rightarrow> d))"

datatype queue_backend = UseRedis string | UseKafka string | UseMemory

definition queue_FromEnv :: "environment \<Rightarrow> queue_backend" where
  "queue_FromEnv env =
     (let b = config_String env ''QUEUE_BACKEND'' ''redis'' in
      if b = ''kafka'' then UseKafka (config_String env ''KAFKA_BROKERS'' ''localhost:9092'')
      else if b = ''memory'' then UseMemory
      else UseRedis (config_String env ''REDIS_ADDR'' ''localhost:6379''))"

definition scheduler_dispatcher :: "(string \<Rightarrow> int64 option) \<Rightarrow> environment \<Rightarrow> dispatch_config" where
  "scheduler_dispatcher parse_duration env =
     \<lparr>d_JobsTopic = config_String env ''JOBS_TOPIC'' ''inference.jobs'',
      d_ResultsTopic = config_String env ''RESULTS_TOPIC'' ''inference.results'',
      d_RetryBackoff = config_Duration parse_duration env ''RETRY_BACKOFF'' 200000000,
      d_HasMetrics = True\<rparr>"

section \<open>Properties\<close>

text \<open>A setting that is absent, empty or malformed falls back to its default, and a decimal
  number in range is read as that number, whatever the default.\<close>

lemma config_int_roundtrip:
  "config_Int (env(key \<mapsto> strconv_itoa (sint n))) key def_val = n
    \<and> config_Int (env(key := None)) key def_val = def_val
    \<and> config_Int (env(key \<mapsto> [])) key def_val = def_val
    \<and> (config_Int (env(key \<mapsto> v)) key def_val \<noteq> def_val \<longrightarrow> atoi v \<noteq> None)"
proof -
  have rd: "atoi (strconv_itoa (sint n)) = Some (sint n)"
    using sint64_range [of n] by (intro atoi_strconv_itoa)
  have "atoi [] = None"
    by code_simp
  with rd have "strconv_itoa (sint n) \<noteq> []"
    by auto
  with rd show ?thesis
    by (auto simp: config_Int_def split: option.splits)
qed

end
