(* ===== verification/Fleet.thy ===== *)
theory Fleet
  imports Gateway Config
begin

text \<open>
  The fleet simulator: one vehicle (\<open>services/fleet-simulator-go/internal/vehicle/vehicle.go\<close>),
  the aggregator (\<open>internal/telemetry/aggregator.go\<close>) and the goroutines of
  \<open>cmd/simulator/main.go\<close> that connect them through one buffered channel.

  Random draws and the readings computed from them are inputs: \<open>draw\<close> is what the generator
  yields, and a tick comes with the features it measured. The HTTP client is the parameter
  \<open>client\<close>. Prometheus counters are exact here; as \<open>float64\<close> they are exact below 2^53.
\<close>

section \<open>One vehicle\<close>

record vehicle_config =
  vc_ID :: string
  vc_GatewayURL :: string
  vc_APIKey :: string
  vc_TelemetryPeriod :: int64
  vc_InferEvery :: go_int

record Stats =
  st_TelemetryTicks :: int64
  st_InferOK :: int64
  st_InferErr :: int64

text \<open>\<open>rng.Int63n(n)\<close> panics (\<open>None\<close>) unless n is positive, and yields a number below n.\<close>

definition Int63n :: "nat \<Rightarrow> int64 \<Rightarrow> int64 option" where
  "Int63n draw n = (if sint n \<le> 0 then None else Some (word_of_int (int draw mod sint n)))"

definition jitter :: "nat \<Rightarrow> int64 \<Rightarrow> int64 option" where
  "jitter draw base =
     (let half = word_of_int (quot (sint base) 2) in
      case Int63n draw half of None \<Rightarrow> None | Some delta \<Rightarrow> Some (half + delta))"

text \<open>The seed: the runes of the string, as \<open>int32\<close>.\<close>

fun hash_loop :: "int32 list \<Rightarrow> int64 \<Rightarrow> int64" where
  "hash_loop [] h = h"
| "hash_loop (c # cs) h = hash_loop cs (xor h (scast c) * 1099511628211)"

definition vehicle_hash :: "int32 list \<Rightarrow> int64" where
  "vehicle_hash s = (let h = hash_loop s 1469598103934665603 in if sint h < 0 then - h else h)"

datatype client_result = RequestInvalid string | RoundTripFailed string | GotStatus int

text \<open>The request the clients of the gateway marshal; \<open>json.Marshal\<close> fails on NaN and infinities, and the body is then empty.\<close>

record client_request =
  cq_VehicleID :: string
  cq_ModelName :: string
  cq_Precision :: string
  cq_Priority :: string
  cq_Features :: "flt list"

definition marshal_request :: "client_request \<Rightarrow> body" where
  "marshal_request q =
     (if list_all is_finite (cq_Features q)
      then Doc (JObj [(''vehicle_id'', JStr (cq_VehicleID q)), (''model_name'', JStr (cq_ModelName q)),
                      (''precision'', JStr (cq_Precision q)), (''priority'', JStr (cq_Priority q)),
                      (''features'', floats_json (cq_Features q))])
      else Malformed)"

definition vehicle_body :: "vehicle_config \<Rightarrow> flt list \<Rightarrow> body" where
  "vehicle_body cfg features =
     marshal_request \<lparr>cq_VehicleID = vc_ID cfg, cq_ModelName = ''driving-event-classifier'', cq_Precision = ''fp32'',
                      cq_Priority = ''normal'', cq_Features = features\<rparr>"

definition sendInfer :: "(string \<Rightarrow> string \<Rightarrow> body \<Rightarrow> client_result) \<Rightarrow> vehicle_config \<Rightarrow> flt list \<Rightarrow> string option" where
  "sendInfer client cfg features =
     (case client (vc_GatewayURL cfg @ ''/v1/infer'') (vc_APIKey cfg) (vehicle_body cfg features) of
        RequestInvalid err \<Rightarrow> Some err
      | RoundTripFailed err \<Rightarrow> Some err
      | GotStatus status \<Rightarrow>
          if 300 \<le> status then Some (''gateway returned '' @ strconv_itoa status) else None)"

text \<open>One tick: the new tick count, the stats to report and whether a request was sent.\<close>

definition go_rem :: "go_int \<Rightarrow> go_int \<Rightarrow> go_int" where
  "go_rem a b = word_of_int (sint a - quot (sint a) (sint b) * sint b)"

definition vehicle_tick ::
  "(string \<Rightarrow> string \<Rightarrow> body \<Rightarrow> client_result) \<Rightarrow> vehicle_config \<Rightarrow> flt list \<Rightarrow> go_int \<Rightarrow> go_int \<times> Stats \<times> bool"
where
  "vehicle_tick client cfg features tick0 =
     (let tick = tick0 + 1;
          delta = \<lparr>st_TelemetryTicks = 1, st_InferOK = 0, st_InferErr = 0\<rparr>
      in if 0 < sint (vc_InferEvery cfg) \<and> go_rem tick (vc_InferEvery cfg) = 0
         then (tick,
               (case sendInfer client cfg features of
                  Some err \<Rightarrow> delta\<lparr>st_InferErr := 1\<rparr> | None \<Rightarrow> delta\<lparr>st_InferOK := 1\<rparr>),
               True)
         else (tick, delta, False))"

section \<open>The aggregator\<close>

record Aggregator =
  ag_TelemetryTotal :: int
  ag_InferOKTotal :: int
  ag_InferErrTotal :: int

definition Aggregator_Observe :: "Stats \<Rightarrow> Aggregator \<Rightarrow> Aggregator" where
  "Aggregator_Observe delta a =
     (let a1 = (if 0 < sint (st_TelemetryTicks delta)
                then a\<lparr>ag_TelemetryTotal := ag_TelemetryTotal a + sint (st_TelemetryTicks delta)\<rparr> else a);
          a2 = (if 0 < sint (st_InferOK delta)
                then a1\<lparr>ag_InferOKTotal := ag_InferOKTotal a1 + sint (st_InferOK delta)\<rparr> else a1)
      in if 0 < sint (st_InferErr delta)
         then a2\<lparr>ag_InferErrTotal := ag_InferErrTotal a2 + sint (st_InferErr delta)\<rparr> else a2)"

section \<open>The fleet\<close>

text \<open>
  \<open>TickOf i fs\<close>: the ticker of vehicle i fires; its report is dropped when the channel is full.
  \<open>CollectStats\<close>: the aggregator's goroutine receives, if something is there.
\<close>

datatype fleet_event = TickOf nat "flt list" | CollectStats

record fleet =
  fl_ticks :: "go_int list"
  fl_statsCh :: "Stats list"
  fl_agg :: Aggregator
  fl_requests :: nat
  fl_ticked :: nat

definition new_fleet :: "nat \<Rightarrow> fleet" where
  "new_fleet n =
     \<lparr>fl_ticks = replicate n 0, fl_statsCh = [],
      fl_agg = \<lparr>ag_TelemetryTotal = 0, ag_InferOKTotal = 0, ag_InferErrTotal = 0\<rparr>, fl_requests = 0, fl_ticked = 0\<rparr>"

definition fleet_step ::
  "(string \<Rightarrow> string \<Rightarrow> body \<Rightarrow> client_result) \<Rightarrow> (nat \<Rightarrow> vehicle_config) \<Rightarrow> fleet_event \<Rightarrow> fleet \<Rightarrow> fleet"
where
  "fleet_step client cfg e f =
     (case e of
        TickOf i features \<Rightarrow>
          if i < length (fl_ticks f)
          then (let (tick, delta, sent) = vehicle_tick client (cfg i) features (fl_ticks f ! i) in
                f\<lparr>fl_ticks := (fl_ticks f)[i := tick],
                  fl_statsCh := (if length (fl_statsCh f) < length (fl_ticks f) * 2
                                 then fl_statsCh f @ [delta] else fl_statsCh f),
                  fl_requests := fl_requests f + (if sent then 1 else 0),
                  fl_ticked := fl_ticked f + 1\<rparr>)
          else f
      | CollectStats \<Rightarrow>
          (case fl_statsCh f of
             [] \<Rightarrow> f
           | delta # rest \<Rightarrow> f\<lparr>fl_statsCh := rest, fl_agg := Aggregator_Observe delta (fl_agg f)\<rparr>))"

definition fleet_run ::
  "(string \<Rightarrow> string \<Rightarrow> body \<Rightarrow> client_result) \<Rightarrow> (nat \<Rightarrow> vehicle_config) \<Rightarrow> fleet_event list \<Rightarrow> fleet \<Rightarrow> fleet"
where
  "fleet_run client cfg es f = fold (fleet_step client cfg) es f"

section \<open>The goroutine of a vehicle, and the fleet main starts\<close>

text \<open>
  What the \<open>select\<close> of \<open>Run\<close> finds: the context's end, or a tick with the features measured at it and
  whether the stats channel takes the report. The result: the tick count, the reports taken and how many requests
  were sent.
\<close>

datatype vehicle_choice = VehicleDone | VehicleTicks "flt list" bool

fun vehicle_loop ::
  "(string \<Rightarrow> string \<Rightarrow> body \<Rightarrow> client_result) \<Rightarrow> vehicle_config \<Rightarrow> vehicle_choice list
     \<Rightarrow> go_int \<times> Stats list \<times> nat \<Rightarrow> consume_status \<times> go_int \<times> Stats list \<times> nat"
where
  "vehicle_loop client cfg [] st = (Running, st)"
| "vehicle_loop client cfg (VehicleDone # cs) st = (Returned, st)"
| "vehicle_loop client cfg (VehicleTicks features room # cs) (tick, reports, requests) =
     (let (tick', delta, sent) = vehicle_tick client cfg features tick in
      vehicle_loop client cfg cs
        (tick', if room then reports @ [delta] else reports, if sent then requests + 1 else requests))"

text \<open>\<open>Run\<close>: \<open>draw\<close> is the generator's next number, and a period too short panics.\<close>

definition vehicle_Run ::
  "(string \<Rightarrow> string \<Rightarrow> body \<Rightarrow> client_result) \<Rightarrow> nat \<Rightarrow> vehicle_config \<Rightarrow> vehicle_choice list
     \<Rightarrow> (consume_status \<times> go_int \<times> Stats list \<times> nat) run"
where
  "vehicle_Run client draw cfg cs =
     (case jitter draw (vc_TelemetryPeriod cfg) of
        None \<Rightarrow> Panicked
      | Some period \<Rightarrow> Done (vehicle_loop client cfg cs (0, [], 0)))"

text \<open>The vehicles \<open>main\<close> starts; making the channel panics when its size is negative.\<close>

definition simulator_vehicles :: "(string \<Rightarrow> int64 option) \<Rightarrow> environment \<Rightarrow> vehicle_config list option" where
  "simulator_vehicles parse_duration env =
     (let fleetSize = config_Int env ''FLEET_SIZE'' 100;
          gatewayURL = config_String env ''GATEWAY_URL'' ''http://localhost:8080'';
          apiKey = config_String env ''GATEWAY_API_KEY'' [];
          telemetryPeriod = config_Duration parse_duration env ''TELEMETRY_PERIOD'' 1000000000;
          inferEvery = config_Int env ''INFER_EVERY_N_TICKS'' 5
      in if sint (fleetSize * 2) < 0 then None
         else Some (map (\<lambda>i. \<lparr>vc_ID = vehicleID (word_of_nat i), vc_GatewayURL = gatewayURL, vc_APIKey = apiKey,
                               vc_TelemetryPeriod = telemetryPeriod, vc_InferEvery = inferEvery\<rparr>)
                 [0..<nat (sint fleetSize)]))"

section \<open>What is counted\<close>

definition report_ok :: "Stats \<Rightarrow> bool" where
  "report_ok s \<longleftrightarrow> st_TelemetryTicks s = 1 \<and> (st_InferOK s, st_InferErr s) \<in> {(0, 0), (1, 0), (0, 1)}"

definition reported_requests :: "Stats list \<Rightarrow> int" where
  "reported_requests ss = (\<Sum>s\<leftarrow>ss. sint (st_InferOK s) + sint (st_InferErr s))"

text \<open>What was collected and what is still in the channel never exceeds what happened.\<close>

definition never_overcounts :: "fleet \<Rightarrow> bool" where
  "never_overcounts f \<longleftrightarrow>
     list_all report_ok (fl_statsCh f) \<and>
     ag_TelemetryTotal (fl_agg f) + int (length (fl_statsCh f)) \<le> int (fl_ticked f) \<and>
     ag_InferOKTotal (fl_agg f) + ag_InferErrTotal (fl_agg f) + reported_requests (fl_statsCh f) \<le> int (fl_requests f)"

lemma tick_report:
  assumes "vehicle_tick client c features t = (t', delta, sent)"
  shows "t' = t + 1" and "report_ok delta"
    and "sint (st_InferOK delta) + sint (st_InferErr delta) = (if sent then 1 else 0)"
  using assms by (auto simp: vehicle_tick_def Let_def report_ok_def split: if_splits option.splits)

lemma Observe_report:
  "report_ok delta \<Longrightarrow> ag_TelemetryTotal (Aggregator_Observe delta a) = ag_TelemetryTotal a + 1"
  "report_ok delta \<Longrightarrow> ag_InferOKTotal (Aggregator_Observe delta a) + ag_InferErrTotal (Aggregator_Observe delta a)
     = ag_InferOKTotal a + ag_InferErrTotal a + sint (st_InferOK delta) + sint (st_InferErr delta)"
  by (auto simp: report_ok_def Aggregator_Observe_def Let_def)

lemma never_overcounts_step: "never_overcounts f \<Longrightarrow> never_overcounts (fleet_step client cfg e f)"
proof (cases e)
  case (TickOf i features)
  assume inv: "never_overcounts f"
  obtain t' delta sent where tick: "vehicle_tick client (cfg i) features (fl_ticks f ! i) = (t', delta, sent)"
    by (cases "vehicle_tick client (cfg i) features (fl_ticks f ! i)") auto
  then show ?thesis
    using inv tick_report [OF tick]
    by (auto simp: never_overcounts_def fleet_step_def TickOf reported_requests_def)
next
  case CollectStats
  assume "never_overcounts f"
  then show ?thesis
    using Observe_report [of "hd (fl_statsCh f)" "fl_agg f"]
    by (cases "fl_statsCh f") (auto simp: never_overcounts_def fleet_step_def CollectStats reported_requests_def)
qed

lemma never_overcounts_run: "never_overcounts f \<Longrightarrow> never_overcounts (fleet_run client cfg es f)"
  unfolding fleet_run_def by (induction es arbitrary: f) (auto simp: never_overcounts_step)


section \<open>Arithmetic of ticks and jitter\<close>

lemma quot_2: "0 \<le> b \<Longrightarrow> quot b 2 = b div 2"
  by simp

lemma jitter_range:
  assumes "2 \<le> sint base"
  shows "\<exists>d. jitter draw base = Some d \<and> sint base div 2 \<le> sint d \<and> sint d < 2 * (sint base div 2)"
proof -
  let ?h = "sint base div 2"
  have b: "sint base < 2 ^ 63"
    by (rule sint64_range)
  have half: "sint (word_of_int (quot (sint base) 2) :: int64) = ?h"
    using assms b by (simp add: sint64_of_int)
  let ?r = "int draw mod ?h"
  have r: "0 \<le> ?r" "?r < ?h"
    using assms by auto
  have "sint (word_of_int (?h + ?r) :: int64) = ?h + ?r"
    using r b by (intro sint64_of_int) linarith+
  then have "sint (word_of_int ?h + word_of_int ?r :: int64) = ?h + ?r"
    by simp
  then show ?thesis
    using assms r half by (simp add: jitter_def Let_def Int63n_def)
qed

lemma jitter_panics:
  assumes "sint base < 2" and "- (2 ^ 63) < sint base"
  shows "jitter draw base = None"
proof -
  have "quot (sint base) 2 \<le> 0"
    using assms(1) by (cases "sint base = 1") (auto simp: quot_def sgn_if)
  moreover have "- (2 ^ 63) \<le> quot (sint base) 2"
    using quot_abs_le [of 2 "sint base"] assms by auto
  ultimately have "sint (word_of_int (quot (sint base) 2) :: int64) = quot (sint base) 2"
    by (intro sint64_of_int) auto
  then show ?thesis
    using \<open>quot (sint base) 2 \<le> 0\<close> by (simp add: jitter_def Let_def Int63n_def)
qed

lemma go_rem_pos:
  assumes "0 \<le> sint a" and "0 < sint b"
  shows "go_rem a b = 0 \<longleftrightarrow> sint a mod sint b = 0"
proof -
  have "sint a - quot (sint a) (sint b) * sint b = sint a mod sint b"
    using assms by (simp add: minus_div_mult_eq_mod)
  moreover have "sint (word_of_int (sint a mod sint b) :: go_int) = sint a mod sint b"
    using assms sint64_range [of b] pos_mod_bound [of "sint b" "sint a"] pos_mod_sign [of "sint b" "sint a"]
    by (intro sint64_of_int) linarith+
  ultimately show ?thesis
    unfolding go_rem_def using sint64_0_iff [of "word_of_int (sint a mod sint b)"] by auto
qed

text \<open>The requests one vehicle sends in its first ticks, the features of each given.\<close>

fun vehicle_requests ::
  "(string \<Rightarrow> string \<Rightarrow> body \<Rightarrow> client_result) \<Rightarrow> vehicle_config \<Rightarrow> flt list list \<Rightarrow> go_int \<Rightarrow> nat"
where
  "vehicle_requests client cfg [] tick = 0"
| "vehicle_requests client cfg (fs # rest) tick =
     (let (tick', _, sent) = vehicle_tick client cfg fs tick in
      (if sent then 1 else 0) + vehicle_requests client cfg rest tick')"

lemma div_Suc_if: "0 < (n :: nat) \<Longrightarrow> Suc t div n = t div n + (if Suc t mod n = 0 then 1 else 0)"
  by (simp add: div_Suc)

lemma vehicle_requests_div:
  assumes "0 < sint (vc_InferEvery cfg)" and "int k + int (length fss) < 2 ^ 63"
  shows "vehicle_requests client cfg fss (word_of_nat k) + k div nat (sint (vc_InferEvery cfg))
    = (k + length fss) div nat (sint (vc_InferEvery cfg))"
  using assms(2)
proof (induction fss arbitrary: k)
  case (Cons fs fss)
  let ?n = "nat (sint (vc_InferEvery cfg))"
  have tick: "word_of_nat k + 1 = (word_of_nat (Suc k) :: go_int)"
    by simp
  have val: "sint (word_of_nat (Suc k) :: go_int) = int (Suc k)"
    using Cons.prems sint64_of_int [of "int (Suc k)"] by simp
  have "go_rem (word_of_nat (Suc k)) (vc_InferEvery cfg) = 0 \<longleftrightarrow> int (Suc k) mod sint (vc_InferEvery cfg) = 0"
    using go_rem_pos [of "word_of_nat (Suc k)" "vc_InferEvery cfg"] assms(1) val by simp
  also have "\<dots> \<longleftrightarrow> Suc k mod ?n = 0"
    using assms(1) by (metis int_nat_eq less_le_not_le of_nat_0_eq_iff zmod_int)
  finally have rem: "go_rem (word_of_nat (Suc k)) (vc_InferEvery cfg) = 0 \<longleftrightarrow> Suc k mod ?n = 0" .
  obtain d where vt: "vehicle_tick client cfg fs (word_of_nat k) = (word_of_nat (Suc k), d, Suc k mod ?n = 0)"
    unfolding vehicle_tick_def Let_def tick using rem assms(1) by (cases "Suc k mod ?n = 0") auto
  have "vehicle_requests client cfg fss (word_of_nat (Suc k)) + Suc k div ?n = (Suc k + length fss) div ?n"
    using Cons.prems by (intro Cons.IH) simp
  then show ?case
    using div_Suc_if [of ?n k] assms(1) by (simp only: vehicle_requests.simps vt Let_def prod.case) (simp split: if_splits)
qed simp

definition tick_features :: "vehicle_choice \<Rightarrow> flt list" where
  "tick_features c = (case c of VehicleTicks fs room \<Rightarrow> fs | VehicleDone \<Rightarrow> [])"

definition tick_has_room :: "vehicle_choice \<Rightarrow> bool" where
  "tick_has_room c = (case c of VehicleTicks fs room \<Rightarrow> room | VehicleDone \<Rightarrow> False)"

lemma tick_simps [simp]: "tick_features (VehicleTicks fs room) = fs" "tick_has_room (VehicleTicks fs room) = room"
  by (simp_all add: tick_features_def tick_has_room_def)

lemma vehicle_loop_counts:
  assumes "VehicleDone \<notin> set cs"
  shows "\<exists>new. (\<forall>rest. vehicle_loop client cfg (cs @ rest) (tick, reports, requests) =
      vehicle_loop client cfg rest (tick + word_of_nat (length cs), reports @ new,
        requests + vehicle_requests client cfg (map tick_features cs) tick))
    \<and> list_all report_ok new \<and> length new = length (filter tick_has_room cs)"
  using assms
proof (induction cs arbitrary: tick reports requests)
  case Nil
  show ?case
    by (intro exI [of _ "[]"]) simp
next
  case (Cons c cs)
  obtain fs room where c: "c = VehicleTicks fs room"
    using Cons.prems by (cases c) auto
  obtain d sent where vt: "vehicle_tick client cfg fs tick = (tick + 1, d, sent)"
    using tick_report(1) by (metis prod_cases3)
  obtain new where "\<forall>rest. vehicle_loop client cfg (cs @ rest)
        (tick + 1, if room then reports @ [d] else reports, if sent then requests + 1 else requests) =
      vehicle_loop client cfg rest (tick + 1 + word_of_nat (length cs), (if room then reports @ [d] else reports) @ new,
        (if sent then requests + 1 else requests) + vehicle_requests client cfg (map tick_features cs) (tick + 1))"
    and "list_all report_ok new" "length new = length (filter tick_has_room cs)"
    using Cons.IH [of "tick + 1" "if room then reports @ [d] else reports" "if sent then requests + 1 else requests"]
      Cons.prems by auto
  moreover have "report_ok d"
    using tick_report(2) [OF vt] .
  ultimately show ?case
    unfolding c
    by (intro exI [of _ "(if room then [d] else []) @ new"])
      (simp add: vt ac_simps)
qed

lemma vehicles_distinct:
  assumes "simulator_vehicles parse_duration env = Some vs"
  shows "distinct (map vc_ID vs) \<and> length vs = nat (sint (config_Int env ''FLEET_SIZE'' 100))"
proof -
  let ?n = "nat (sint (config_Int env ''FLEET_SIZE'' 100))"
  have small: "int i < 2 ^ 63" if "i < ?n" for i
    using that sint64_range(2) [of "config_Int env ''FLEET_SIZE'' 100"] by linarith
  have val: "atoi (simulator_itoa (word_of_nat i)) = Some (int i)" if "i < ?n" for i
  proof -
    have "sint (word_of_nat i :: go_int) = int i"
      using sint64_of_int [of "int i"] small [OF that] by simp
    moreover from this have "(word_of_nat i :: go_int) = 0 \<longleftrightarrow> i = 0"
      using sint64_0_iff [of "word_of_nat i"] by simp
    ultimately show ?thesis
      using small [OF that] atoi_zero by (auto simp: simulator_itoa_def prepend_digits_eq atoi_dec_digits)
  qed
  then have "inj_on (\<lambda>i. vehicleID (word_of_nat i)) {0..<?n}"
    by (intro inj_onI) (metis append_same_eq atLeastLessThan_iff option.inject of_nat_eq_iff same_append_eq vehicleID_def)
  then have "distinct (map (\<lambda>i. vehicleID (word_of_nat i)) [0..<?n])"
    by (simp add: distinct_map)
  moreover have ids: "map vc_ID vs = map (\<lambda>i. vehicleID (word_of_nat i)) [0..<?n]"
    using assms by (auto simp: simulator_vehicles_def Let_def split: if_splits)
  moreover have "length vs = ?n"
  proof -
    have "length vs = length (map vc_ID vs)"
      by simp
    also have "\<dots> = ?n"
      unfolding ids by simp
    finally show ?thesis .
  qed
  ultimately show ?thesis
    by simp
qed

text \<open>The bodies the clients of this repository send pass the gateway's checks.\<close>

lemma gateway_accepts_body:
  assumes "model \<noteq> []" and "features \<noteq> []" and "list_all is_finite features"
  shows "checked_request (Doc (JObj [(''vehicle_id'', JStr vid), (''model_name'', JStr model),
        (''precision'', JStr ''fp32''), (''priority'', JStr ''normal''), (''features'', floats_json features)])) = Inr
      \<lparr>iq_VehicleID = vid, iq_ModelName = model, iq_ModelVersion = [],
       iq_Precision = ''fp32'', iq_Features = features, iq_Priority = ''normal''\<rparr>"
  using assms by (simp add: checked_request_def decode_infer_def decode_struct_def infer_field_def lower_def zero_infer_def)

section \<open>Properties\<close>

text \<open>The telemetry period of a vehicle is drawn from the upper half of the configured one: at
  least half of it and less than the whole. A period below two nanoseconds stops the vehicle with
  a panic.\<close>

lemma jitter_bounds:
  assumes "- (2 ^ 63) < sint base"
  shows "case jitter draw base of
      None \<Rightarrow> sint base < 2
    | Some d \<Rightarrow> 2 \<le> sint base \<and> sint base div 2 \<le> sint d \<and> sint d < 2 * (sint base div 2)"
  using jitter_range [of base draw] jitter_panics [of base draw] assms
  by (cases "2 \<le> sint base") auto

text \<open>A vehicle with \<open>InferEvery\<close> = n > 0 sends one inference request every n ticks: the number of
  requests in its first ticks is their number divided by n, rounded down.\<close>

lemma infer_every_n_ticks:
  assumes "0 < sint (vc_InferEvery cfg)" and "int (length fss) < 2 ^ 63"
  shows "vehicle_requests client cfg fss 0 = length fss div nat (sint (vc_InferEvery cfg))"
  using vehicle_requests_div [OF assms(1), of 0 fss client] assms(2) by simp

text \<open>Whatever the interleaving of ticks and collections, and however many reports the full
  channel drops, the fleet's counters never exceed what happened: ticks counted or waiting are at
  most those that fired, and requests counted or waiting at most those sent.\<close>

lemma fleet_never_overcounts:
  "let f = fleet_run client cfg es (new_fleet n) in
     ag_TelemetryTotal (fl_agg f) + int (length (fl_statsCh f)) \<le> int (fl_ticked f)
     \<and> ag_InferOKTotal (fl_agg f) + ag_InferErrTotal (fl_agg f) + reported_requests (fl_statsCh f) \<le> int (fl_requests f)"
proof -
  have "never_overcounts (new_fleet n)"
    by (simp add: never_overcounts_def new_fleet_def reported_requests_def)
  from never_overcounts_run [OF this] show ?thesis
    by (simp add: never_overcounts_def Let_def)
qed

text \<open>The gateway accepts what a vehicle sends: the body passes the handler's checks and decodes
  to the vehicle's id, the driving-event model, the features measured, precision fp32 and normal
  priority.\<close>

lemma gateway_accepts_vehicle:
  assumes "features \<noteq> []" and "list_all is_finite features"
  shows "checked_request (vehicle_body cfg features) = Inr
      \<lparr>iq_VehicleID = vc_ID cfg, iq_ModelName = ''driving-event-classifier'', iq_ModelVersion = [],
       iq_Precision = ''fp32'', iq_Features = features, iq_Priority = ''normal''\<rparr>
    \<and> req_PreferredPrecision (infer_request env \<lparr>iq_VehicleID = vc_ID cfg,
        iq_ModelName = ''driving-event-classifier'', iq_ModelVersion = [],
        iq_Precision = ''fp32'', iq_Features = features, iq_Priority = ''normal''\<rparr>) = PRECISION_FP32"
  using gateway_accepts_body [OF _ assms(1,2)] assms(2)
  by (simp add: vehicle_body_def marshal_request_def infer_request_def gateway_precisionToProto_def precision_defs)

text \<open>The life of a vehicle: with a period of at least two nanoseconds it survives its start, draws its
  telemetry period from the upper half of the configured one, and after k ticks has sent k divided by
  \<open>InferEvery\<close> requests and reported each tick the channel had room for, once; when the context ends it returns
  at once. With a shorter period it panics.\<close>

lemma vehicle_life:
  assumes "0 < sint (vc_InferEvery cfg)" and "VehicleDone \<notin> set cs" and "int (length cs) < 2 ^ 63"
    and "- (2 ^ 63) < sint (vc_TelemetryPeriod cfg)"
  shows "if sint (vc_TelemetryPeriod cfg) < 2 then vehicle_Run client draw cfg (cs @ rest) = Panicked
    else (\<exists>period reports. jitter draw (vc_TelemetryPeriod cfg) = Some period
      \<and> sint (vc_TelemetryPeriod cfg) div 2 \<le> sint period \<and> sint period < 2 * (sint (vc_TelemetryPeriod cfg) div 2)
      \<and> (\<forall>more. vehicle_Run client draw cfg (cs @ VehicleDone # more) = Done (Returned,
          word_of_nat (length cs), reports, length cs div nat (sint (vc_InferEvery cfg))))
      \<and> vehicle_Run client draw cfg cs = Done (Running,
          word_of_nat (length cs), reports, length cs div nat (sint (vc_InferEvery cfg)))
      \<and> list_all report_ok reports \<and> length reports = length (filter tick_has_room cs))"
proof (cases "sint (vc_TelemetryPeriod cfg) < 2")
  case True
  then show ?thesis
    using jitter_panics [OF True assms(4), of draw] by (simp add: vehicle_Run_def)
next
  case False
  then obtain period where period: "jitter draw (vc_TelemetryPeriod cfg) = Some period"
    "sint (vc_TelemetryPeriod cfg) div 2 \<le> sint period" "sint period < 2 * (sint (vc_TelemetryPeriod cfg) div 2)"
    using jitter_range [of "vc_TelemetryPeriod cfg" draw] by auto
  have count: "vehicle_requests client cfg (map tick_features cs) 0 = length cs div nat (sint (vc_InferEvery cfg))"
    using vehicle_requests_div [OF assms(1), of 0 "map tick_features cs" client] assms(3) by simp
  obtain reports where "\<forall>rest. vehicle_loop client cfg (cs @ rest) (0, [], 0) =
      vehicle_loop client cfg rest (word_of_nat (length cs), reports, length cs div nat (sint (vc_InferEvery cfg)))"
    and "list_all report_ok reports" "length reports = length (filter tick_has_room cs)"
    using vehicle_loop_counts [OF assms(2), of client cfg 0 "[]" 0] by (auto simp: count)
  moreover from this(1) [rule_format, of "[]"]
  have "vehicle_loop client cfg cs (0, [], 0) = (Running, word_of_nat (length cs), reports, length cs div nat (sint (vc_InferEvery cfg)))"
    by simp
  ultimately show ?thesis
    using False period
    by (simp only: if_False, intro exI [of _ period] exI [of _ reports]) (simp add: vehicle_Run_def)
qed

end
