(* ===== verification/GatewayEdge.thy ===== *)
theory GatewayEdge
  imports Gateway Selector
begin

text \<open>
  The gateway as its clients see it: the properties of the middleware chain and of the REST
  handlers, with a concrete gateway for their instances.
\<close>

section \<open>A concrete gateway\<close>

text \<open>A token bucket that is never refilled, for the instances.\<close>

definition demo_new :: "flt \<Rightarrow> go_int \<Rightarrow> nat" where
  "demo_new r b = unat b"

definition demo_allow :: "instant \<Rightarrow> nat \<Rightarrow> bool \<times> nat" where
  "demo_allow t n = (0 < n, n - 1)"

definition demo_http :: "string \<Rightarrow> http_request" where
  "demo_http key =
     \<lparr>hq_Method = ''POST'', hq_APIKey = key, hq_RemoteAddr = ''10.0.0.7:4242'',
      hq_Body = Doc (JObj [(''model_name'', JStr ''m''), (''features'', JArr [JInt 1]), (''priority'', JStr ''critical'')])\<rparr>"

definition demo_infer :: inferRequest where
  "demo_infer = \<lparr>iq_VehicleID = [], iq_ModelName = ''m'', iq_ModelVersion = [], iq_Precision = [],
     iq_Features = [Fin False 1 0], iq_Priority = ''critical''\<rparr>"

lemma demo_checked: "checked_request (hq_Body (demo_http key)) = Inr demo_infer"
  by (simp add: checked_request_def decode_infer_def decode_struct_def demo_http_def infer_field_def lower_def
      zero_infer_def demo_infer_def f64_of_int_def f64_int_exact bit_len.simps)

lemma demo_http_key [simp]: "hq_APIKey (demo_http key) = key"
  by (simp add: demo_http_def)

section \<open>JSON error bodies\<close>

text \<open>
  A JSON string literal after its opening quote: its text and what follows its closing quote. The
  replies of \<open>http.Error\<close> are meant to be the document \<open>{"error":"..."}\<close> and a newline.
\<close>

fun scan_string :: "string \<Rightarrow> (string \<times> string) option" where
  "scan_string [] = None"
| "scan_string (c # cs) =
     (if c = CHR 0x22 then Some ([], cs)
      else if c = CHR 0x5C then
        (case cs of [] \<Rightarrow> None | d # ds \<Rightarrow> map_option (apfst (\<lambda>m. c # d # m)) (scan_string ds))
      else if (of_char c :: nat) < 0x20 then None
      else map_option (apfst (\<lambda>m. c # m)) (scan_string cs))"

definition is_error_document :: "string \<Rightarrow> bool" where
  "is_error_document t \<longleftrightarrow>
     take 10 t = ''{\"error\":\"'' \<and>
     (case scan_string (drop 10 t) of None \<Rightarrow> False | Some (_, rest) \<Rightarrow> rest = [CHR ''}'', CHR 0x0A])"

definition plain_text :: "string \<Rightarrow> bool" where
  "plain_text s \<longleftrightarrow> list_all (\<lambda>c. c \<noteq> CHR 0x22 \<and> c \<noteq> CHR 0x5C \<and> 0x20 \<le> (of_char c :: nat)) s"

lemma scan_plain: "plain_text s \<Longrightarrow> scan_string (s @ CHR 0x22 # rest) = Some (s, rest)"
  by (induction s) (auto simp: plain_text_def)

text \<open>The text of \<open>Select\<close>'s error: \<open>%q\<close> quotes, escaping as Go does on ASCII text.\<close>

definition hex_digit :: "nat \<Rightarrow> char" where
  "hex_digit n = ''0123456789abcdef'' ! n"

definition quote_char :: "char \<Rightarrow> string" where
  "quote_char c =
     (let n = (of_char c :: nat) in
      if c = CHR 0x22 \<or> c = CHR 0x5C then [CHR 0x5C, c]
      else if n = 7 then [CHR 0x5C, CHR ''a''] else if n = 8 then [CHR 0x5C, CHR ''b'']
      else if n = 9 then [CHR 0x5C, CHR ''t''] else if n = 10 then [CHR 0x5C, CHR ''n'']
      else if n = 11 then [CHR 0x5C, CHR ''v''] else if n = 12 then [CHR 0x5C, CHR ''f'']
      else if n = 13 then [CHR 0x5C, CHR ''r'']
      else if n < 32 \<or> n = 127 then [CHR 0x5C, CHR ''x'', hex_digit (n div 16), hex_digit (n mod 16)]
      else [c])"

definition go_quote :: "string \<Rightarrow> string" where
  "go_quote s = CHR 0x22 # concat (map quote_char s) @ [CHR 0x22]"

fun select_error_text :: "select_error \<Rightarrow> string" where
  "select_error_text (NoEligibleWorker m p n) =
     ''no eligible worker for model '' @ go_quote m @ '' precision '' @ go_quote p @
     '' (of '' @ strconv_itoa (int n) @ '' live workers)''"

section \<open>New keys meet new buckets\<close>

lemma limits_kept [simp]:
  "rps (snd (Limiter_allow new allow t k l)) = rps l" "burst (snd (Limiter_allow new allow t k l)) = burst l"
  by (auto simp: Limiter_allow_def limiterFor_def Let_def split: option.split prod.split)

lemma evade:
  assumes "\<forall>t. fst (allow t (new (rps l) (burst l)))" and "distinct (map (\<lambda>x. hq_APIKey (snd x)) rs)"
    and "\<forall>x \<in> set rs. hq_APIKey (snd x) \<noteq> []" and "\<forall>x \<in> set rs. bucket new l (hq_APIKey (snd x)) = new (rps l) (burst l)"
  shows "verdicts new allow l rs = replicate (length rs) True"
  using assms
proof (induction rs arbitrary: l)
  case (Cons tr rs)
  obtain t r where tr: "tr = (t, r)"
    by fastforce
  let ?l = "snd (Limiter_allow new allow t (clientKey r) l)"
  have key: "clientKey r = hq_APIKey r"
    using Cons.prems(3) by (simp add: tr clientKey_def)
  have "verdicts new allow ?l rs = replicate (length rs) True"
    using Cons.prems by (intro Cons.IH) (auto simp: tr key Limiter_allow_eq(2) image_iff)
  moreover have "fst (Limiter_allow new allow t (clientKey r) l)"
    using Cons.prems(1,4) by (simp add: Limiter_allow_eq(1) key tr)
  ultimately show ?case
    by (simp add: tr split_beta Let_def)
qed simp

section \<open>Properties\<close>

text \<open>C26: the gateway's chain, for any handler: a request without an accepted key is answered 401
  and reaches neither the rate limiter nor the handler; one over its client's budget is answered 429
  and does not reach the handler; any other one gets exactly the handler's reply. Each reply is
  counted once under its status, and the in-flight gauge is back where it was.\<close>

theorem chain_behaviour:
  "gateway_chain keys new allow now route fn r (m, l, s) =
     (if keys \<noteq> [] \<and> \<not> (hq_APIKey r \<noteq> [] \<and> KeySet_has keys (hq_APIKey r))
      then Done (http_Error ''{\"error\":\"invalid or missing X-API-Key\"}'' 401, (counted route r 401 m, l, s))
      else case Limiter_allow new allow now (clientKey r) l of
        (False, l') \<Rightarrow> Done (http_Error ''{\"error\":\"rate limit exceeded\"}'' 429, (counted route r 429 m, l', s))
      | (True, l') \<Rightarrow>
          (case fn r s of
             Done (rep, s') \<Rightarrow> Done (rep, (counted route r (rp_status rep) m, l', s'))
           | Blocked \<Rightarrow> Blocked
           | Panicked \<Rightarrow> Panicked))"
proof (cases "authorised keys r")
  case False
  then show ?thesis
    using chain_unauthorised [OF False] by (auto simp: authorised_def)
next
  case True
  obtain ok l' where lim: "Limiter_allow new allow now (clientKey r) l = (ok, l')"
    by fastforce
  show ?thesis
    using True lim chain_limited [OF True, of new allow now l l'] chain_admitted [OF True, of new allow now l l']
    by (cases ok) (auto simp: authorised_def)
qed

text \<open>The keys accepted are the non-empty entries of the comma-separated list, stripped of
  spaces. A list without such an entry, like the empty one or a lone comma, switches the check
  off.\<close>

lemma configured_keys:
  "authorised (NewKeySet (splitCSV cfg)) r \<longleftrightarrow>
     filter (\<lambda>k. k \<noteq> []) (splitCSV cfg) = [] \<or> hq_APIKey r \<in> set (filter (\<lambda>k. k \<noteq> []) (splitCSV cfg))"
proof -
  have "NewKeySet (splitCSV cfg) = [] \<longleftrightarrow> filter (\<lambda>k. k \<noteq> []) (splitCSV cfg) = []"
    using NewKeySet_empty_iff [of "splitCSV cfg"] by (auto simp: filter_empty_conv)
  then show ?thesis
    by (auto simp: authorised_def)
qed

text \<open>Splitting the list at its commas loses nothing and is the only way to do so: the parts
  hold no comma, joined with commas they are the input, and no other list of parts is split so.\<close>

lemma split_at_commas:
  "concat (map (\<lambda>p. p @ '','') (split_at (CHR '','') s)) = s @ '',''
    \<and> list_all (\<lambda>p. CHR '','' \<notin> set p) (split_at (CHR '','') s)
    \<and> splitCSV s = (if s = [] then [] else map trim_space (split_at (CHR '','') s))"
  using split_at_parts [where sep = "CHR '',''" and s = s] by (simp add: splitCSV_def list_all_iff)

text \<open>C27: clients do not share budgets: in any sequence of requests, whatever the bucket
  implementation, the verdicts a client gets are those its own bucket gives on its own requests
  alone.\<close>

theorem clients_are_isolated:
  "map snd (filter (\<lambda>((t, r), ok). clientKey r = k) (zip rs (verdicts new allow l rs)))
     = bucket_verdicts allow (bucket new l k) (map fst (filter (\<lambda>(t, r). clientKey r = k) rs))"
  by (rule verdicts_by_client)

text \<open>C38: the budget follows the header, not the caller: a limiter that has seen no client yet never limits
  a caller that sends a new key each time (as it may when no keys are configured), as long as a new bucket admits
  its first request, as \<open>rate.Limiter\<close> documents of a burst of at least one.\<close>

theorem fresh_keys_evade_limit:
  assumes "\<forall>t. fst (allow t (new (rps l) (burst l)))" and "limiters l = []"
    and "distinct (map (\<lambda>x. hq_APIKey (snd x)) rs)" and "\<forall>x \<in> set rs. hq_APIKey (snd x) \<noteq> []"
  shows "verdicts new allow l rs = replicate (length rs) True"
proof -
  have "\<forall>x \<in> set rs. bucket new l (hq_APIKey (snd x)) = new (rps l) (burst l)"
    using assms(2) by (simp add: bucket_def)
  then show ?thesis
    using assms(1,3,4) evade by metis
qed

theorem fresh_keys_evade_limit_witness:
  "verdicts demo_new demo_allow (NewLimiter (Fin False 1 0) 1) [(0, demo_http ''a''), (0, demo_http ''b'')] = [True, True]"
  using fresh_keys_evade_limit [of demo_allow demo_new "NewLimiter (Fin False 1 0) 1" "[(0, demo_http ''a''), (0, demo_http ''b'')]"]
  by (simp add: demo_allow_def demo_new_def NewLimiter_def)

text \<open>\<open>POST /v1/infer\<close>: a body that does not decode, or lacks a model name or features, is
  answered 400 and the router is not called; otherwise the router is called once, with the
  decoded fields; its error is answered 502 and its response 200. The queue is never touched.\<close>

lemma infer_behaviour:
  "Handler_Infer router env r s =
    (case decode_infer (hq_Body r) of
       None \<Rightarrow> Done (http_Error ''{\"error\":\"invalid json body\"}'' 400, s)
     | Some req \<Rightarrow>
         if iq_ModelName req = [] \<or> iq_Features req = []
         then Done (http_Error ''{\"error\":\"model_name and features are required\"}'' 400, s)
         else (let called = router (infer_request env req) (gw_router s) in
           Done (case fst called of
                   Inl err \<Rightarrow> http_Error (''{\"error\":\"inference failed: '' @ err @ ''\"}'') 502
                 | Inr resp \<Rightarrow> infer_reply resp,
                 s\<lparr>gw_router := snd called\<rparr>)))"
  by (auto simp: Handler_Infer_def checked_request_def Let_def split: option.split prod.split sum.split)

text \<open>\<open>POST /v1/jobs\<close> on the in-memory queue: an accepted request (202) appended exactly one
  message, a job of three attempts that decodes back to the request, at the end of the jobs topic; a
  refused one (400, 503) queued nothing. The router is not called.\<close>

lemma submit_behaviour:
  assumes "Handler_SubmitJob (Memory_ops ctx pick) jobsTopic env r s = Done (rep, s')"
  shows "gw_router s' = gw_router s \<and> dead_payloads (gw_queue s') = dead_payloads (gw_queue s) \<and>
    (case checked_request (hq_Body r) of
       Inl refusal \<Rightarrow> rep = refusal \<and> rp_status rep = 400 \<and> s' = s
     | Inr req \<Rightarrow>
         rp_status rep = 202 \<and> rp_body rep = JsonReply (JObj [(''job_id'', JStr (ge_uuid env))]) \<and>
           payloads (gw_queue s') = (payloads (gw_queue s))
             (jobsTopic := payloads (gw_queue s) jobsTopic @ [marshal_job (submitted_job env req)])
       \<or> rp_status rep = 503 \<and> payloads (gw_queue s') = payloads (gw_queue s))"
  using memory.submit_effect [OF assms]
  by (auto simp: checked_request_def split: sum.splits option.splits if_splits)

text \<open>C28: the synchronous and the asynchronous way send the router the same request: a body that
  passes the checks, submitted as a job, read back by the scheduler and dispatched at any attempt,
  gives the request that \<open>Infer\<close> would have sent at that time under that id.\<close>

theorem job_dispatches_same_request:
  assumes "checked_request b = Inr req" and "list_all is_finite (iq_Features req)" and "time_ok (ge_now env)"
  shows "\<exists>job. unmarshal_job (marshal_job (submitted_job env req)) = Some job
    \<and> job_Attempt job = 0 \<and> job_MaxAttempts job = 3
    \<and> dispatch_request (job\<lparr>job_Attempt := a\<rparr>) = infer_request env req"
proof -
  have "unmarshal_job (marshal_job (submitted_job env req)) = Some (submitted_job env req)"
    using assms(2,3) by (simp add: unmarshal_marshal_job job_marshals_def submitted_job_def)
  moreover have "dispatch_request ((submitted_job env req)\<lparr>job_Attempt := a\<rparr>) = infer_request env req"
    using same_request [of env req] by (simp add: dispatch_request_def)
  moreover have "job_Attempt (submitted_job env req) = 0" "job_MaxAttempts (submitted_job env req) = 3"
    by (simp_all add: submitted_job_def)
  ultimately show ?thesis
    by blast
qed

theorem job_dispatches_same_request_witness:
  "\<exists>job. unmarshal_job (marshal_job (submitted_job \<lparr>ge_uuid = ''u1'', ge_now = 0\<rparr> demo_infer)) = Some job
    \<and> dispatch_request (job\<lparr>job_Attempt := 2\<rparr>) = infer_request \<lparr>ge_uuid = ''u1'', ge_now = 0\<rparr> demo_infer"
  using job_dispatches_same_request [OF demo_checked, of "\<lparr>ge_uuid = ''u1'', ge_now = 0\<rparr>" 2]
  by (auto simp: demo_infer_def is_finite_def time_ok_def)

text \<open>The gateway's own error texts are JSON documents, but the 502 that reports the router's
  commonest failure is not: the error's text quotes the model's name, and the gateway puts it into a
  JSON string without escaping, so the string ends in front of the name.\<close>

lemma no_worker_reply_is_not_json:
  assumes router: "\<forall>req rs. router req rs = (Inl (''rpc error: code = Unavailable desc = route request: ''
      @ select_error_text (NoEligibleWorker (req_ModelName req) p n)), rs)"
    and "Handler_Infer router env r s = Done (rep, s')" and "rp_body rep = TextReply t"
  shows "rp_status rep = 400 \<and> is_error_document t \<or> rp_status rep = 502 \<and> \<not> is_error_document t"
proof (cases "checked_request (hq_Body r)")
  case (Inl refusal)
  then have "rep = refusal"
    using assms(2) by (simp add: Handler_Infer_def)
  moreover have "is_error_document (''{\"error\":\"invalid json body\"}'' @ [CHR 0x0A])"
    "is_error_document (''{\"error\":\"model_name and features are required\"}'' @ [CHR 0x0A])"
    by code_simp+
  ultimately show ?thesis
    using Inl assms(3) by (auto simp: checked_request_def split: option.splits if_splits)
next
  case (Inr req)
  let ?pre = "''inference failed: rpc error: code = Unavailable desc = route request: no eligible worker for model ''"
  obtain rest where body: "t = ''{\"error\":\"'' @ ?pre @ CHR 0x22 # rest @ ''\"}'' @ [CHR 0x0A]" and st: "rp_status rep = 502"
    using Inr assms(2,3) router by (auto simp: Handler_Infer_def go_quote_def)
  have "plain_text ?pre"
    by code_simp
  then have "scan_string (drop 10 t) = Some (?pre, rest @ ''\"}'' @ [CHR 0x0A])"
    using scan_plain [of ?pre "rest @ ''\"}'' @ [CHR 0x0A]"] by (simp add: body)
  then show ?thesis
    using st by (simp add: is_error_document_def)
qed

end
