(* ===== verification/Metrics.thy ===== *)
theory Metrics
  imports Http
begin

text \<open>
  What the services measure: the metrics each program registers (\<open>shared/pkg/metrics/metrics.go\<close>, the
  scheduler's counters, the simulator's \<open>telemetry.Aggregator\<close>), and the recorder through which the
  middleware sees the status of a reply.

  The registry is the Prometheus client's and a parameter: \<open>register\<close> takes a metric, or panics (\<open>None\<close>), as
  \<open>MustRegister\<close> and \<open>promauto\<close> do. It is documented to refuse a second metric of the same name, and
  histograms whose buckets do not increase.
\<close>

section \<open>The metrics\<close>

text \<open>Buckets in thousandths of a second.\<close>

datatype metric_kind = CounterVec "string list" | HistogramVec "int list" "string list" | Counter | Gauge

record metric =
  mt_Namespace :: string
  mt_Name :: string
  mt_Kind :: metric_kind

record metrics_Set =
  RequestsTotal :: metric
  RequestDuration :: metric
  InFlight :: metric
  ErrorsTotal :: metric

definition metrics_New :: "string \<Rightarrow> metrics_Set" where
  "metrics_New service =
     \<lparr>RequestsTotal = \<lparr>mt_Namespace = service, mt_Name = ''requests_total'',
        mt_Kind = CounterVec [''route'', ''method'', ''status'']\<rparr>,
      RequestDuration = \<lparr>mt_Namespace = service, mt_Name = ''request_duration_seconds'',
        mt_Kind = HistogramVec [1, 5, 10, 25, 50, 100, 250, 500, 1000, 2500, 5000, 10000] [''route'', ''method'']\<rparr>,
      InFlight = \<lparr>mt_Namespace = service, mt_Name = ''in_flight_requests'', mt_Kind = Gauge\<rparr>,
      ErrorsTotal = \<lparr>mt_Namespace = service, mt_Name = ''errors_total'', mt_Kind = CounterVec [''route'', ''kind'']\<rparr>\<rparr>"

text \<open>The order in which \<open>New\<close> registers them.\<close>

definition Set_metrics :: "metrics_Set \<Rightarrow> metric list" where
  "Set_metrics s = [RequestsTotal s, RequestDuration s, InFlight s, ErrorsTotal s]"

definition scheduler_counters :: "metric list" where
  "scheduler_counters =
     map (\<lambda>n. \<lparr>mt_Namespace = ''scheduler'', mt_Name = n, mt_Kind = Counter\<rparr>)
       [''jobs_processed_total'', ''jobs_failed_total'', ''jobs_retried_total'', ''jobs_dead_lettered_total'']"

record aggregator_metrics =
  TelemetryTotal :: metric
  InferOKTotal :: metric
  InferErrTotal :: metric
  ActiveVehicles :: metric

definition Aggregator_New :: aggregator_metrics where
  "Aggregator_New =
     \<lparr>TelemetryTotal = \<lparr>mt_Namespace = ''fleet_simulator'', mt_Name = ''telemetry_ticks_total'', mt_Kind = Counter\<rparr>,
      InferOKTotal = \<lparr>mt_Namespace = ''fleet_simulator'', mt_Name = ''infer_ok_total'', mt_Kind = Counter\<rparr>,
      InferErrTotal = \<lparr>mt_Namespace = ''fleet_simulator'', mt_Name = ''infer_err_total'', mt_Kind = Counter\<rparr>,
      ActiveVehicles = \<lparr>mt_Namespace = ''fleet_simulator'', mt_Name = ''active_vehicles'', mt_Kind = Gauge\<rparr>\<rparr>"

fun MustRegister :: "(metric \<Rightarrow> 'r \<Rightarrow> 'r option) \<Rightarrow> metric list \<Rightarrow> 'r \<Rightarrow> 'r option" where
  "MustRegister register [] reg = Some reg"
| "MustRegister register (m # ms) reg =
     (case register m reg of None \<Rightarrow> None | Some reg' \<Rightarrow> MustRegister register ms reg')"

definition Aggregator_Register ::
  "(metric \<Rightarrow> 'r \<Rightarrow> 'r option) \<Rightarrow> aggregator_metrics \<Rightarrow> 'r \<Rightarrow> 'r option"
where
  "Aggregator_Register register a =
     MustRegister register [TelemetryTotal a, InferOKTotal a, InferErrTotal a, ActiveVehicles a]"

section \<open>Registration does not panic\<close>

definition full_name :: "metric \<Rightarrow> string" where
  "full_name m = mt_Namespace m @ ''_'' @ mt_Name m"

fun well_made :: "metric_kind \<Rightarrow> bool" where
  "well_made (CounterVec ls) = distinct ls"
| "well_made (HistogramVec bs ls) = (sorted_wrt (<) bs \<and> distinct ls)"
| "well_made Counter = True"
| "well_made Gauge = True"

definition registry_documented :: "(metric \<Rightarrow> 'r \<Rightarrow> 'r option) \<Rightarrow> ('r \<Rightarrow> string set) \<Rightarrow> bool" where
  "registry_documented register names \<longleftrightarrow>
     (\<forall>m reg. well_made (mt_Kind m) \<longrightarrow> full_name m \<notin> names reg \<longrightarrow>
        (\<exists>reg'. register m reg = Some reg' \<and> names reg' = insert (full_name m) (names reg)))"

lemma MustRegister_ok:
  assumes "registry_documented register names" and "list_all (\<lambda>m. well_made (mt_Kind m)) ms"
    and "distinct (map full_name ms)" and "full_name ` set ms \<inter> names reg = {}"
  shows "\<exists>reg'. MustRegister register ms reg = Some reg' \<and> names reg' = full_name ` set ms \<union> names reg"
  using assms(2-)
proof (induction ms arbitrary: reg)
  case (Cons m ms)
  have "well_made (mt_Kind m)" "full_name m \<notin> names reg"
    using Cons.prems by auto
  then obtain reg1 where "register m reg = Some reg1" "names reg1 = insert (full_name m) (names reg)"
    using assms(1) unfolding registry_documented_def by blast
  then show ?case
    using Cons.IH [of reg1] Cons.prems by auto
qed simp

text \<open>On a registry that holds none of its names, every program registers its metrics.\<close>

lemma programs_register:
  assumes "registry_documented register names"
  shows "full_name ` set (Set_metrics (metrics_New service)) \<inter> names reg = {} \<Longrightarrow>
      \<exists>reg'. MustRegister register (Set_metrics (metrics_New service)) reg = Some reg'"
    and "full_name ` set scheduler_counters \<inter> names reg = {} \<Longrightarrow>
      \<exists>reg'. MustRegister register scheduler_counters reg = Some reg'"
    and "names reg = {} \<Longrightarrow> \<exists>reg'. Aggregator_Register register Aggregator_New reg = Some reg'"
  using MustRegister_ok [OF assms, of "Set_metrics (metrics_New service)" reg]
    MustRegister_ok [OF assms, of scheduler_counters reg]
    MustRegister_ok [OF assms, of "[TelemetryTotal Aggregator_New, InferOKTotal Aggregator_New,
      InferErrTotal Aggregator_New, ActiveVehicles Aggregator_New]" reg]
  by (auto simp: Set_metrics_def metrics_New_def scheduler_counters_def Aggregator_New_def Aggregator_Register_def full_name_def)

section \<open>The recorded status\<close>

text \<open>A response writer of \<open>net/http\<close> sends the status of the first \<open>WriteHeader\<close>, and 200 when there was none
  before the body.\<close>

record response_writer =
  rw_status :: "int option"
  rw_body :: "reply_body list"

definition rw_WriteHeader :: "int \<Rightarrow> response_writer \<Rightarrow> response_writer" where
  "rw_WriteHeader code w = (if rw_status w = None then w\<lparr>rw_status := Some code\<rparr> else w)"

definition rw_Write :: "reply_body \<Rightarrow> response_writer \<Rightarrow> response_writer" where
  "rw_Write b w = (let w1 = rw_WriteHeader 200 w in w1\<lparr>rw_body := rw_body w1 @ [b]\<rparr>)"

record statusRecorder =
  sr_ResponseWriter :: response_writer
  sr_status :: int

definition new_statusRecorder :: "response_writer \<Rightarrow> statusRecorder" where
  "new_statusRecorder w = \<lparr>sr_ResponseWriter = w, sr_status = 200\<rparr>"

definition statusRecorder_WriteHeader :: "int \<Rightarrow> statusRecorder \<Rightarrow> statusRecorder" where
  "statusRecorder_WriteHeader code r =
     r\<lparr>sr_status := code, sr_ResponseWriter := rw_WriteHeader code (sr_ResponseWriter r)\<rparr>"

text \<open>\<open>Write\<close> is the embedded writer's.\<close>

definition statusRecorder_Write :: "reply_body \<Rightarrow> statusRecorder \<Rightarrow> statusRecorder" where
  "statusRecorder_Write b r = r\<lparr>sr_ResponseWriter := rw_Write b (sr_ResponseWriter r)\<rparr>"

text \<open>A reply of the handlers, by \<open>writeJSON\<close> or \<open>http.Error\<close>, is one header and one body; so the status that
  \<open>metrics_Middleware\<close> counts is the one the client is sent.\<close>

definition send_reply :: "http_reply \<Rightarrow> statusRecorder \<Rightarrow> statusRecorder" where
  "send_reply rep r = statusRecorder_Write (rp_body rep) (statusRecorder_WriteHeader (rp_status rep) r)"

lemma recorded_status_is_sent:
  assumes "rw_status w = None"
  shows "sr_status (send_reply rep (new_statusRecorder w)) = rp_status rep"
    and "rw_status (sr_ResponseWriter (send_reply rep (new_statusRecorder w))) = Some (rp_status rep)"
    and "rw_body (sr_ResponseWriter (send_reply rep (new_statusRecorder w))) = rw_body w @ [rp_body rep]"
  using assms
  by (simp_all add: send_reply_def new_statusRecorder_def statusRecorder_Write_def statusRecorder_WriteHeader_def
      rw_Write_def rw_WriteHeader_def Let_def)

text \<open>A handler that wrote a second header would be counted with a status its client never saw.\<close>

lemma second_header_misleads:
  assumes "rw_status w = None"
  shows "rw_status (sr_ResponseWriter (statusRecorder_WriteHeader b (statusRecorder_WriteHeader a (new_statusRecorder w)))) = Some a"
    and "sr_status (statusRecorder_WriteHeader b (statusRecorder_WriteHeader a (new_statusRecorder w))) = b"
  using assms by (simp_all add: new_statusRecorder_def statusRecorder_WriteHeader_def rw_WriteHeader_def)

end
