(* ===== verification/LoadTest.thy ===== *)
theory LoadTest
  imports Fleet
begin

text \<open>
  The load-test tool, \<open>benchmarks/loadtest/main.go\<close>: the requests of its workers, the counting loop over
  the results, and \<open>percentile\<close>. An index out of range is a panic, \<open>None\<close>.

  A round is one turn of a worker's loop: the worker's number, the features it drew and the latency it measured.
  The HTTP client is the parameter \<open>client\<close>, as for the vehicles.
\<close>

record load_result =
  lr_latency :: int64
  lr_ok :: bool

record load_counts =
  lc_latencies :: "int64 list"
  lc_okCount :: nat
  lc_errCount :: nat

fun count_results :: "load_result list \<Rightarrow> load_counts \<Rightarrow> load_counts" where
  "count_results [] c = c"
| "count_results (r # rs) c =
     (let c1 = c\<lparr>lc_latencies := lc_latencies c @ [lr_latency r]\<rparr> in
      count_results rs (if lr_ok r then c1\<lparr>lc_okCount := lc_okCount c1 + 1\<rparr>
                        else c1\<lparr>lc_errCount := lc_errCount c1 + 1\<rparr>))"

section \<open>The workers\<close>

definition load_body :: "string \<Rightarrow> int \<Rightarrow> flt list \<Rightarrow> body" where
  "load_body model worker features =
     marshal_request \<lparr>cq_VehicleID = ''loadtest-'' @ strconv_itoa worker, cq_ModelName = model, cq_Precision = ''fp32'',
                      cq_Priority = ''normal'', cq_Features = features\<rparr>"

text \<open>One turn: the result sent to the channel. A URL that gives no request leaves \<open>req\<close> nil, and setting its
  header panics.\<close>

definition load_round ::
  "(string \<Rightarrow> string \<Rightarrow> body \<Rightarrow> client_result) \<Rightarrow> string \<Rightarrow> string \<Rightarrow> string \<Rightarrow> int \<times> flt list \<times> int64
     \<Rightarrow> load_result option"
where
  "load_round client url apiKey model = (\<lambda>(worker, features, lat).
     case client (url @ ''/v1/infer'') apiKey (load_body model worker features) of
       RequestInvalid err \<Rightarrow> None
     | RoundTripFailed err \<Rightarrow> Some \<lparr>lr_latency = lat, lr_ok = False\<rparr>
     | GotStatus status \<Rightarrow> Some \<lparr>lr_latency = lat, lr_ok = (status = 200)\<rparr>)"

text \<open>The results of all rounds, in the order they are received; a panic ends the process.\<close>

fun load_rounds ::
  "(string \<Rightarrow> string \<Rightarrow> body \<Rightarrow> client_result) \<Rightarrow> string \<Rightarrow> string \<Rightarrow> string \<Rightarrow> (int \<times> flt list \<times> int64) list
     \<Rightarrow> load_result list option"
where
  "load_rounds client url apiKey model [] = Some []"
| "load_rounds client url apiKey model (x # xs) =
     (case load_round client url apiKey model x of
        None \<Rightarrow> None
      | Some r \<Rightarrow> map_option (Cons r) (load_rounds client url apiKey model xs))"

section \<open>The report\<close>

definition sort_latencies :: "int64 list \<Rightarrow> int64 list" where
  "sort_latencies = sort_key sint"

text \<open>The arithmetic is Go's on 64-bit ints; \<open>p * len(sorted)\<close> may wrap.\<close>

definition percentile :: "int64 list \<Rightarrow> go_int \<Rightarrow> int64 option" where
  "percentile lats p =
     (let len = word_of_nat (length lats) :: go_int;
          idx0 = word_of_int (quot (sint (p * len)) 100) :: go_int;
          idx = (if sint len \<le> sint idx0 then len - 1 else idx0)
      in if 0 \<le> sint idx \<and> sint idx < int (length lats) then Some (lats ! nat (sint idx)) else None)"

definition load_percentile :: "load_result list \<Rightarrow> go_int \<Rightarrow> int64 option" where
  "load_percentile rs p =
     percentile (sort_latencies (lc_latencies (count_results rs \<lparr>lc_latencies = [], lc_okCount = 0, lc_errCount = 0\<rparr>))) p"

text \<open>What \<open>main\<close> prints of the results, and its exit status.\<close>

record load_report =
  lp_total :: nat
  lp_successful :: nat
  lp_failed :: nat
  lp_p50 :: "int64 option"
  lp_p95 :: "int64 option"
  lp_p99 :: "int64 option"
  lp_max :: int64

definition load_main :: "load_result list \<Rightarrow> int \<times> load_report option" where
  "load_main rs =
     (let c = count_results rs \<lparr>lc_latencies = [], lc_okCount = 0, lc_errCount = 0\<rparr>;
          lats = sort_latencies (lc_latencies c); total = length (lc_latencies c)
      in if total = 0 then (1, None)
         else (0, Some \<lparr>lp_total = total, lp_successful = lc_okCount c, lp_failed = lc_errCount c,
                        lp_p50 = percentile lats 50, lp_p95 = percentile lats 95, lp_p99 = percentile lats 99,
                        lp_max = lats ! (total - 1)\<rparr>))"

section \<open>The statistics\<close>

lemma count_results_eq:
  "count_results rs c =
     c\<lparr>lc_latencies := lc_latencies c @ map lr_latency rs,
       lc_okCount := lc_okCount c + length (filter lr_ok rs),
       lc_errCount := lc_errCount c + length (filter (\<lambda>r. \<not> lr_ok r) rs)\<rparr>"
  by (induction rs arbitrary: c) (simp_all add: Let_def)

lemma percentile_eq:
  assumes "xs \<noteq> []" and "length xs < 2 ^ 55" and "0 \<le> sint p" and "sint p \<le> 100"
  shows "percentile xs p = Some (xs ! min (nat (sint p) * length xs div 100) (length xs - 1))"
proof -
  let ?n = "int (length xs)"
  have len: "sint (word_of_nat (length xs) :: go_int) = ?n"
    using assms(2) sint64_of_int [of ?n] by simp
  have "sint p * ?n \<le> 100 * ?n"
    using assms(4) by (intro mult_right_mono) auto
  then have range: "0 \<le> sint p * ?n" "sint p * ?n < 2 ^ 63"
    using assms(2,3) by auto
  have "p * word_of_nat (length xs) = word_of_int (sint p * ?n)"
    by (simp add: of_int_sint)
  then have prod: "sint (p * word_of_nat (length xs)) = sint p * ?n"
    using range sint64_of_int [of "sint p * ?n"] by simp
  have idx0: "sint (word_of_int (sint p * ?n div 100) :: go_int) = sint p * ?n div 100"
    using range by (intro sint64_of_int) auto
  have last: "sint (word_of_nat (length xs) - 1 :: go_int) = ?n - 1"
  proof -
    have "(word_of_nat (length xs) - 1 :: go_int) = word_of_int (?n - 1)"
      by simp
    then show ?thesis
      using assms(1,2) sint64_of_int [of "?n - 1"] by (simp del: of_int_diff)
  qed
  have nat: "nat (sint p * ?n div 100) = nat (sint p) * length xs div 100"
    using assms(3) by (simp add: nat_div_distrib nat_mult_distrib)
  have last_nat: "nat (?n - 1) = length xs - Suc 0"
    by simp
  show ?thesis
    using assms(1) range nat last_nat
    by (auto simp: percentile_def Let_def prod len idx0 last min_def nat_diff_distrib not_le)
qed

lemma sort_latencies_nth_count:
  assumes "i < length xs"
  shows "Suc i \<le> length (filter (\<lambda>x. sint x \<le> sint (sort_latencies xs ! i)) xs)"
proof -
  let ?ys = "sort_latencies xs"
  have sorted: "sorted (map sint ?ys)"
    by (simp add: sort_latencies_def)
  have len: "length ?ys = length xs"
    by (simp add: sort_latencies_def)
  have "sint (?ys ! k) \<le> sint (?ys ! i)" if "k \<le> i" for k
    using sorted_nth_mono [OF sorted that] that assms len by simp
  then have "{0..i} \<subseteq> {k. k < length ?ys \<and> sint (?ys ! k) \<le> sint (?ys ! i)}"
    using assms len by auto
  then have "card {0..i} \<le> card {k. k < length ?ys \<and> sint (?ys ! k) \<le> sint (?ys ! i)}"
    by (intro card_mono) auto
  also have "\<dots> = length (filter (\<lambda>x. sint x \<le> sint (?ys ! i)) ?ys)"
    by (simp add: length_filter_conv_card)
  also have "\<dots> = length (filter (\<lambda>x. sint x \<le> sint (?ys ! i)) xs)"
    by (metis mset_filter size_mset mset_sort sort_latencies_def)
  finally show ?thesis
    by simp
qed

lemma load_rounds_results:
  "load_rounds client url apiKey model xs = Some rs \<Longrightarrow>
     map lr_latency rs = map (\<lambda>(worker, features, lat). lat) xs \<and>
     length (filter lr_ok rs) = length (filter (\<lambda>(worker, features, lat).
       client (url @ ''/v1/infer'') apiKey (load_body model worker features) = GotStatus 200) xs)"
  by (induction xs arbitrary: rs)
    (auto simp: load_round_def split: option.splits client_result.splits)

text \<open>The report counts as successful the requests answered 200, and the tool fails when there are none at all.\<close>

lemma load_main_reports:
  assumes "load_rounds client url apiKey model xs = Some rs"
  shows "case load_main rs of
      (status, None) \<Rightarrow> status = 1 \<and> xs = []
    | (status, Some rep) \<Rightarrow> status = 0 \<and> lp_total rep = length xs \<and> lp_successful rep + lp_failed rep = length xs \<and>
        lp_successful rep = length (filter (\<lambda>(worker, features, lat).
          client (url @ ''/v1/infer'') apiKey (load_body model worker features) = GotStatus 200) xs)"
proof -
  have "length rs = length xs"
    using load_rounds_results [OF assms] by (metis length_map)
  then show ?thesis
    using load_rounds_results [OF assms] sum_length_filter_compl [of lr_ok rs]
    by (auto simp: load_main_def Let_def count_results_eq)
qed

text \<open>The gateway accepts the body of a worker.\<close>

lemma gateway_accepts_load:
  assumes "model \<noteq> []" and "features \<noteq> []" and "list_all is_finite features"
  shows "checked_request (load_body model worker features) = Inr
      \<lparr>iq_VehicleID = ''loadtest-'' @ strconv_itoa worker, iq_ModelName = model, iq_ModelVersion = [],
       iq_Precision = ''fp32'', iq_Features = features, iq_Priority = ''normal''\<rparr>"
  using gateway_accepts_body [OF assms] assms(3) by (simp add: load_body_def marshal_request_def)

section \<open>Properties\<close>

text \<open>The percentiles printed are order statistics of the measured latencies: for p from 0 to 100
  the tool prints one of the latencies, at least p percent of them are no larger, the 100th
  percentile is the largest, and successes and failures add up to the total. (For fewer than
  2^55 results the index arithmetic does not wrap.)\<close>

lemma percentile_is_order_statistic:
  assumes "rs \<noteq> []" and "length rs < 2 ^ 55" and "0 \<le> sint p" and "sint p \<le> 100"
  shows "\<exists>v. load_percentile rs p = Some v \<and> v \<in> set (map lr_latency rs)
    \<and> nat (sint p) * length rs \<le> 100 * length (filter (\<lambda>r. sint (lr_latency r) \<le> sint v) rs)
    \<and> (sint p = 100 \<longrightarrow> list_all (\<lambda>r. sint (lr_latency r) \<le> sint v) rs)
    \<and> (let c = count_results rs \<lparr>lc_latencies = [], lc_okCount = 0, lc_errCount = 0\<rparr>
       in lc_okCount c + lc_errCount c = length rs)"
proof -
  let ?xs = "map lr_latency rs"
  let ?i = "min (nat (sint p) * length rs div 100) (length rs - 1)"
  let ?v = "sort_latencies ?xs ! ?i"
  have len: "length (sort_latencies ?xs) = length rs"
    by (simp add: sort_latencies_def)
  have i: "?i < length ?xs"
    using assms(1) by (cases rs) auto
  have val: "load_percentile rs p = Some ?v"
    using assms percentile_eq [of "sort_latencies ?xs" p] len
    by (cases "sort_latencies ?xs = []") (simp_all add: load_percentile_def count_results_eq)
  have "?v \<in> set ?xs"
    using i len nth_mem [of ?i "sort_latencies ?xs"] by (simp add: sort_latencies_def)
  have count: "Suc ?i \<le> length (filter (\<lambda>r. sint (lr_latency r) \<le> sint ?v) rs)"
    using sort_latencies_nth_count [OF i] by (simp add: filter_map comp_def)
  have "nat (sint p) * length rs \<le> 100 * length rs"
    using assms(4) by (intro mult_right_mono) auto
  also have "\<dots> = 100 * Suc (length rs - 1)"
    using assms(1) by (cases rs) auto
  finally have "nat (sint p) * length rs \<le> 100 * Suc (length rs - 1)" .
  moreover have "nat (sint p) * length rs \<le> 100 * Suc (nat (sint p) * length rs div 100)"
    by simp
  ultimately have share: "nat (sint p) * length rs \<le> 100 * Suc ?i"
    unfolding min_def by (simp only: split: if_split) blast
  have all: "list_all (\<lambda>r. sint (lr_latency r) \<le> sint ?v) rs" if "sint p = 100"
  proof -
    have "Suc ?i = length rs"
      using that assms(1) by (cases rs) simp_all
    then have "length (filter (\<lambda>r. sint (lr_latency r) \<le> sint ?v) rs) = length rs"
      using count length_filter_le [of "\<lambda>r. sint (lr_latency r) \<le> sint ?v" rs] by linarith
    then show ?thesis
      using length_filter_less [of _ rs "\<lambda>r. sint (lr_latency r) \<le> sint ?v"] by (auto simp: list_all_iff)
  qed
  have "lc_okCount (count_results rs c) + lc_errCount (count_results rs c)
      = lc_okCount c + lc_errCount c + length rs" for c
    using sum_length_filter_compl [of lr_ok rs] by (simp add: count_results_eq)
  then show ?thesis
    using val \<open>?v \<in> set ?xs\<close> share count all by (intro exI [of _ ?v]) (auto simp: Let_def)
qed

end
