(* ===== verification/LoadRun.thy ===== *)
theory LoadRun
  imports LoadTest
begin

text \<open>
  The load-test tool as a program (\<open>benchmarks/loadtest/main.go\<close>): its workers, the goroutine that closes
  \<open>stop\<close> after the duration, the one that closes \<open>resultsCh\<close> when all workers have returned, and \<open>main\<close>,
  which collects until then. Their steps interleave in any way; a step that would block is not enabled.

  \<open>client n\<close> is how the HTTP client treats the n-th call of the run. \<open>lt_answers\<close> is the history of the answers,
  each with the latency measured, in the order in which they came.
\<close>

section \<open>The goroutines\<close>

record load_settings =
  lo_url :: string
  lo_concurrency :: go_int
  lo_apiKey :: string
  lo_modelName :: string

text \<open>
  A worker looks at \<open>stop\<close>, makes a request, counts it in \<open>sent\<close> and sends its result to the channel, which
  has room for 100000.
\<close>

datatype load_worker = Looking | Asking | Counting load_result | Sending load_result | Left

datatype load_outcome = Collecting | Exited int "load_report option" | Crashed

record load_run =
  lt_workers :: "load_worker list"
  lt_stop :: bool
  lt_sent :: int64
  lt_resultsCh :: "load_result list"
  lt_closed :: bool
  lt_received :: "load_result list"
  lt_main :: load_outcome
  lt_answers :: "(client_result \<times> int64) list"

definition load_start :: "load_settings \<Rightarrow> load_run" where
  "load_start cfg =
     \<lparr>lt_workers = replicate (nat (sint (lo_concurrency cfg))) Looking, lt_stop = False, lt_sent = 0,
      lt_resultsCh = [], lt_closed = False, lt_received = [], lt_main = Collecting, lt_answers = []\<rparr>"

datatype load_event =
    Look nat
  | Ask nat "flt list" int64
  | Count nat
  | Send nat
  | StopAfterDuration
  | CloseResults
  | Receive
  | FinishRange

definition worker_at :: "nat \<Rightarrow> load_run \<Rightarrow> load_worker" where
  "worker_at i s = (if i < length (lt_workers s) then lt_workers s ! i else Left)"

definition set_worker :: "nat \<Rightarrow> load_worker \<Rightarrow> load_run \<Rightarrow> load_run" where
  "set_worker i w s = s\<lparr>lt_workers := (lt_workers s)[i := w]\<rparr>"

text \<open>One worker's steps. Sending on a closed channel panics, as does a URL that gives no request.\<close>

definition worker_step ::
  "(nat \<Rightarrow> string \<Rightarrow> string \<Rightarrow> body \<Rightarrow> client_result) \<Rightarrow> load_settings \<Rightarrow> load_event \<Rightarrow> load_run \<Rightarrow> load_run option"
where
  "worker_step client cfg e s =
     (case e of
        Look i \<Rightarrow>
          if worker_at i s = Looking then Some (set_worker i (if lt_stop s then Left else Asking) s) else None
      | Ask i features lat \<Rightarrow>
          if worker_at i s = Asking
          then (let call = client (length (lt_answers s));
                    answer = call (lo_url cfg @ ''/v1/infer'') (lo_apiKey cfg)
                               (load_body (lo_modelName cfg) (int i) features);
                    s1 = s\<lparr>lt_answers := lt_answers s @ [(answer, lat)]\<rparr>
                in case load_round call (lo_url cfg) (lo_apiKey cfg) (lo_modelName cfg) (int i, features, lat) of
                     None \<Rightarrow> Some (s1\<lparr>lt_main := Crashed\<rparr>)
                   | Some r \<Rightarrow> Some (set_worker i (Counting r) s1))
          else None
      | Count i \<Rightarrow>
          (case worker_at i s of
             Counting r \<Rightarrow> Some (set_worker i (Sending r) (s\<lparr>lt_sent := lt_sent s + 1\<rparr>))
           | _ \<Rightarrow> None)
      | Send i \<Rightarrow>
          (case worker_at i s of
             Sending r \<Rightarrow>
               if lt_closed s then Some (s\<lparr>lt_main := Crashed\<rparr>)
               else if length (lt_resultsCh s) < 100000
               then Some (set_worker i Looking (s\<lparr>lt_resultsCh := lt_resultsCh s @ [r]\<rparr>))
               else None
           | _ \<Rightarrow> None)
      | _ \<Rightarrow> None)"

text \<open>One step of the program; when \<open>main\<close> has ended, so has the process.\<close>

definition load_step ::
  "(nat \<Rightarrow> string \<Rightarrow> string \<Rightarrow> body \<Rightarrow> client_result) \<Rightarrow> load_settings \<Rightarrow> load_event \<Rightarrow> load_run \<Rightarrow> load_run option"
where
  "load_step client cfg e s =
     (if lt_main s \<noteq> Collecting then None
      else case e of
        StopAfterDuration \<Rightarrow> if lt_stop s then None else Some (s\<lparr>lt_stop := True\<rparr>)
      | CloseResults \<Rightarrow>
          if list_all (\<lambda>w. w = Left) (lt_workers s) \<and> \<not> lt_closed s then Some (s\<lparr>lt_closed := True\<rparr>) else None
      | Receive \<Rightarrow>
          (case lt_resultsCh s of
             [] \<Rightarrow> None
           | r # rest \<Rightarrow> Some (s\<lparr>lt_resultsCh := rest, lt_received := lt_received s @ [r]\<rparr>))
      | FinishRange \<Rightarrow>
          if lt_resultsCh s = [] \<and> lt_closed s
          then (case load_main (lt_received s) of (status, report) \<Rightarrow> Some (s\<lparr>lt_main := Exited status report\<rparr>))
          else None
      | _ \<Rightarrow> worker_step client cfg e s)"

fun load_steps ::
  "(nat \<Rightarrow> string \<Rightarrow> string \<Rightarrow> body \<Rightarrow> client_result) \<Rightarrow> load_settings \<Rightarrow> load_event list \<Rightarrow> load_run \<Rightarrow> load_run option"
where
  "load_steps client cfg [] s = Some s"
| "load_steps client cfg (e # es) s =
     (case load_step client cfg e s of None \<Rightarrow> None | Some s' \<Rightarrow> load_steps client cfg es s')"

section \<open>No result is lost or made up\<close>

fun in_hand :: "load_worker \<Rightarrow> load_result multiset" where
  "in_hand (Counting r) = {#r#}"
| "in_hand (Sending r) = {#r#}"
| "in_hand _ = {#}"

fun to_count :: "load_worker \<Rightarrow> nat" where
  "to_count (Counting r) = 1"
| "to_count _ = 0"

definition answer_result :: "client_result \<times> int64 \<Rightarrow> load_result" where
  "answer_result = (\<lambda>(answer, lat). \<lparr>lr_latency = lat, lr_ok = (answer = GotStatus 200)\<rparr>)"

definition valid_request :: "client_result \<Rightarrow> bool" where
  "valid_request a = (case a of RequestInvalid _ \<Rightarrow> False | _ \<Rightarrow> True)"

text \<open>
  The answers are the results received, in the channel or in a worker's hand; \<open>sent\<close> lacks those not
  counted yet; the channel is closed only after all workers have returned, and they return only
  after \<open>stop\<close>.
\<close>

definition load_inv :: "load_settings \<Rightarrow> load_run \<Rightarrow> bool" where
  "load_inv cfg s \<longleftrightarrow>
     length (lt_workers s) = nat (sint (lo_concurrency cfg)) \<and>
     mset (map answer_result (lt_answers s)) =
       mset (lt_received s) + mset (lt_resultsCh s) + (\<Sum>w\<leftarrow>lt_workers s. in_hand w) \<and>
     list_all (valid_request \<circ> fst) (lt_answers s) \<and>
     lt_sent s + word_of_nat (\<Sum>w\<leftarrow>lt_workers s. to_count w) = word_of_nat (length (lt_answers s)) \<and>
     length (lt_resultsCh s) \<le> 100000 \<and>
     (lt_closed s \<longrightarrow> list_all (\<lambda>w. w = Left) (lt_workers s)) \<and>
     (Left \<in> set (lt_workers s) \<longrightarrow> lt_stop s)"

text \<open>\<open>main\<close> has ended: with the report on all answers, or by a panic at the last request.\<close>

definition load_ended :: "load_run \<Rightarrow> bool" where
  "load_ended s = (case lt_main s of
     Collecting \<Rightarrow> True
   | Exited status report \<Rightarrow> lt_resultsCh s = [] \<and> lt_closed s \<and> load_main (lt_received s) = (status, report)
   | Crashed \<Rightarrow> lt_answers s \<noteq> [] \<and> \<not> valid_request (fst (last (lt_answers s))))"

lemma worker_at_busy: "worker_at i s = w \<Longrightarrow> w \<noteq> Left \<Longrightarrow> i < length (lt_workers s) \<and> lt_workers s ! i = w"
  by (auto simp: worker_at_def split: if_splits)

lemma load_round_answer:
  "load_round call url key model (worker, features, lat) =
     (let a = call (url @ ''/v1/infer'') key (load_body model worker features)
      in if valid_request a then Some (answer_result (a, lat)) else None)"
  by (simp add: load_round_def answer_result_def valid_request_def split: client_result.splits)

text \<open>A worker that steps from \<open>w\<close> to \<open>w'\<close> moves the result it holds.\<close>

lemma set_worker_inv:
  assumes "i < length (lt_workers s)"
  shows "(\<Sum>w\<leftarrow>(lt_workers s)[i := w']. in_hand w) + in_hand (lt_workers s ! i)
      = (\<Sum>w\<leftarrow>lt_workers s. in_hand w) + in_hand w'"
    and "(\<Sum>w\<leftarrow>(lt_workers s)[i := w']. to_count w) + to_count (lt_workers s ! i)
      = (\<Sum>w\<leftarrow>lt_workers s. to_count w) + to_count w'"
  using sum_list_map_update [OF assms] by blast+

lemma Left_update: "Left \<in> set (ws[i := w]) \<Longrightarrow> w \<noteq> Left \<Longrightarrow> Left \<in> set ws"
  using set_update_subset_insert [of ws i w] by auto

lemma not_all_left: "i < length ws \<Longrightarrow> ws ! i \<noteq> Left \<Longrightarrow> \<not> list_all (\<lambda>w. w = Left) ws"
  by (auto simp: list_all_length)

lemma Look_inv:
  assumes "load_inv cfg s" and "worker_at i s = Looking"
  shows "load_inv cfg (set_worker i (if lt_stop s then Left else Asking) s)"
proof -
  have i: "i < length (lt_workers s)" "lt_workers s ! i = Looking"
    using worker_at_busy [OF assms(2)] by auto
  show ?thesis
    using assms(1) set_worker_inv [OF i(1), of "if lt_stop s then Left else Asking"] i(2) not_all_left [OF i(1)]
      Left_update [of "lt_workers s" i Asking]
    by (auto simp: load_inv_def set_worker_def)
qed

lemma Ask_inv:
  assumes "load_inv cfg s" and "worker_at i s = Asking" and "valid_request a"
  shows "load_inv cfg (set_worker i (Counting (answer_result (a, lat))) (s\<lparr>lt_answers := lt_answers s @ [(a, lat)]\<rparr>))"
proof -
  have i: "i < length (lt_workers s)" "lt_workers s ! i = Asking"
    using worker_at_busy [OF assms(2)] by auto
  show ?thesis
    using assms(1,3) set_worker_inv [OF i(1), of "Counting (answer_result (a, lat))"] i(2) not_all_left [OF i(1)]
      Left_update [of "lt_workers s" i "Counting (answer_result (a, lat))"]
    by (auto simp: load_inv_def set_worker_def ac_simps)
qed

lemma Count_inv:
  assumes "load_inv cfg s" and "worker_at i s = Counting r"
  shows "load_inv cfg (set_worker i (Sending r) (s\<lparr>lt_sent := lt_sent s + 1\<rparr>))"
proof -
  have i: "i < length (lt_workers s)" "lt_workers s ! i = Counting r"
    using worker_at_busy [OF assms(2)] by auto
  have "(\<Sum>w\<leftarrow>lt_workers s. to_count w) = Suc (\<Sum>w\<leftarrow>(lt_workers s)[i := Sending r]. to_count w)"
    using set_worker_inv(2) [OF i(1), of "Sending r"] i(2) by simp
  then show ?thesis
    using assms(1) set_worker_inv(1) [OF i(1), of "Sending r"] i(2) not_all_left [OF i(1)]
      Left_update [of "lt_workers s" i "Sending r"]
    by (auto simp: load_inv_def set_worker_def ac_simps)
qed

lemma Send_inv:
  assumes "load_inv cfg s" and "worker_at i s = Sending r" and "length (lt_resultsCh s) < 100000"
  shows "load_inv cfg (set_worker i Looking (s\<lparr>lt_resultsCh := lt_resultsCh s @ [r]\<rparr>))" and "\<not> lt_closed s"
proof -
  have i: "i < length (lt_workers s)" "lt_workers s ! i = Sending r"
    using worker_at_busy [OF assms(2)] by auto
  show "load_inv cfg (set_worker i Looking (s\<lparr>lt_resultsCh := lt_resultsCh s @ [r]\<rparr>))"
    using assms(1,3) set_worker_inv [OF i(1), of Looking] i(2) not_all_left [OF i(1)]
      Left_update [of "lt_workers s" i Looking]
    by (auto simp: load_inv_def set_worker_def ac_simps)
  show "\<not> lt_closed s"
    using assms(1) i not_all_left [OF i(1)] by (auto simp: load_inv_def)
qed

lemma sending_open: "load_inv cfg s \<Longrightarrow> worker_at i s = Sending r \<Longrightarrow> \<not> lt_closed s"
  using worker_at_busy [of i s "Sending r"] not_all_left [of i "lt_workers s"] by (auto simp: load_inv_def)

text \<open>The effect of a worker's step, with what it says about \<open>main\<close>.\<close>

lemma worker_step_inv:
  assumes inv: "load_inv cfg s" and step: "worker_step client cfg e s = Some s'" and main: "lt_main s = Collecting"
  shows "(lt_main s' = Collecting \<and> load_inv cfg s') \<or> (lt_main s' = Crashed \<and> load_ended s')"
proof (cases e)
  case (Look i)
  then show ?thesis
    using step main Look_inv [OF inv, of i]
    by (cases "worker_at i s = Looking") (auto simp: worker_step_def set_worker_def)
next
  case (Ask i features lat)
  define a where "a = client (length (lt_answers s)) (lo_url cfg @ ''/v1/infer'') (lo_apiKey cfg)
    (load_body (lo_modelName cfg) (int i) features)"
  show ?thesis
    using step main Ask_inv [OF inv, of i a lat]
    by (cases "worker_at i s = Asking"; cases "valid_request a")
      (auto simp: Ask worker_step_def load_round_answer Let_def load_ended_def set_worker_def simp flip: a_def)
next
  case (Count i)
  then show ?thesis
    using step main Count_inv [OF inv, of i]
    by (auto simp: worker_step_def set_worker_def split: load_worker.splits)
next
  case (Send i)
  then show ?thesis
    using step main Send_inv(1) [OF inv, of i] sending_open [OF inv, of i]
    by (auto simp: worker_step_def set_worker_def split: load_worker.splits if_splits)
qed (use step in \<open>simp_all add: worker_step_def\<close>)

lemma load_step_inv:
  assumes inv: "load_inv cfg s" and step: "load_step client cfg e s = Some s'"
  shows "load_ended s' \<and> (lt_main s' = Crashed \<or> load_inv cfg s')"
proof -
  have main: "lt_main s = Collecting"
    using step by (auto simp: load_step_def split: if_splits)
  have worker: ?thesis if "worker_step client cfg e s = Some s'"
    using worker_step_inv [OF inv that main] by (auto simp: load_ended_def)
  show ?thesis
  proof (cases e)
    case Receive
    then show ?thesis
      using step main inv
      by (cases "lt_resultsCh s") (auto simp: load_step_def load_inv_def load_ended_def)
  next
    case FinishRange
    then show ?thesis
      using step main inv by (auto simp: load_step_def load_inv_def load_ended_def split: if_splits prod.splits)
  qed (use step main inv worker in \<open>auto simp: load_step_def load_inv_def load_ended_def split: if_splits\<close>)
qed

lemma sum_list_empty: "sum_list (replicate n {#}) = {#}"
  by (induction n) simp_all

lemma load_start_inv: "load_inv cfg (load_start cfg)" "lt_main (load_start cfg) = Collecting"
  by (simp_all add: load_inv_def load_start_def sum_list_replicate sum_list_empty)

lemma load_steps_inv:
  assumes "load_steps client cfg es s = Some s'" and "load_inv cfg s" and "load_ended s"
  shows "load_ended s' \<and> (lt_main s' = Crashed \<or> load_inv cfg s')"
  using assms
proof (induction es arbitrary: s)
  case (Cons e es)
  obtain s1 where s1: "load_step client cfg e s = Some s1" "load_steps client cfg es s1 = Some s'"
    using Cons.prems(1) by (auto split: option.splits)
  have "load_ended s1 \<and> (lt_main s1 = Crashed \<or> load_inv cfg s1)"
    using load_step_inv [OF Cons.prems(2) s1(1)] .
  moreover have "s1 = s'" if "lt_main s1 = Crashed"
    using s1(2) that by (cases es) (auto simp: load_step_def)
  ultimately show ?case
    using Cons.IH [OF s1(2)] by auto
qed simp

section \<open>The run comes to an end\<close>

fun worker_work :: "load_worker \<Rightarrow> nat" where
  "worker_work Asking = 5"
| "worker_work (Counting r) = 4"
| "worker_work (Sending r) = 3"
| "worker_work Looking = 1"
| "worker_work Left = 0"

text \<open>How many steps the program can still take once \<open>stop\<close> is closed.\<close>

definition load_work :: "load_run \<Rightarrow> nat" where
  "load_work s =
     (\<Sum>w\<leftarrow>lt_workers s. worker_work w) + length (lt_resultsCh s) + (if lt_closed s then 0 else 1)
     + (if lt_main s = Collecting then 1 else 0)"

lemma worker_work_update:
  "i < length (lt_workers s) \<Longrightarrow>
     (\<Sum>w\<leftarrow>(lt_workers s)[i := w']. worker_work w) + worker_work (lt_workers s ! i)
       = (\<Sum>w\<leftarrow>lt_workers s. worker_work w) + worker_work w'"
  by (rule sum_list_map_update)

lemma worker_step_work:
  assumes "worker_step client cfg e s = Some s'" and "lt_stop s" and "lt_main s = Collecting"
  shows "load_work s' < load_work s \<and> lt_stop s'"
proof (cases e)
  case (Look i)
  then show ?thesis
    using assms worker_at_busy [of i s Looking] worker_work_update [of i s Left]
    by (auto simp: worker_step_def set_worker_def load_work_def split: if_splits)
next
  case (Ask i features lat)
  define a where "a = client (length (lt_answers s)) (lo_url cfg @ ''/v1/infer'') (lo_apiKey cfg)
    (load_body (lo_modelName cfg) (int i) features)"
  show ?thesis
    using assms worker_at_busy [of i s Asking] worker_work_update [of i s "Counting (answer_result (a, lat))"]
    by (cases "worker_at i s = Asking"; cases "valid_request a")
      (auto simp: Ask worker_step_def load_round_answer Let_def load_work_def set_worker_def simp flip: a_def)
next
  case (Count i)
  then obtain r where "worker_at i s = Counting r"
    using assms(1) by (auto simp: worker_step_def split: load_worker.splits)
  then show ?thesis
    using assms Count worker_at_busy [of i s "Counting r"] worker_work_update [of i s "Sending r"]
    by (auto simp: worker_step_def set_worker_def load_work_def)
next
  case (Send i)
  then obtain r where "worker_at i s = Sending r"
    using assms(1) by (auto simp: worker_step_def split: load_worker.splits)
  then show ?thesis
    using assms Send worker_at_busy [of i s "Sending r"] worker_work_update [of i s Looking]
    by (auto simp: worker_step_def set_worker_def load_work_def split: if_splits)
qed (use assms in \<open>simp_all add: worker_step_def\<close>)

lemma load_step_work:
  assumes "load_step client cfg e s = Some s'" and "lt_stop s"
  shows "load_work s' < load_work s \<and> lt_stop s'"
proof -
  have main: "lt_main s = Collecting"
    using assms(1) by (auto simp: load_step_def split: if_splits)
  show ?thesis
  proof (cases e)
    case Receive
    then show ?thesis
      using assms main by (cases "lt_resultsCh s") (auto simp: load_step_def load_work_def)
  next
    case FinishRange
    then show ?thesis
      using assms main by (auto simp: load_step_def load_work_def split: if_splits prod.splits)
  qed (use assms main worker_step_work [of client cfg e s s'] in
      \<open>auto simp: load_step_def load_work_def split: if_splits\<close>)
qed

lemma load_steps_work:
  "load_steps client cfg es s = Some s' \<Longrightarrow> lt_stop s \<Longrightarrow> length es + load_work s' \<le> load_work s"
proof (induction es arbitrary: s)
  case (Cons e es)
  obtain s1 where s1: "load_step client cfg e s = Some s1" "load_steps client cfg es s1 = Some s'"
    using Cons.prems(1) by (auto split: option.splits)
  show ?case
    using load_step_work [OF s1(1) Cons.prems(2)] Cons.IH [OF s1(2)] by simp
qed simp

lemma load_work_bound:
  assumes "load_inv cfg s"
  shows "load_work s \<le> 5 * nat (sint (lo_concurrency cfg)) + 100002"
proof -
  have "worker_work w \<le> 5" for w
    by (cases w) auto
  then have "(\<Sum>w\<leftarrow>ws. worker_work w) \<le> 5 * length ws" for ws
  proof (induction ws)
    case (Cons w ws)
    have "worker_work w \<le> 5"
      using \<open>\<And>w. worker_work w \<le> 5\<close> .
    with Cons.IH [OF Cons.prems] show ?case
      by simp
  qed simp
  then have "(\<Sum>w\<leftarrow>lt_workers s. worker_work w) \<le> 5 * nat (sint (lo_concurrency cfg))"
    using assms by (metis load_inv_def)
  then show ?thesis
    using assms by (auto simp: load_work_def load_inv_def)
qed

text \<open>Until \<open>main\<close> has ended, some step is always enabled: a full channel can be received from, an empty one
  sent to, and after \<open>stop\<close> and the last worker's return the channel is closed.\<close>

lemma load_step_enabled:
  assumes "lt_main s = Collecting"
  shows "\<exists>e. load_step client cfg e s \<noteq> None"
proof (cases "lt_resultsCh s")
  case (Cons r rest)
  then show ?thesis
    using assms by (intro exI [of _ Receive]) (simp add: load_step_def)
next
  case Nil
  show ?thesis
  proof (cases "list_all (\<lambda>w. w = Left) (lt_workers s)")
    case True
    then show ?thesis
      using assms Nil
      by (cases "lt_closed s")
        (auto intro: exI [of _ CloseResults] exI [of _ FinishRange] simp: load_step_def split: prod.splits)
  next
    case False
    then obtain i where i: "i < length (lt_workers s)" "lt_workers s ! i \<noteq> Left"
      by (auto simp: list_all_length)
    then have at: "worker_at i s = lt_workers s ! i"
      by (simp add: worker_at_def)
    show ?thesis
    proof (cases "lt_workers s ! i")
      case Looking
      then show ?thesis
        using assms at by (intro exI [of _ "Look i"]) (simp add: load_step_def worker_step_def)
    next
      case Asking
      then show ?thesis
        using assms at
        by (intro exI [of _ "Ask i [] 0"]) (simp add: load_step_def worker_step_def Let_def split: option.splits)
    next
      case (Counting r)
      then show ?thesis
        using assms at by (intro exI [of _ "Count i"]) (simp add: load_step_def worker_step_def)
    next
      case (Sending r)
      then show ?thesis
        using assms at Nil by (intro exI [of _ "Send i"]) (simp add: load_step_def worker_step_def)
    qed (use i in simp)
  qed
qed

section \<open>The report does not depend on the order\<close>

lemma load_main_mset:
  assumes "mset rs = mset rs'"
  shows "load_main rs = load_main rs'"
proof -
  have sorted: "map sint (sort_latencies xs) = sort (map sint xs)" for xs
    by (rule properties_for_sort [symmetric]) (simp_all add: sort_latencies_def)
  have inj: "inj (sint :: int64 \<Rightarrow> int)"
    by (rule injI) (simp add: signed_word_eqI)
  have "sort (map sint (map lr_latency rs)) = sort (map sint (map lr_latency rs'))"
    using assms by (intro properties_for_sort) simp_all
  then have "map sint (sort_latencies (map lr_latency rs)) = map sint (sort_latencies (map lr_latency rs'))"
    by (simp only: sorted)
  then have "sort_latencies (map lr_latency rs) = sort_latencies (map lr_latency rs')"
    by (simp only: inj_map_eq_map [OF inj])
  moreover have "length (filter P rs) = length (filter P rs')" for P
    using assms by (metis mset_filter size_mset)
  moreover have "length rs = length rs'"
    using assms by (rule mset_eq_length)
  moreover have "rs = [] \<longleftrightarrow> rs' = []"
    using assms by auto
  ultimately show ?thesis
    by (simp add: load_main_def Let_def count_results_eq)
qed

lemma load_main_answers:
  "case load_main (map answer_result xs) of
     (status, None) \<Rightarrow> status = 1 \<and> xs = []
   | (status, Some rep) \<Rightarrow> status = 0 \<and> lp_total rep = length xs
       \<and> lp_successful rep = length (filter (\<lambda>(a, lat). a = GotStatus 200) xs)
       \<and> lp_failed rep = length (filter (\<lambda>(a, lat). a \<noteq> GotStatus 200) xs)"
proof -
  have "lr_ok \<circ> answer_result = (\<lambda>(a, lat). a = GotStatus 200)"
    "(\<lambda>r. \<not> lr_ok r) \<circ> answer_result = (\<lambda>(a, lat). a \<noteq> GotStatus 200)"
    by (auto simp: answer_result_def)
  then show ?thesis
    by (simp add: load_main_def Let_def count_results_eq filter_map)
qed

text \<open>What an ended run has printed: the report on its answers.\<close>

lemma load_exited:
  assumes "load_inv cfg s" and "load_ended s" and "lt_main s = Exited status report"
  shows "load_main (map answer_result (lt_answers s)) = (status, report)"
    and "lt_sent s = word_of_nat (length (lt_answers s))"
proof -
  have left: "lt_workers s = replicate (length (lt_workers s)) Left" and ch: "lt_resultsCh s = []"
    using assms by (auto simp: load_inv_def load_ended_def list_all_iff intro: replicate_eqI)
  have "(\<Sum>w\<leftarrow>lt_workers s. in_hand w) = {#}" "(\<Sum>w\<leftarrow>lt_workers s. to_count w) = 0"
    by (subst left; simp add: sum_list_empty sum_list_replicate)+
  moreover have "mset (map answer_result (lt_answers s)) =
       mset (lt_received s) + mset (lt_resultsCh s) + (\<Sum>w\<leftarrow>lt_workers s. in_hand w)"
    "lt_sent s + word_of_nat (\<Sum>w\<leftarrow>lt_workers s. to_count w) = word_of_nat (length (lt_answers s))"
    using assms(1) unfolding load_inv_def by blast+
  ultimately have "mset (map answer_result (lt_answers s)) = mset (lt_received s)"
    and sent: "lt_sent s = word_of_nat (length (lt_answers s))"
    using ch by (simp_all del: sum_list_eq_0_iff)
  then show "load_main (map answer_result (lt_answers s)) = (status, report)"
    using assms(2,3) load_main_mset [of "map answer_result (lt_answers s)" "lt_received s"]
    by (simp add: load_ended_def)
  show "lt_sent s = word_of_nat (length (lt_answers s))"
    by (rule sent)
qed

section \<open>Properties\<close>

text \<open>C39: the load test comes to an end and its report is right, whatever the interleaving of its workers, of the
  two goroutines that close the channels and of \<open>main\<close>: until \<open>main\<close> has ended some step is enabled, and once
  \<open>stop\<close> is closed at most five steps per worker and 100002 more are left, so nothing deadlocks. When \<open>main\<close>
  exits, every request made was answered and counted in \<open>sent\<close>, and the report is the one of all the answers in the order in which
  they came; it fails exactly when there are none. It panics only when the last request could not be
  built from the URL, never by sending on a closed channel.\<close>

theorem load_test_ends:
  assumes "load_steps client cfg es (load_start cfg) = Some s"
  shows "(lt_main s = Collecting \<longrightarrow> (\<exists>e. load_step client cfg e s \<noteq> None))
    \<and> (\<forall>more s'. lt_stop s \<longrightarrow> load_steps client cfg more s = Some s' \<longrightarrow>
         length more \<le> 5 * nat (sint (lo_concurrency cfg)) + 100002)
    \<and> (case lt_main s of
        Collecting \<Rightarrow> True
      | Crashed \<Rightarrow> \<not> valid_request (fst (last (lt_answers s)))
      | Exited status report \<Rightarrow>
          load_main (map answer_result (lt_answers s)) = (status, report)
          \<and> lt_sent s = word_of_nat (length (lt_answers s))
          \<and> (case report of
               None \<Rightarrow> status = 1 \<and> lt_answers s = []
             | Some rep \<Rightarrow> status = 0 \<and> lp_total rep = length (lt_answers s)
                 \<and> lp_successful rep = length (filter (\<lambda>(a, lat). a = GotStatus 200) (lt_answers s))
                 \<and> lp_failed rep = length (filter (\<lambda>(a, lat). a \<noteq> GotStatus 200) (lt_answers s))))"
proof -
  have inv: "load_ended s \<and> (lt_main s = Crashed \<or> load_inv cfg s)"
    using load_steps_inv [OF assms load_start_inv(1)] load_start_inv(2) by (auto simp: load_ended_def)
  have bound: "length more \<le> 5 * nat (sint (lo_concurrency cfg)) + 100002"
    if "lt_stop s" and run: "load_steps client cfg more s = Some s'" for more s'
  proof (cases "lt_main s = Crashed")
    case True
    then have "more = []"
      using run by (cases more) (auto simp: load_step_def)
    then show ?thesis
      by simp
  next
    case False
    then show ?thesis
      using inv load_work_bound [of cfg s] load_steps_work [OF run that(1)] by simp
  qed
  have report: "load_main (map answer_result (lt_answers s)) = (status, report)
      \<and> lt_sent s = word_of_nat (length (lt_answers s))" if "lt_main s = Exited status report" for status report
    using load_exited [of cfg s status report] inv that by simp
  show ?thesis
    using inv bound report load_step_enabled [of s client cfg] load_main_answers [of "lt_answers s"]
    by (auto simp: load_ended_def split: load_outcome.splits option.splits)
qed

text \<open>One worker, one request, answered 200: the run ends with one success.\<close>

theorem load_test_ends_witness:
  "\<exists>s rep. load_steps (\<lambda>_ _ _ _. GotStatus 200) \<lparr>lo_url = ''u'', lo_concurrency = 1, lo_apiKey = [], lo_modelName = ''m''\<rparr>
       [Look 0, Ask 0 [] 5, Count 0, Send 0, StopAfterDuration, Look 0, CloseResults, Receive, FinishRange]
       (load_start \<lparr>lo_url = ''u'', lo_concurrency = 1, lo_apiKey = [], lo_modelName = ''m''\<rparr>) = Some s
     \<and> lt_main s = Exited 0 (Some rep) \<and> lp_total rep = 1 \<and> lp_successful rep = 1 \<and> lp_failed rep = 0"
proof -
  let ?cfg = "\<lparr>lo_url = ''u'', lo_concurrency = 1, lo_apiKey = [], lo_modelName = ''m''\<rparr>"
  let ?es = "[Look 0, Ask 0 [] 5, Count 0, Send 0, StopAfterDuration, Look 0, CloseResults, Receive, FinishRange]"
  obtain s rep where run: "load_steps (\<lambda>_ _ _ _. GotStatus 200) ?cfg ?es (load_start ?cfg) = Some s"
    and main: "lt_main s = Exited 0 (Some rep)" and one: "lt_answers s = [(GotStatus 200, 5)]"
    by (simp add: load_start_def load_step_def worker_step_def worker_at_def set_worker_def load_round_def Let_def
        load_main_def split: prod.splits)
  show ?thesis
    using load_test_ends [OF run] run main one by auto
qed

end
