(* ===== verification/Float64.thy ===== *)
theory Float64
  imports Floats
begin

text \<open>
  Go's \<open>float64\<close> operators on finite numbers, infinities and NaN: each is the exact result rounded to 53 bits with
  ties to even, with subnormals below 2^-1022 and an infinity from 2^1024 on. A quotient is cut two bits
  below the rounding position, with a sticky bit for the rest.
\<close>

section \<open>Rounding and the operators\<close>

definition round64 :: "bool \<Rightarrow> nat \<Rightarrow> int \<Rightarrow> flt" where
  "round64 s m e =
     (if m = 0 then Fin s 0 0
      else let k = nat (max (int (bit_len m) - 53) (- 1074 - e));
               q = rne k m;
               m' = (if q = 2 ^ 53 then 2 ^ 52 else q);
               e' = e + int k + (if q = 2 ^ 53 then 1 else 0)
           in if 1024 < int (bit_len m') + e' then Inf s else Fin s m' e')"

definition signed_mag :: "bool \<Rightarrow> nat \<Rightarrow> int" where
  "signed_mag s m = (if s then - int m else int m)"

definition f64_add :: "flt \<Rightarrow> flt \<Rightarrow> flt" where
  "f64_add x y =
     (case (x, y) of
        (NaN, _) \<Rightarrow> NaN
      | (_, NaN) \<Rightarrow> NaN
      | (Inf s, Inf t) \<Rightarrow> if s = t then Inf s else NaN
      | (Inf s, Fin _ _ _) \<Rightarrow> Inf s
      | (Fin _ _ _, Inf t) \<Rightarrow> Inf t
      | (Fin s m e, Fin t n f) \<Rightarrow>
          (let g = min e f;
               a = signed_mag s (m * 2 ^ nat (e - g)) + signed_mag t (n * 2 ^ nat (f - g))
           in if a = 0 then Fin (s \<and> t) 0 0 else round64 (a < 0) (nat \<bar>a\<bar>) g))"

definition f64_minus :: "flt \<Rightarrow> flt" where
  "f64_minus x = (case x of NaN \<Rightarrow> NaN | Inf s \<Rightarrow> Inf (\<not> s) | Fin s m e \<Rightarrow> Fin (\<not> s) m e)"

definition f64_sub :: "flt \<Rightarrow> flt \<Rightarrow> flt" where
  "f64_sub x y = f64_add x (f64_minus y)"

definition f64_mul :: "flt \<Rightarrow> flt \<Rightarrow> flt" where
  "f64_mul x y =
     (case (x, y) of
        (NaN, _) \<Rightarrow> NaN
      | (_, NaN) \<Rightarrow> NaN
      | (Inf s, Inf t) \<Rightarrow> Inf (s \<noteq> t)
      | (Inf s, Fin t n f) \<Rightarrow> if n = 0 then NaN else Inf (s \<noteq> t)
      | (Fin s m e, Inf t) \<Rightarrow> if m = 0 then NaN else Inf (s \<noteq> t)
      | (Fin s m e, Fin t n f) \<Rightarrow> round64 (s \<noteq> t) (m * n) (e + f))"

definition f64_div :: "flt \<Rightarrow> flt \<Rightarrow> flt" where
  "f64_div x y =
     (case (x, y) of
        (NaN, _) \<Rightarrow> NaN
      | (_, NaN) \<Rightarrow> NaN
      | (Inf s, Inf t) \<Rightarrow> NaN
      | (Inf s, Fin t n f) \<Rightarrow> Inf (s \<noteq> t)
      | (Fin s m e, Inf t) \<Rightarrow> Fin (s \<noteq> t) 0 0
      | (Fin s m e, Fin t n f) \<Rightarrow>
          (if n = 0 then (if m = 0 then NaN else Inf (s \<noteq> t))
           else let k = 55 + bit_len n;
                    q = m * 2 ^ k div n;
                    sticky = (if m * 2 ^ k mod n = 0 then 0 else 1)
                in round64 (s \<noteq> t) (2 * q + sticky) (e - f - int k - 1)))"

text \<open>A decimal constant of the source, \<open>n / d\<close>: the nearest \<open>float64\<close>.\<close>

definition f64_const :: "int \<Rightarrow> nat \<Rightarrow> flt" where
  "f64_const n d = f64_div (Fin (n < 0) (nat \<bar>n\<bar>) 0) (Fin False d 0)"

section \<open>Rounding\<close>

lemma round64_exact:
  assumes "m \<noteq> 0" and "bit_len m \<le> 53" and "- 1074 \<le> e" and "int (bit_len m) + e \<le> 1024"
  shows "round64 s m e = Fin s m e"
proof -
  have k: "nat (max (int (bit_len m) - 53) (- 1074 - e)) = 0" and m: "m \<noteq> 2 ^ 53"
    using assms bit_len_le_iff [of m 53] by auto
  show ?thesis
    using assms m unfolding round64_def by (simp only: k Let_def) simp
qed

text \<open>Rounding an integer agrees with \<open>f64_int\<close>: the magnitude is that of \<open>round_mag 53\<close>.\<close>

lemma round64_int:
  assumes "m \<noteq> 0" and "bit_len m < 1024"
  shows "\<exists>m' e'. round64 s m 0 = Fin s m' e' \<and> 0 \<le> e' \<and> m' * 2 ^ nat e' = round_mag 53 m"
proof -
  let ?k = "bit_len m - 53"
  have k: "nat (max (int (bit_len m) - 53) (- 1074 - 0)) = ?k"
    by simp
  have "m < 2 ^ (?k + 53)"
    by (simp flip: bit_len_le_iff)
  then have q: "rne ?k m \<le> 2 ^ 53"
    by (rule rne_le_pow)
  show ?thesis
  proof (cases "rne ?k m = 2 ^ 53")
    case True
    have "0 < ?k"
      using True assms bit_len_le_iff [of m 53] by (cases "?k = 0") auto
    then have "bit_len ((2 :: nat) ^ 52) + Suc ?k \<le> 1024"
      using assms(2) unfolding bit_len_pow by linarith
    then show ?thesis
      using assms True unfolding round64_def
      by (simp only: k Let_def if_True if_False simp_thms)
        (auto simp: round_mag_def Let_def nat_add_distrib)
  next
    case False
    then have "bit_len (rne ?k m) \<le> 53"
      using q by (simp add: bit_len_le_iff)
    then have "bit_len (rne ?k m) + ?k \<le> 1024"
      using assms(2) by linarith
    then show ?thesis
      using assms False unfolding round64_def
      by (simp only: k Let_def if_True if_False simp_thms) (auto simp: round_mag_def Let_def)
  qed
qed

text \<open>
  With the sticky bit two places below the cut, rounding the truncated quotient rounds the exact one:
  the result is a nearest multiple of \<open>2^k\<close> to \<open>2 * a / n\<close>.
\<close>

lemma sticky_nearest:
  fixes a n k :: nat
  assumes "0 < n" and "2 \<le> k"
  defines "q \<equiv> 2 * (a div n) + (if a mod n = 0 then 0 else 1)"
  shows "\<bar>int (rne k q * 2 ^ k * n) - int (2 * a)\<bar> * 2 \<le> 2 ^ k * int n"
proof (cases "a mod n = 0")
  case True
  then have "q * n = 2 * a"
    using mult_div_mod_eq [of n a] by (simp add: q_def mult.commute mult.left_commute)
  then have "int (rne k q * 2 ^ k * n) - int (2 * a) = (int (rne k q * 2 ^ k) - int q) * int n"
    by (simp add: algebra_simps flip: of_nat_mult)
  then have "\<bar>int (rne k q * 2 ^ k * n) - int (2 * a)\<bar> * 2 = \<bar>int (rne k q * 2 ^ k) - int q\<bar> * 2 * int n"
    by (simp add: abs_mult)
  also have "\<dots> \<le> 2 ^ k * int n"
    by (intro mult_right_mono rne_error) simp
  finally show ?thesis .
next
  case False
  let ?d = "int (rne k q * 2 ^ k) - int q" and ?r = "int (a mod n)"
  obtain j where k: "k = Suc (Suc j)"
    using assms(2) by (metis add_2_eq_Suc le_Suc_ex)
  have "int q = 2 * int (a div n) + 1"
    using False by (simp add: q_def)
  then have "odd (?d)"
    by (simp add: k)
  moreover have "\<bar>?d\<bar> \<le> 2 * 2 ^ j"
    using rne_error [of k q] by (simp add: k)
  ultimately have d: "\<bar>?d\<bar> \<le> 2 * 2 ^ j - 1"
    by (cases "\<bar>?d\<bar> = 2 * 2 ^ j") (metis dvd_abs_iff dvd_triv_left, linarith)
  have "int a = int (a div n) * int n + ?r"
    by (metis div_mult_mod_eq of_nat_add of_nat_mult)
  then have "int q * int n - int (2 * a) = int n - 2 * ?r"
    using \<open>int q = 2 * int (a div n) + 1\<close> by (simp add: algebra_simps)
  moreover have "0 \<le> ?r" "?r < int n"
    using assms(1) by simp_all
  ultimately have rest: "\<bar>int q * int n - int (2 * a)\<bar> \<le> int n"
    by linarith
  have "int (rne k q * 2 ^ k * n) - int (2 * a) = ?d * int n + (int q * int n - int (2 * a))"
    by (simp add: algebra_simps)
  moreover have "\<bar>?d * int n\<bar> \<le> (2 * 2 ^ j - 1) * int n"
    using d by (simp add: abs_mult mult_right_mono)
  ultimately have "\<bar>int (rne k q * 2 ^ k * n) - int (2 * a)\<bar> \<le> (2 * 2 ^ j - 1) * int n + int n"
    using rest by linarith
  then show ?thesis
    by (simp add: k algebra_simps)
qed

section \<open>Magnitudes\<close>

text \<open>The number is finite and less than \<open>2^k\<close> in magnitude.\<close>

definition flt_below :: "int \<Rightarrow> flt \<Rightarrow> bool" where
  "flt_below k x = (case x of Fin s m e \<Rightarrow> m = 0 \<or> int (bit_len m) + e \<le> k | _ \<Rightarrow> False)"

lemma flt_below_finite: "flt_below k x \<Longrightarrow> is_finite x"
  by (simp add: flt_below_def is_finite_def split: flt.splits)

lemma flt_below_mono: "flt_below j x \<Longrightarrow> j \<le> k \<Longrightarrow> flt_below k x"
  by (auto simp: flt_below_def split: flt.splits)

lemma round64_below:
  assumes "int (bit_len m) + e \<le> k" and "- 1074 \<le> k" and "k \<le> 1023"
  shows "flt_below (k + 1) (round64 s m e)"
proof (cases "m = 0")
  case False
  define l where "l = nat (max (int (bit_len m) - 53) (- 1074 - e))"
  let ?q = "rne l m"
  have "m < 2 ^ (l + (bit_len m - l))"
    by (cases "l \<le> bit_len m") (auto simp flip: bit_len_le_iff)
  then have q: "?q \<le> 2 ^ (bit_len m - l)"
    by (rule rne_le_pow)
  then have "bit_len ?q \<le> Suc (bit_len m - l)"
    using bit_len_mono [OF q] by simp
  then have bq: "int (bit_len ?q) + e + int l \<le> k + 1"
    using assms(1,2) by (auto simp: l_def)
  have "bit_len ((2 :: nat) ^ 52) = 53" "bit_len ((2 :: nat) ^ 53) = 54"
    by (simp_all only: bit_len_pow)
  then have "int (bit_len (if ?q = 2 ^ 53 then 2 ^ 52 else ?q)) + (e + int l + (if ?q = 2 ^ 53 then 1 else 0)) \<le> k + 1"
    using bq by (cases "?q = 2 ^ 53") auto
  then show ?thesis
    using False assms(3) unfolding round64_def
    by (simp only: if_False Let_def flip: l_def) (auto simp: flt_below_def)
qed (simp add: round64_def flt_below_def)

lemma bit_len_mult: "bit_len (m * n) \<le> bit_len m + bit_len n"
proof (cases "m = 0 \<or> n = 0")
  case False
  then have "m < 2 ^ bit_len m" "n < 2 ^ bit_len n"
    by (simp_all flip: bit_len_le_iff)
  then have "m * n < 2 ^ bit_len m * 2 ^ bit_len n"
    by (intro mult_strict_mono) auto
  then show ?thesis
    by (simp add: bit_len_le_iff power_add)
qed auto

lemma f64_mul_below:
  assumes "flt_below j x" and "flt_below k y" and "- 1074 \<le> j + k" and "j + k \<le> 1023"
  shows "flt_below (j + k + 1) (f64_mul x y)"
proof -
  obtain s m e t n f where xy: "x = Fin s m e" "y = Fin t n f"
    using assms(1,2) by (auto simp: flt_below_def split: flt.splits)
  show ?thesis
  proof (cases "m = 0 \<or> n = 0")
    case True
    then show ?thesis
      by (auto simp: xy f64_mul_def round64_def flt_below_def)
  next
    case False
    then have "int (bit_len (m * n)) + (e + f) \<le> j + k"
      using assms(1,2) bit_len_mult [of m n] by (simp add: xy flt_below_def)
    then show ?thesis
      using round64_below [OF _ assms(3,4)] by (simp add: xy f64_mul_def)
  qed
qed

lemma scaled_below:
  assumes "m = 0 \<or> int (bit_len m) + e \<le> k" and "g \<le> e" and "g \<le> k"
  shows "m * 2 ^ nat (e - g) < 2 ^ nat (k - g)"
proof (cases "m = 0")
  case False
  then have "bit_len m + nat (e - g) \<le> nat (k - g)"
    using assms by linarith
  then have "(2 :: nat) ^ (bit_len m + nat (e - g)) \<le> 2 ^ nat (k - g)"
    by (intro power_increasing) auto
  moreover have "m * 2 ^ nat (e - g) < 2 ^ bit_len m * 2 ^ nat (e - g)"
    by (simp flip: bit_len_le_iff)
  ultimately show ?thesis
    unfolding power_add by (rule less_le_trans [rotated])
qed simp

lemma signed_mag_sum: "u < b \<Longrightarrow> v < b \<Longrightarrow> nat \<bar>signed_mag s u + signed_mag t v\<bar> < 2 * b"
  unfolding signed_mag_def by (cases s; cases t; simp; linarith)

lemma f64_add_below:
  assumes "flt_below k x" and "flt_below k y" and "- 1075 \<le> k" and "k \<le> 1022"
  shows "flt_below (k + 2) (f64_add x y)"
proof -
  obtain s m e t n f where xy: "x = Fin s m e" "y = Fin t n f"
    using assms(1,2) by (auto simp: flt_below_def split: flt.splits)
  define g where "g = min e f"
  define a where "a = signed_mag s (m * 2 ^ nat (e - g)) + signed_mag t (n * 2 ^ nat (f - g))"
  have sum: "f64_add x y = (if a = 0 then Fin (s \<and> t) 0 0 else round64 (a < 0) (nat \<bar>a\<bar>) g)"
    by (simp add: xy f64_add_def Let_def a_def g_def)
  show ?thesis
  proof (cases "a = 0")
    case False
    then have gk: "g \<le> k"
    proof -
      have "m \<noteq> 0 \<or> n \<noteq> 0"
        using False by (cases "m = 0"; cases "n = 0") (simp_all add: a_def signed_mag_def split: if_splits)
      then show ?thesis
        using assms(1,2) bit_len_bounds(3) [of m] bit_len_bounds(3) [of n] by (auto simp: xy flt_below_def g_def)
    qed
    have "m * 2 ^ nat (e - g) < 2 ^ nat (k - g)" "n * 2 ^ nat (f - g) < 2 ^ nat (k - g)"
      using assms(1,2) gk by (intro scaled_below; simp add: xy flt_below_def g_def)+
    then have "nat \<bar>a\<bar> < 2 * 2 ^ nat (k - g)"
      unfolding a_def by (rule signed_mag_sum)
    then have "bit_len (nat \<bar>a\<bar>) \<le> Suc (nat (k - g))"
      by (simp add: bit_len_le_iff)
    then have "int (bit_len (nat \<bar>a\<bar>)) + g \<le> k + 1"
      using gk by linarith
    from round64_below [OF this] show ?thesis
      using assms(3,4) False by (simp add: sum add.commute)
  qed (simp add: sum flt_below_def)
qed

lemma f64_div_below:
  assumes "flt_below j x" and "n \<noteq> 0" and "int (bit_len n) + f = i" and "- 1075 \<le> j - i" and "j - i \<le> 1022"
  shows "flt_below (j - i + 2) (f64_div x (Fin t n f))"
proof -
  obtain s m e where x: "x = Fin s m e"
    using assms(1) by (auto simp: flt_below_def split: flt.splits)
  define k where "k = 55 + bit_len n"
  define r :: nat where "r = 2 * (m * 2 ^ k div n) + (if m * 2 ^ k mod n = 0 then 0 else 1)"
  have div: "f64_div x (Fin t n f) = round64 (s \<noteq> t) r (e - f - int k - 1)"
    using assms(2) by (simp add: x f64_div_def Let_def k_def r_def)
  show ?thesis
  proof (cases "m = 0")
    case True
    then show ?thesis
      by (simp add: div r_def round64_def flt_below_def)
  next
    case False
    have n: "2 ^ (bit_len n - 1) \<le> n" "bit_len n \<noteq> 0"
      using assms(2) bit_len_bounds(1,3) [of n] by auto
    have "m * 2 ^ k < 2 ^ bit_len m * 2 ^ k"
      by (simp flip: bit_len_le_iff)
    also have "\<dots> = 2 ^ (bit_len m + k + 1 - bit_len n) * 2 ^ (bit_len n - 1)"
      using n(2) by (simp add: k_def flip: power_add)
    also have "\<dots> \<le> 2 ^ (bit_len m + k + 1 - bit_len n) * n"
      using n(1) by simp
    finally have "m * 2 ^ k div n < 2 ^ (bit_len m + k + 1 - bit_len n)"
      using assms(2) by (simp add: div_less_iff_less_mult)
    then have "r < 2 ^ Suc (bit_len m + k + 1 - bit_len n)"
      by (simp add: r_def)
    then have "bit_len r \<le> Suc (bit_len m + k + 1 - bit_len n)"
      by (simp only: bit_len_le_iff)
    then have "int (bit_len r) + (e - f - int k - 1) \<le> j - i + 1"
      using assms(1,3) False n(2) by (simp add: x flt_below_def k_def)
    from round64_below [OF this] show ?thesis
      using assms(4,5) by (simp add: div add.commute)
  qed
qed

text \<open>Overflow gives an infinity, never NaN.\<close>

lemma round64_not_NaN [simp]: "round64 s m e \<noteq> NaN"
  by (simp add: round64_def Let_def)

lemma f64_mul_not_NaN: "is_finite x \<Longrightarrow> is_finite y \<Longrightarrow> f64_mul x y \<noteq> NaN"
  by (simp add: f64_mul_def is_finite_def split: flt.splits)

lemma f64_add_not_NaN: "is_finite x \<Longrightarrow> y \<noteq> NaN \<Longrightarrow> f64_add x y \<noteq> NaN"
  by (simp add: f64_add_def is_finite_def Let_def split: flt.splits)

end
