(* ===== verification/Vehicle.thy ===== *)
theory Vehicle
  imports Fleet Float64
begin

text \<open>
  What a vehicle measures (\<open>services/fleet-simulator-go/internal/vehicle/vehicle.go\<close>): \<open>Run\<close> with its
  random generator and the \<open>float64\<close> arithmetic of the readings, on top of the tick of \<open>Fleet\<close>, which takes the
  features as an input.

  The generator of \<open>math/rand\<close> is a parameter, a record of functions on its state, and so is \<open>math.Sin\<close>. The
  fused multiply-add a compiler may use is not assumed. Vehicle ids are ASCII, so their runes are their
  bytes.
\<close>

section \<open>The generator and the readings\<close>

record 'g rand_source =
  rs_New :: "int64 \<Rightarrow> 'g"
  rs_Float64 :: "'g \<Rightarrow> flt \<times> 'g"
  rs_NormFloat64 :: "'g \<Rightarrow> flt \<times> 'g"
  rs_Draw :: "'g \<Rightarrow> nat \<times> 'g"

definition ascii_runes :: "string \<Rightarrow> int32 list" where
  "ascii_runes s = map (\<lambda>c. word_of_nat (of_char c)) s"

record telemetryFrame =
  tf_VehicleID :: string
  tf_Speed :: flt
  tf_Accel :: flt
  tf_SteeringDeg :: flt
  tf_Lat :: flt
  tf_Lon :: flt

record 'g vehicle_state =
  vs_tick :: go_int
  vs_lat :: flt
  vs_lon :: flt
  vs_rng :: 'g

text \<open>\<open>float64(tick)\<close>.\<close>

definition float_of_tick :: "go_int \<Rightarrow> flt" where
  "float_of_tick tick = (let x = f64_int (sint tick) in Fin (x < 0) (nat \<bar>x\<bar>) 0)"

definition start_position :: "'g rand_source \<Rightarrow> 'g \<Rightarrow> (flt \<times> flt) \<times> 'g" where
  "start_position R g =
     (let (u, g1) = rs_Float64 R g; (v, g2) = rs_Float64 R g1; half = Fin False 1 (- 1)
      in ((f64_add (f64_const 374 10) (f64_mul u half), f64_sub (f64_const (- 1221) 10) (f64_mul v half)), g2))"

text \<open>The readings of one tick, in the order of the draws.\<close>

definition measure_tick ::
  "'g rand_source \<Rightarrow> (flt \<Rightarrow> flt) \<Rightarrow> vehicle_config \<Rightarrow> go_int \<Rightarrow> flt \<Rightarrow> flt \<Rightarrow> 'g \<Rightarrow> telemetryFrame \<times> 'g"
where
  "measure_tick R sin cfg tick lat lon g =
     (let (n1, g1) = rs_NormFloat64 R g;
          speed = f64_add (f64_add (Fin False 40 0)
                    (f64_mul (Fin False 30 0) (sin (f64_div (float_of_tick tick) (Fin False 10 0)))))
                    (f64_mul n1 (Fin False 3 0));
          (n2, g2) = rs_NormFloat64 R g1;
          accel = f64_mul n2 (Fin False 3 (- 1));
          (n3, g3) = rs_NormFloat64 R g2;
          steering = f64_mul n3 (Fin False 5 0);
          (n4, g4) = rs_NormFloat64 R g3;
          lat' = f64_add lat (f64_mul n4 (f64_const 5 10000));
          (n5, g5) = rs_NormFloat64 R g4;
          lon' = f64_add lon (f64_mul n5 (f64_const 5 10000))
      in (\<lparr>tf_VehicleID = vc_ID cfg, tf_Speed = speed, tf_Accel = accel, tf_SteeringDeg = steering,
           tf_Lat = lat', tf_Lon = lon'\<rparr>, g5))"

definition infer_due :: "vehicle_config \<Rightarrow> go_int \<Rightarrow> bool" where
  "infer_due cfg tick \<longleftrightarrow> 0 < sint (vc_InferEvery cfg) \<and> go_rem tick (vc_InferEvery cfg) = 0"

text \<open>The features, two more draws, only for a request.\<close>

definition draw_features :: "'g rand_source \<Rightarrow> vehicle_config \<Rightarrow> go_int \<Rightarrow> telemetryFrame \<Rightarrow> 'g \<Rightarrow> flt list \<times> 'g" where
  "draw_features R cfg tick frame g =
     (if infer_due cfg tick
      then (let (n6, g6) = rs_NormFloat64 R g; (n7, g7) = rs_NormFloat64 R g6
            in ([tf_Speed frame, tf_Accel frame, tf_SteeringDeg frame, n6, n7], g7))
      else ([], g))"

section \<open>The loop with its measurements\<close>

text \<open>One tick: the new state, the report and the features of the request, if one was sent.\<close>

definition drive_tick ::
  "'g rand_source \<Rightarrow> (flt \<Rightarrow> flt) \<Rightarrow> (string \<Rightarrow> string \<Rightarrow> body \<Rightarrow> client_result) \<Rightarrow> vehicle_config \<Rightarrow> 'g vehicle_state
     \<Rightarrow> 'g vehicle_state \<times> Stats \<times> flt list option"
where
  "drive_tick R sin client cfg st =
     (let (frame, g) = measure_tick R sin cfg (vs_tick st + 1) (vs_lat st) (vs_lon st) (vs_rng st);
          (features, g') = draw_features R cfg (vs_tick st + 1) frame g;
          (tick, delta, sent) = vehicle_tick client cfg features (vs_tick st)
      in (\<lparr>vs_tick = tick, vs_lat = tf_Lat frame, vs_lon = tf_Lon frame, vs_rng = g'\<rparr>, delta,
          if sent then Some features else None))"

text \<open>What the \<open>select\<close> finds: the end of the context, or a tick and whether the stats channel has room.\<close>

datatype drive_choice = DriveDone | DriveTick bool

fun drive_loop ::
  "'g rand_source \<Rightarrow> (flt \<Rightarrow> flt) \<Rightarrow> (string \<Rightarrow> string \<Rightarrow> body \<Rightarrow> client_result) \<Rightarrow> vehicle_config \<Rightarrow> drive_choice list
     \<Rightarrow> 'g vehicle_state \<times> Stats list \<times> flt list list \<Rightarrow> consume_status \<times> 'g vehicle_state \<times> Stats list \<times> flt list list"
where
  "drive_loop R sin client cfg [] x = (Running, x)"
| "drive_loop R sin client cfg (DriveDone # cs) x = (Returned, x)"
| "drive_loop R sin client cfg (DriveTick room # cs) (st, reports, requests) =
     (let (st', delta, features) = drive_tick R sin client cfg st in
      drive_loop R sin client cfg cs
        (st', if room then reports @ [delta] else reports,
         case features of None \<Rightarrow> requests | Some fs \<Rightarrow> requests @ [fs]))"

text \<open>\<open>Run\<close>: the generator seeded by the id, the position, the ticker's period, the loop.\<close>

definition drive_Run ::
  "'g rand_source \<Rightarrow> (flt \<Rightarrow> flt) \<Rightarrow> (string \<Rightarrow> string \<Rightarrow> body \<Rightarrow> client_result) \<Rightarrow> vehicle_config \<Rightarrow> drive_choice list
     \<Rightarrow> (int64 \<times> consume_status \<times> 'g vehicle_state \<times> Stats list \<times> flt list list) run"
where
  "drive_Run R sin client cfg cs =
     (let ((lat, lon), g) = start_position R (rs_New R (vehicle_hash (ascii_runes (vc_ID cfg))));
          (draw, g') = rs_Draw R g
      in case jitter draw (vc_TelemetryPeriod cfg) of
           None \<Rightarrow> Panicked
         | Some period \<Rightarrow>
             Done (period, drive_loop R sin client cfg cs (\<lparr>vs_tick = 0, vs_lat = lat, vs_lon = lon, vs_rng = g'\<rparr>, [], [])))"

section \<open>The loop is the loop of \<open>Fleet\<close>\<close>

text \<open>The ticks of a run with the features measured at them.\<close>

fun fleet_choices ::
  "'g rand_source \<Rightarrow> (flt \<Rightarrow> flt) \<Rightarrow> (string \<Rightarrow> string \<Rightarrow> body \<Rightarrow> client_result) \<Rightarrow> vehicle_config \<Rightarrow> drive_choice list
     \<Rightarrow> 'g vehicle_state \<Rightarrow> vehicle_choice list"
where
  "fleet_choices R sin client cfg [] st = []"
| "fleet_choices R sin client cfg (DriveDone # cs) st = [VehicleDone]"
| "fleet_choices R sin client cfg (DriveTick room # cs) st =
     (let (frame, g) = measure_tick R sin cfg (vs_tick st + 1) (vs_lat st) (vs_lon st) (vs_rng st)
      in VehicleTicks (fst (draw_features R cfg (vs_tick st + 1) frame g)) room
           # fleet_choices R sin client cfg cs (fst (drive_tick R sin client cfg st)))"

lemma drive_refines:
  assumes "drive_loop R sin client cfg cs (st, reports, requests) = (status, st', reports', requests')"
  shows "vehicle_loop client cfg (fleet_choices R sin client cfg cs st) (vs_tick st, reports, length requests)
    = (status, vs_tick st', reports', length requests')"
  using assms
proof (induction cs arbitrary: st reports requests)
  case (Cons c cs)
  show ?case
  proof (cases c)
    case (DriveTick room)
    obtain frame g where m: "measure_tick R sin cfg (vs_tick st + 1) (vs_lat st) (vs_lon st) (vs_rng st) = (frame, g)"
      by force
    obtain fs g' where f: "draw_features R cfg (vs_tick st + 1) frame g = (fs, g')"
      by force
    obtain tick delta sent where t: "vehicle_tick client cfg fs (vs_tick st) = (tick, delta, sent)"
      by (metis prod_cases3)
    show ?thesis
      using Cons.prems Cons.IH
      by (cases sent) (fastforce simp: DriveTick drive_tick_def m f t Let_def)+
  qed (use Cons.prems in simp)
qed simp

lemma fleet_choices_ticks:
  "\<exists>ticks st'. (\<forall>rest. fleet_choices R sin client cfg (map DriveTick rooms @ rest) st
        = ticks @ fleet_choices R sin client cfg rest st')
    \<and> VehicleDone \<notin> set ticks \<and> map tick_has_room ticks = rooms"
proof (induction rooms arbitrary: st)
  case Nil
  show ?case
    by (intro exI [of _ "[]"] exI [of _ st]) simp
next
  case (Cons room rooms)
  obtain ticks st' where "\<forall>rest. fleet_choices R sin client cfg (map DriveTick rooms @ rest)
        (fst (drive_tick R sin client cfg st)) = ticks @ fleet_choices R sin client cfg rest st'"
    and "VehicleDone \<notin> set ticks" "map tick_has_room ticks = rooms"
    using Cons.IH by blast
  then show ?case
    by (intro exI [of _ "VehicleTicks (fst (case_prod (draw_features R cfg (vs_tick st + 1))
            (measure_tick R sin cfg (vs_tick st + 1) (vs_lat st) (vs_lon st) (vs_rng st)))) room # ticks"] exI [of _ st'])
      (simp add: case_prod_beta Let_def)
qed

section \<open>The readings are finite\<close>

text \<open>
  What Go documents of the functions used: a normal draw is a finite number of any magnitude, the sine of a finite
  number is at most one (here: less than two), and that of an infinity or of NaN is NaN.
\<close>

definition rand_documented :: "'g rand_source \<Rightarrow> (flt \<Rightarrow> flt) \<Rightarrow> bool" where
  "rand_documented R sin \<longleftrightarrow> (\<forall>g. is_finite (fst (rs_NormFloat64 R g))) \<and>
     (\<forall>x. if is_finite x then flt_below 1 (sin x) else sin x = NaN)"

text \<open>Draws whose multiples do not overflow: three times the largest \<open>float64\<close> would.\<close>

definition moderate_draws :: "'g rand_source \<Rightarrow> bool" where
  "moderate_draws R \<longleftrightarrow> (\<forall>g. flt_below 1000 (fst (rs_NormFloat64 R g)))"

lemma small_constants:
  "flt_below 6 (Fin False 40 0)" "flt_below 5 (Fin False 30 0)" "flt_below 2 (Fin False 3 0)"
  "flt_below 1 (Fin False 3 (- 1))" "flt_below 3 (Fin False 5 0)"
  by (simp_all add: flt_below_def bit_len.simps)

text \<open>The argument of the sine is finite at every tick.\<close>

lemma float_of_tick_below: "flt_below 64 (float_of_tick tick)"
proof -
  have "nat \<bar>sint tick\<bar> \<le> 2 ^ 63"
    using sint64_range [of tick] by simp
  then have "round_mag 53 (nat \<bar>sint tick\<bar>) \<le> round_mag 53 (2 ^ 63)"
    by (intro round_mag_mono) simp_all
  moreover have "round_mag 53 (2 ^ 63) = (2 :: nat) ^ 63"
    using bit_len_pow [of 63] by (simp add: round_mag_def rne_def Let_def)
  ultimately have "nat \<bar>f64_int (sint tick)\<bar> < 2 ^ 64"
    by (auto simp: f64_int_def abs_mult sgn_if)
  then show ?thesis
    unfolding float_of_tick_def Let_def flt_below_def by (simp add: bit_len_le_iff)
qed

lemma tick_angle_finite: "is_finite (f64_div (float_of_tick tick) (Fin False 10 0))"
proof -
  have "flt_below (64 - 4 + 2) (f64_div (float_of_tick tick) (Fin False 10 0))"
    by (rule f64_div_below [OF float_of_tick_below]) (simp_all add: bit_len.simps)
  then show ?thesis
    by (rule flt_below_finite)
qed

lemma base_speed_below:
  assumes "rand_documented R sin"
  shows "flt_below 9 (f64_add (Fin False 40 0)
    (f64_mul (Fin False 30 0) (sin (f64_div (float_of_tick tick) (Fin False 10 0)))))"
proof -
  let ?wave = "f64_mul (Fin False 30 0) (sin (f64_div (float_of_tick tick) (Fin False 10 0)))"
  have "flt_below 1 (sin (f64_div (float_of_tick tick) (Fin False 10 0)))"
    using assms tick_angle_finite by (simp add: rand_documented_def)
  from f64_mul_below [OF small_constants(2) this] have "flt_below 7 ?wave"
    by simp
  from f64_add_below [OF flt_below_mono [OF small_constants(1)] this] show ?thesis
    by simp
qed

lemma measured_not_NaN:
  assumes "rand_documented R sin" and "measure_tick R sin cfg tick lat lon g = (frame, g')"
  shows "tf_Speed frame \<noteq> NaN" and "tf_Accel frame \<noteq> NaN" and "tf_SteeringDeg frame \<noteq> NaN"
proof -
  have n: "is_finite (fst (rs_NormFloat64 R g))" for g
    using assms(1) by (simp add: rand_documented_def)
  have "f64_mul (fst (rs_NormFloat64 R g)) (Fin s m e) \<noteq> NaN" for g s m e
    by (rule f64_mul_not_NaN [OF n]) (simp add: is_finite_def)
  moreover have frame: "frame = fst (measure_tick R sin cfg tick lat lon g)"
    using assms(2) by simp
  ultimately show "tf_Speed frame \<noteq> NaN" "tf_Accel frame \<noteq> NaN" "tf_SteeringDeg frame \<noteq> NaN"
    using f64_add_not_NaN [OF flt_below_finite [OF base_speed_below [OF assms(1)]]]
    unfolding frame measure_tick_def by (simp_all add: case_prod_beta Let_def)
qed

lemma measured_below:
  assumes "rand_documented R sin" and "moderate_draws R" and "measure_tick R sin cfg tick lat lon g = (frame, g')"
  shows "flt_below 1006 (tf_Speed frame)" and "flt_below 1006 (tf_Accel frame)" and "flt_below 1006 (tf_SteeringDeg frame)"
proof -
  have n: "flt_below 1000 (fst (rs_NormFloat64 R g))" for g
    using assms(2) by (simp add: moderate_draws_def)
  have noise: "flt_below 1003 (f64_mul (fst (rs_NormFloat64 R g)) (Fin False 3 0))" for g
    using f64_mul_below [OF n [of g] small_constants(3)] by simp
  have speed: "flt_below 1005 (f64_add (f64_add (Fin False 40 0) (f64_mul (Fin False 30 0)
      (sin (f64_div (float_of_tick tick) (Fin False 10 0))))) (f64_mul (fst (rs_NormFloat64 R g)) (Fin False 3 0)))" for g
    using f64_add_below [OF flt_below_mono [OF base_speed_below [OF assms(1)]] noise [of g]] by simp
  have accel: "flt_below 1002 (f64_mul (fst (rs_NormFloat64 R g)) (Fin False 3 (- 1)))" for g
    using f64_mul_below [OF n [of g] small_constants(4)] by simp
  have steering: "flt_below 1004 (f64_mul (fst (rs_NormFloat64 R g)) (Fin False 5 0))" for g
    using f64_mul_below [OF n [of g] small_constants(5)] by simp
  have frame: "frame = fst (measure_tick R sin cfg tick lat lon g)"
    using assms(3) by simp
  show "flt_below 1006 (tf_Speed frame)" "flt_below 1006 (tf_Accel frame)" "flt_below 1006 (tf_SteeringDeg frame)"
    unfolding frame measure_tick_def
    using flt_below_mono [OF speed, of 1006] flt_below_mono [OF accel, of 1006] flt_below_mono [OF steering, of 1006]
    by (simp_all add: case_prod_beta Let_def)
qed

text \<open>What a request carries: five numbers, finite ones if the draws are moderate.\<close>

definition five_readings :: "'g rand_source \<Rightarrow> flt list \<Rightarrow> bool" where
  "five_readings R fs \<longleftrightarrow> length fs = 5 \<and> NaN \<notin> set fs \<and> (moderate_draws R \<longrightarrow> list_all is_finite fs)"

lemma drive_tick_readings:
  assumes "rand_documented R sin" and "drive_tick R sin client cfg st = (st', delta, Some fs)"
  shows "five_readings R fs"
proof -
  obtain frame g where m: "measure_tick R sin cfg (vs_tick st + 1) (vs_lat st) (vs_lon st) (vs_rng st) = (frame, g)"
    by force
  have norm: "is_finite (fst (rs_NormFloat64 R h))" for h
    using assms(1) by (simp add: rand_documented_def)
  have "five_readings R [tf_Speed frame, tf_Accel frame, tf_SteeringDeg frame, x, y]" if "is_finite x" "is_finite y" for x y
    using that measured_not_NaN [OF assms(1) m] flt_below_finite [OF measured_below(1) [OF assms(1) _ m]]
      flt_below_finite [OF measured_below(2) [OF assms(1) _ m]] flt_below_finite [OF measured_below(3) [OF assms(1) _ m]]
    by (auto simp: five_readings_def is_finite_def)
  then have "five_readings R (fst (draw_features R cfg (vs_tick st + 1) frame g))" if "infer_due cfg (vs_tick st + 1)"
    using that norm by (simp add: draw_features_def case_prod_beta Let_def)
  moreover have "infer_due cfg (vs_tick st + 1)" and "fs = fst (draw_features R cfg (vs_tick st + 1) frame g)"
    using assms(2) m
    by (auto simp: drive_tick_def vehicle_tick_def infer_due_def case_prod_beta Let_def split: if_splits)
  ultimately show ?thesis
    by simp
qed

lemma drive_loop_readings:
  assumes "rand_documented R sin"
  shows "drive_loop R sin client cfg cs (st, reports, requests) = (status, st', reports', requests') \<Longrightarrow>
    list_all (five_readings R) requests \<Longrightarrow> list_all (five_readings R) requests'"
proof (induction cs arbitrary: st reports requests)
  case (Cons c cs)
  show ?case
  proof (cases c)
    case (DriveTick room)
    obtain st1 delta fs where t: "drive_tick R sin client cfg st = (st1, delta, fs)"
      by (metis prod_cases3)
    show ?thesis
      using Cons.prems Cons.IH drive_tick_readings [OF assms, of client cfg st st1 delta]
      by (cases fs) (auto simp: DriveTick t)
  qed (use Cons.prems in simp)
qed simp

lemma drive_loop_done:
  "drive_loop R sin client cfg (map DriveTick rooms @ DriveDone # rest) x
     = (Returned, snd (drive_loop R sin client cfg (map DriveTick rooms) x))"
proof (induction rooms arbitrary: x)
  case (Cons room rooms)
  then show ?case
    by (cases x) (simp add: case_prod_beta Let_def)
qed simp

lemma drive_loop_counts:
  assumes "0 < sint (vc_InferEvery cfg)" and "int (length rooms) < 2 ^ 63" and "vs_tick st = 0"
    and run: "drive_loop R sin client cfg (map DriveTick rooms) (st, [], []) = (status, st', reports, requests)"
  shows "vs_tick st' = word_of_nat (length rooms)"
    and "length requests = length rooms div nat (sint (vc_InferEvery cfg))"
    and "list_all report_ok reports" and "length reports = length (filter id rooms)"
proof -
  obtain ticks where ticks: "fleet_choices R sin client cfg (map DriveTick rooms) st = ticks"
    and no: "VehicleDone \<notin> set ticks" and rooms: "map tick_has_room ticks = rooms"
    using fleet_choices_ticks [of R sin client cfg rooms st]
    by (metis append_Nil2 fleet_choices.simps(1))
  have len: "length ticks = length rooms" "length (filter tick_has_room ticks) = length (filter id rooms)"
    by (auto simp: rooms [symmetric] filter_map)
  have "vehicle_requests client cfg (map tick_features ticks) 0 = length rooms div nat (sint (vc_InferEvery cfg))"
    using vehicle_requests_div [OF assms(1), of 0 "map tick_features ticks" client] assms(2) len by simp
  then obtain new where "vehicle_loop client cfg ticks (0, [], 0)
      = (Running, word_of_nat (length rooms), new, length rooms div nat (sint (vc_InferEvery cfg)))"
    and "list_all report_ok new" "length new = length (filter id rooms)"
    using vehicle_loop_counts [OF no, of client cfg 0 "[]" 0] len
    by (auto dest!: spec [of _ "[]"])
  moreover have "vehicle_loop client cfg ticks (0, [], 0) = (status, vs_tick st', reports, length requests)"
    using drive_refines [OF run] assms(3) ticks by simp
  ultimately show "vs_tick st' = word_of_nat (length rooms)"
    and "length requests = length rooms div nat (sint (vc_InferEvery cfg))"
    and "list_all report_ok reports" and "length reports = length (filter id rooms)"
    by simp_all
qed

text \<open>The gateway's checks on a vehicle's body.\<close>

lemma body_checked:
  assumes "length fs = 5"
  shows "checked_request (vehicle_body cfg fs) =
    (if list_all is_finite fs
     then Inr \<lparr>iq_VehicleID = vc_ID cfg, iq_ModelName = ''driving-event-classifier'', iq_ModelVersion = [],
       iq_Precision = ''fp32'', iq_Features = fs, iq_Priority = ''normal''\<rparr>
     else Inl (http_Error ''{\"error\":\"invalid json body\"}'' 400))"
proof (cases "list_all is_finite fs")
  case True
  then show ?thesis
    using assms by (auto simp: vehicle_body_def marshal_request_def intro!: gateway_accepts_body)
next
  case False
  then show ?thesis
    by (simp add: vehicle_body_def marshal_request_def checked_request_def decode_infer_def decode_struct_def)
qed

text \<open>A generator and a sine, the latter as coarse as the documentation allows.\<close>

definition demo_source :: "unit rand_source" where
  "demo_source = \<lparr>rs_New = \<lambda>seed. (), rs_Float64 = \<lambda>g. (Fin False 0 0, g), rs_NormFloat64 = \<lambda>g. (Fin False 1 0, g),
     rs_Draw = \<lambda>g. (7, g)\<rparr>"

definition demo_sin :: "flt \<Rightarrow> flt" where
  "demo_sin x = (if is_finite x then Fin False 0 0 else NaN)"

section \<open>Properties\<close>

text \<open>C40: the life of a vehicle, with its random generator and its \<open>float64\<close> readings: with a period of at least
  two nanoseconds it survives its start, draws its telemetry period from the upper half of the configured one,
  and after k ticks has sent k divided by \<open>InferEvery\<close> requests and reported each tick the channel had room
  for, once; when the context ends it returns at once. With a shorter period it panics. As far as \<open>math.Sin\<close> and
  \<open>NormFloat64\<close> do what is documented, each request has five features, none of them NaN, and the gateway's checks accept
  its body exactly if all are finite: an infinity, the product of a draw close to the largest
  \<open>float64\<close>, cannot be encoded, and the error of the encoding is ignored. Draws below 2^1000 give finite features only.\<close>

theorem vehicle_drives:
  assumes "0 < sint (vc_InferEvery cfg)" and "int (length rooms) < 2 ^ 63"
    and "- (2 ^ 63) < sint (vc_TelemetryPeriod cfg)" and "rand_documented R sin"
  shows "if sint (vc_TelemetryPeriod cfg) < 2
    then drive_Run R sin client cfg cs = Panicked
    else (\<exists>period st reports requests.
      (\<forall>rest. drive_Run R sin client cfg (map DriveTick rooms @ DriveDone # rest)
          = Done (period, Returned, st, reports, requests))
      \<and> sint (vc_TelemetryPeriod cfg) div 2 \<le> sint period \<and> sint period < 2 * (sint (vc_TelemetryPeriod cfg) div 2)
      \<and> vs_tick st = word_of_nat (length rooms)
      \<and> length requests = length rooms div nat (sint (vc_InferEvery cfg))
      \<and> list_all report_ok reports \<and> length reports = length (filter id rooms)
      \<and> list_all (\<lambda>fs. length fs = 5 \<and> NaN \<notin> set fs \<and> checked_request (vehicle_body cfg fs) =
          (if list_all is_finite fs
           then Inr \<lparr>iq_VehicleID = vc_ID cfg, iq_ModelName = ''driving-event-classifier'', iq_ModelVersion = [],
             iq_Precision = ''fp32'', iq_Features = fs, iq_Priority = ''normal''\<rparr>
           else Inl (http_Error ''{\"error\":\"invalid json body\"}'' 400))) requests
      \<and> (moderate_draws R \<longrightarrow> list_all (list_all is_finite) requests))"
proof -
  obtain lat lon g where pos: "start_position R (rs_New R (vehicle_hash (ascii_runes (vc_ID cfg)))) = ((lat, lon), g)"
    by (metis prod.exhaust)
  obtain draw g' where draw: "rs_Draw R g = (draw, g')"
    by force
  define st where "st = \<lparr>vs_tick = 0, vs_lat = lat, vs_lon = lon, vs_rng = g'\<rparr>"
  show ?thesis
  proof (cases "sint (vc_TelemetryPeriod cfg) < 2")
    case True
    then show ?thesis
      using jitter_panics [OF True assms(3), of draw] by (simp add: drive_Run_def pos draw)
  next
    case False
    then obtain period where period: "jitter draw (vc_TelemetryPeriod cfg) = Some period"
      "sint (vc_TelemetryPeriod cfg) div 2 \<le> sint period" "sint period < 2 * (sint (vc_TelemetryPeriod cfg) div 2)"
      using jitter_range [of "vc_TelemetryPeriod cfg" draw] by auto
    obtain status st' reports requests
      where run: "drive_loop R sin client cfg (map DriveTick rooms) (st, [], []) = (status, st', reports, requests)"
      by (metis prod.exhaust)
    have five: "list_all (five_readings R) requests"
      using drive_loop_readings [OF assms(4) run] by simp
    then have "list_all (\<lambda>fs. length fs = 5 \<and> NaN \<notin> set fs \<and> checked_request (vehicle_body cfg fs) =
          (if list_all is_finite fs
           then Inr \<lparr>iq_VehicleID = vc_ID cfg, iq_ModelName = ''driving-event-classifier'', iq_ModelVersion = [],
             iq_Precision = ''fp32'', iq_Features = fs, iq_Priority = ''normal''\<rparr>
           else Inl (http_Error ''{\"error\":\"invalid json body\"}'' 400))) requests"
      using body_checked by (auto simp: list_all_iff five_readings_def)
    moreover have "moderate_draws R \<longrightarrow> list_all (list_all is_finite) requests"
      using five by (auto simp: list_all_iff five_readings_def)
    moreover have "drive_Run R sin client cfg (map DriveTick rooms @ DriveDone # rest)
        = Done (period, Returned, st', reports, requests)" for rest
      by (simp add: drive_Run_def pos draw period drive_loop_done run flip: st_def)
    ultimately show ?thesis
      using False period drive_loop_counts [OF assms(1,2) _ run] by (auto simp: st_def)
  qed
qed

theorem vehicle_drives_witness:
  "\<exists>period st reports requests.
     drive_Run demo_source demo_sin (\<lambda>_ _ _. GotStatus 200)
       \<lparr>vc_ID = ''v'', vc_GatewayURL = [], vc_APIKey = [], vc_TelemetryPeriod = 1000000000, vc_InferEvery = 5\<rparr>
       (map DriveTick (replicate 12 True) @ [DriveDone]) = Done (period, Returned, st, reports, requests)
     \<and> length requests = 2 \<and> length reports = 12 \<and> list_all (list_all is_finite) requests"
proof -
  have "rand_documented demo_source demo_sin" "moderate_draws demo_source"
    by (simp_all add: rand_documented_def moderate_draws_def demo_source_def demo_sin_def flt_below_def is_finite_def bit_len.simps)
  then show ?thesis
    using vehicle_drives [where R = demo_source and sin = demo_sin and client = "\<lambda>_ _ _. GotStatus 200"
        and cfg = "\<lparr>vc_ID = ''v'', vc_GatewayURL = [], vc_APIKey = [], vc_TelemetryPeriod = 1000000000, vc_InferEvery = 5\<rparr>"
        and rooms = "replicate 12 True"]
    by (fastforce simp: filter_replicate simp del: map_replicate)
qed

end
