(* ===== verification/Spec2Isabelle.thy ===== *)
theory Spec2Isabelle
  imports Router RedisReplicas KafkaRun ConcurrentDeploys Services LoadRun Vehicle
begin

text \<open>
  This development models the Go services of the distributed inference platform and proves what
  they do to requests, jobs and model versions.

  The program. Clients call the gateway (\<open>services/gateway-go\<close>), which checks API keys, limits
  rates, and either calls the router synchronously (\<open>POST /v1/infer\<close>) or queues a job
  (\<open>POST /v1/jobs\<close>). The scheduler (\<open>services/scheduler-go\<close>) consumes jobs, calls the router, and
  publishes results, retries or dead-letters. The router (\<open>services/router-go\<close>) keeps a registry of
  live workers and forwards each request to the best one over HTTP. The model deployer
  (\<open>services/model-deployer-go\<close>) keeps model versions in two SQL tables. The fleet simulator and the
  load-test tool are clients of the gateway. \<open>shared/\<close> holds the data types, the queue, the
  configuration and the metrics middleware.

  The theories, from the data upwards:
    - \<open>Prelude\<close>, \<open>Floats\<close>, \<open>Decimal\<close>: Go's integers as words, \<open>float64\<close> and \<open>float32\<close> as exact
      dyadic numbers with rounding, the hand-written \<open>itoa\<close> loops against \<open>strconv\<close>.
    - \<open>Models\<close>, \<open>Json\<close>: the structs and enumerations of \<open>shared/pkg/models\<close> and \<open>shared/proto\<close>, and
      \<open>encoding/json\<close> on them from the level of parsed values: unknown keys, type errors, defaults.
    - \<open>Selector\<close>, \<open>WorkerPool\<close>, \<open>WorkerRegistry\<close>, \<open>RouterServer\<close>, \<open>Router\<close>: the router. The
      registry is a heap of worker objects and a map of pointers, since \<open>Snapshot\<close> hands out
      pointers. The locales \<open>worker_view\<close> and \<open>worker_pool\<close> state what routing relies on; the registry
      interprets them. \<open>router_step\<close> interleaves requests and registrations at the points where
      \<open>Predict\<close> gives up the lock.
    - \<open>Queue\<close>, \<open>Dispatcher\<close>, \<open>DispatchMachine\<close>, \<open>DispatchRun\<close>, \<open>Scheduler\<close>: the in-memory queue and the
      dispatcher. The locale \<open>work_queue\<close> states what users of a queue rely on, its extension
      \<open>accepting_queue\<close> that operations succeed while there is room. \<open>dispatch_step\<close> is an abstract
      machine on the observable state (calls, waiting jobs, results, dead letters, backoffs,
      counters); over any accepting queue, handling a message is one step of it.
    - \<open>Redis\<close>, \<open>RedisRun\<close>, \<open>RedisReplicas\<close>, \<open>Kafka\<close>, \<open>KafkaRun\<close>: the two network backends and the dispatcher on them. The
      client library is a record of functions; \<open>redis_documented\<close> and \<open>kafka_documented\<close> state what
      is relied on of the servers, over a view of their streams, offsets and pending lists, errors
      that come after the command was carried out included. A concrete server keeps each of them.
      \<open>Redis_sessions\<close> and \<open>Kafka_sessions\<close> run a consumer that is killed and started again; \<open>cluster_step\<close> is a
      command of one of several schedulers that share the Redis server, or a submission between them.
    - \<open>ModelRegistry\<close>, \<open>DeployerHandler\<close>, \<open>Deployer\<close>: the model deployer. SQL statements are functions
      on tables; the locale \<open>db_operation\<close> is the contract all writing operations share, each with
      its effect. \<open>deployer_reachable\<close> are the tables after any requests and failures.
    - \<open>Transactions\<close>, \<open>ApartRequests\<close>, \<open>ConcurrentDeploys\<close>: the registry's four writing operations statement by
      statement and row by row, as requests arrive at the same time and PostgreSQL interleaves their transactions at READ
      COMMITTED. \<open>registry_step\<close> is a step of any of them; \<open>alone_performs\<close> says that a transaction with nobody else at
      work is the operation of \<open>ModelRegistry\<close>.
    - \<open>Http\<close>, \<open>Auth\<close>, \<open>RateLimit\<close>, \<open>Gateway\<close>, \<open>GatewayEdge\<close>: the gateway, its middlewares as functions
      from handlers to handlers, composed as \<open>cmd/gateway/main.go\<close> does.
    - \<open>Metrics\<close>: the metrics each program registers, and the status the middleware's recorder sees.
    - \<open>Config\<close>, \<open>Fleet\<close>, \<open>Float64\<close>, \<open>Vehicle\<close>: settings, the fleet simulator, the \<open>float64\<close> operators and the readings
      of a vehicle; \<open>drive_loop\<close> is the loop of \<open>Fleet\<close> with the features it measures.
    - \<open>LoadTest\<close>, \<open>LoadRun\<close>: the load-test tool's requests and statistics, and its goroutines interleaved:
      \<open>load_step\<close> is a step of any of them.
    - \<open>Services\<close>: logging, tracing and the database connection, the gateway's routes, and \<open>main\<close> of each
      program: its events, the calls it defers, its goroutines with what each logs, and the exit status.
    - this theory: the properties that span components.

  What is shown. Router: selection is correct and optimal for the documented score, the registry is a map
  with expiry, every outcome of \<open>Predict\<close> is characterised, and a successful one came from a
  best worker even under interleaving. Scheduler: every job is published or dead-lettered exactly once after
  a bounded number of receptions, with the exact retries and backoffs, on the in-memory queue while the results channel
  has room, and on a reachable Redis server, there with any number of schedulers at work as long as none is killed; on the
  in-memory queue it comes to rest, and the cases in which it hangs or may lose a job. Redis and
  Kafka: what is delivered across crashes (at most once on Redis, by all schedulers together). Deployer: an invariant over all requests
  (one production version per model, audited by the events), all-or-nothing operations, round trips; of
  interleaved requests, that they equal some order one after the other while no two open ones are about one
  model, that key and ranges hold in any case, and that two deployments of one model can break the invariant.
  All services: the one result published for an accepted job is the answer of a best worker to what the client
  asked. Gateway: the chain's guards, isolation of clients, equality of the synchronous and asynchronous requests,
  and that the router is only ever asked well-typed requests. Programs: they exit with status 1
  if what they need cannot be reached, and otherwise run until the signal, even without a server that could listen,
  and release what they acquired. Clients: a vehicle's life with the readings it measures, and that the load test
  ends with the report on all its answers. Some lemmas and properties record where the code departs from its
  documentation.

  Bounds. Counters and lengths are natural numbers where Go's int cannot wrap within the model; words are
  kept where wrap-around is visible (attempt counts, latencies, backoffs, ids, ticks). A run of the consumer
  loop is driven by the list of what its \<open>select\<close> receives: n entries let it take n messages,
  and the properties of the scheduler say how many are enough, so no fuel is guessed. The loops on Redis and Kafka are driven by polls and fetches in the same
  way. The load test is a step relation on events; once it is told to stop, a measure bounds its steps. Exactness of the score is claimed for latencies and loads below 2^48, of percentiles for fewer than
  2^55 results.

  Parameters stand for what is outside the repository: the worker's HTTP server (\<open>call\<close>), the
  gRPC client (\<open>router\<close>, \<open>predict\<close>), the token bucket (\<open>new\<close>,
  \<open>allow\<close>), the failures of the database (\<open>db_calls\<close>, \<open>pg_call\<close>), what \<open>main\<close>
  finds outside (\<open>outside\<close>: dialling, listening, and how each server's call ends), the Prometheus registry, the
  Redis and Kafka clients (\<open>rc\<close>, \<open>kc\<close>), random generators, \<open>math.Sin\<close>, clocks, UUIDs,
  \<open>time.ParseDuration\<close>, the HTTP client of a vehicle or a load-test worker, and error texts of libraries.

  Not modelled: the text of JSON (numbers, times, escapes) and of protobuf, Unicode spaces in
  \<open>strings.TrimSpace\<close> and case folding beyond ASCII in JSON keys; float literals are taken as
  rounded once; the fused multiply-add a compiler may use in the score and in the readings; the data race between
  \<open>Heartbeat\<close> and readers of a snapshot (the model reads each field atomically); the serial
  ids of deployment events and isolation levels other than PostgreSQL's default; the unsynchronised map of Kafka writers; several
  schedulers in one Kafka group (which of them reads a partition is the broker's choice); the HTTP and
  gRPC servers, signals and timers behind \<open>main\<close>, and the interleaving of its goroutines; spans
  and the text of log lines; Python, deployment and monitoring files.
\<close>

section \<open>The gateway in front of the router\<close>

text \<open>
  The calls the gateway makes through its gRPC stub, when the server it is connected to is the model's router:
  what gRPC does between the two is this definition's assumption, not code of the repository. \<open>err_text\<close> renders a
  gRPC error, \<open>interfere\<close> is what other requests do to the registry during the worker's call.
\<close>

definition router_client ::
  "(grpc_error \<Rightarrow> string) \<Rightarrow> predict_clock \<Rightarrow> (string \<Rightarrow> body \<Rightarrow> http_result) \<Rightarrow> (Registry \<Rightarrow> Registry)
     \<Rightarrow> InferenceRequest \<Rightarrow> Registry \<Rightarrow> (string + InferenceResponse) \<times> Registry"
where
  "router_client err_text ck call interfere req reg =
     (case Server_Predict ck call interfere reg req of
        (Inl e, reg') \<Rightarrow> (Inl (err_text e), reg')
      | (Inr resp, reg') \<Rightarrow> (Inr resp, reg'))"

lemma router_client_Inr:
  "router_client err_text ck call interfere req reg = (Inr resp, reg') \<longleftrightarrow>
     Server_Predict ck call interfere reg req = (Inr resp, reg')"
  by (auto simp: router_client_def split: prod.splits sum.splits)

lemma view_wi_ID: "registry_wf r \<Longrightarrow> view r i = Some w \<Longrightarrow> wi_ID w = i"
  by (auto simp: view_def dest: registry_wfD(2))


text \<open>Names of precisions and priorities survive the way through the protocol.\<close>

definition known_precision :: "string \<Rightarrow> bool" where
  "known_precision p \<longleftrightarrow> p \<in> {PrecisionFP32, PrecisionFP16, PrecisionINT8, PrecisionINT4}"

lemma precision_through_protocol:
  "precisionToDomain (gateway_precisionToProto p) = (if known_precision p then p else [])"
  by (simp add: precisionToDomain_def gateway_precisionToProto_def known_precision_def pb_precision_defs)

lemma priority_through_protocol:
  "priorityToDomain (gateway_priorityToProto p) = priorityFromString p"
  by (simp add: priorityToDomain_def gateway_priorityToProto_def priorityFromString_def pb_priority_defs)

text \<open>
  The worker that answered was registered, live and eligible for the client's model and precision when the
  router chose, was called for the client's request and answered 200, and no eligible worker had a smaller
  score for the client's priority.
\<close>

definition answered_by_best ::
  "predict_clock \<Rightarrow> (string \<Rightarrow> body \<Rightarrow> http_result) \<Rightarrow> Registry \<Rightarrow> gw_env \<Rightarrow> inferRequest \<Rightarrow> Worker \<Rightarrow> bool"
where
  "answered_by_best ck call reg env req w \<longleftrightarrow>
     (let candidate = \<lambda>v. view reg (wi_ID v) = Some v \<and> live_cutoff (ck_snapshot ck) reg < wi_LastHeartbeat v \<and>
            eligible_for (iq_ModelName req) (if known_precision (iq_Precision req) then iq_Precision req else []) v;
          score = worker_score (priorityFromString (iq_Priority req))
      in candidate w
       \<and> (\<exists>raw b. call (w_Endpoint w @ ''/predict'') (worker_request_body (infer_request env req)) = Responded 200 raw b)
       \<and> (\<forall>v. candidate v \<longrightarrow> score w \<le> score v))"

lemma router_client_best:
  assumes wf: "registry_wf reg" and "heap_grows reg (interfere reg)"
    and "router_client err_text ck call interfere (infer_request env req) reg = (Inr resp, reg')"
  shows "\<exists>w. wi_ID w = resp_WorkerId resp \<and> answered_by_best ck call reg env req w"
proof -
  have ok: "Server_Predict ck call interfere reg (infer_request env req) = (Inr resp, reg')"
    using assms(3) by (simp add: router_client_Inr)
  have fields: "req_ModelName (infer_request env req) = iq_ModelName req"
    "precisionToDomain (req_PreferredPrecision (infer_request env req))
       = (if known_precision (iq_Precision req) then iq_Precision req else [])"
    "priorityToDomain (req_Priority (infer_request env req)) = priorityFromString (iq_Priority req)"
    by (simp_all add: infer_request_def precision_through_protocol priority_through_protocol)
  obtain w where w: "view reg (resp_WorkerId resp) = Some w"
    and rest: "live_cutoff (ck_snapshot ck) reg < wi_LastHeartbeat w \<and>
        eligible_for (iq_ModelName req) (if known_precision (iq_Precision req) then iq_Precision req else []) w"
      "\<exists>raw b. call (w_Endpoint w @ ''/predict'') (worker_request_body (infer_request env req)) = Responded 200 raw b"
      "\<And>i v. view reg i = Some v \<and> live_cutoff (ck_snapshot ck) reg < wi_LastHeartbeat v \<and>
          eligible_for (iq_ModelName req) (if known_precision (iq_Precision req) then iq_Precision req else []) v \<Longrightarrow>
        worker_score (priorityFromString (iq_Priority req)) w < worker_score (priorityFromString (iq_Priority req)) v \<or>
        worker_score (priorityFromString (iq_Priority req)) w = worker_score (priorityFromString (iq_Priority req)) v \<and>
          resp_WorkerId resp \<le> i"
    using Predict_answers_best [OF wf assms(2) ok] unfolding fields by blast
  have "wi_ID w = resp_WorkerId resp"
    using wf w view_wi_ID by blast
  then show ?thesis
    unfolding answered_by_best_def Let_def using w rest by (metis order_less_imp_le order_refl)
qed

text \<open>The gRPC client the scheduler holds: the \<open>n\<close>-th request it sends finds the registry \<open>reg n\<close>.\<close>

definition scheduler_router ::
  "(grpc_error \<Rightarrow> string) \<Rightarrow> (nat \<Rightarrow> predict_clock) \<Rightarrow> (nat \<Rightarrow> string \<Rightarrow> body \<Rightarrow> http_result)
     \<Rightarrow> (nat \<Rightarrow> Registry \<Rightarrow> Registry) \<Rightarrow> (nat \<Rightarrow> Registry) \<Rightarrow> nat \<Rightarrow> InferenceRequest \<Rightarrow> string + InferenceResponse"
where
  "scheduler_router err_text ck call interfere reg n req = fst (router_client err_text (ck n) (call n) (interfere n) req (reg n))"

text \<open>A job the gateway accepted, on its way through the scheduler.\<close>

lemma submitted_job_retryable:
  "list_all is_finite (iq_Features req) \<Longrightarrow> time_ok (ge_now env) \<Longrightarrow>
     retryable (submitted_job env req) \<and> budget (submitted_job env req) = 3 \<and> job_ID (submitted_job env req) = ge_uuid env"
  by (simp add: retryable_def budget_def submitted_job_def job_marshals_def)

lemma submitted_job_outcome:
  assumes "list_all is_finite (iq_Features req)" and "time_ok (ge_now env)"
    and "ob_jobs ob = [marshal_job (submitted_job env req)]" and "3 \<le> m"
  shows "ob_jobs ((dispatch_step d predict ^^ m) ob) = [] \<and>
    ((\<exists>i < 3. \<exists>resp. answered_at predict (infer_request env req) (length (ob_calls ob)) i resp \<and>
        ob_results ((dispatch_step d predict ^^ m) ob)
          = ob_results ob @ [marshal_result (dispatch_result (submitted_job env req) resp)] \<and>
        ob_dead ((dispatch_step d predict ^^ m) ob) = ob_dead ob)
     \<or> (\<forall>k < 3. \<exists>err. predict (length (ob_calls ob) + k) (infer_request env req) = Inl err) \<and>
        ob_results ((dispatch_step d predict ^^ m) ob) = ob_results ob \<and>
        ob_dead ((dispatch_step d predict ^^ m) ob)
          = ob_dead ob @ [marshal_job ((submitted_job env req)\<lparr>job_Attempt := 2\<rparr>)])"
proof -
  have j: "retryable (submitted_job env req)" "budget (submitted_job env req) = 3"
    using submitted_job_retryable [OF assms(1,2)] by simp_all
  have "job_Attempt (submitted_job env req) = 0"
    by (simp add: submitted_job_def)
  then show ?thesis
    using single_job_outcome [OF assms(3) j(1), of m d predict] assms(4) unfolding j(2) same_request [of env req] by simp
qed

lemma redis_job_outcome:
  assumes doc: "redis_documented rc V" and up: "redis_reachable rc V" and topics: "d_JobsTopic d \<noteq> d_ResultsTopic d"
    and accepted: "Handler_SubmitJob (Redis_ops rc) (d_JobsTopic d) env r s = Done (rep, s')" "rp_status rep = 202"
    and req: "checked_request (hq_Body r) = Inr req" "list_all is_finite (iq_Features req)" "time_ok (ge_now env)"
    and idle: "redis_waiting V ''scheduler'' (gw_queue s) (d_JobsTopic d) = []"
    and plain: "\<forall>x\<in>set (rv_entries V (gw_queue s) (d_JobsTopic d)). \<not> has_reason x"
    and old: "set (rv_pending V (gw_queue s) (d_JobsTopic d) ''scheduler'')
      \<subseteq> xm_ID ` set (take (rv_cursor V (gw_queue s) (d_JobsTopic d) ''scheduler'') (rv_entries V (gw_queue s) (d_JobsTopic d)))"
    and world: "wd_queue w = gw_queue s'"
  shows "\<exists>w'. Redis_dispatch rc d predict [Poll, Poll, Poll] w = (Running, w')
    \<and> redis_waiting V ''scheduler'' (wd_queue w') (d_JobsTopic d) = []
    \<and> job_ID (submitted_job env req) = ge_uuid env
    \<and> ((\<exists>i < 3. \<exists>resp. answered_at predict (infer_request env req) (length (wd_calls w)) i resp \<and>
          redis_waiting V ''scheduler'' (wd_queue w') (d_ResultsTopic d) = redis_waiting V ''scheduler'' (gw_queue s) (d_ResultsTopic d)
            @ [marshal_result (dispatch_result (submitted_job env req) resp)] \<and>
          redis_dead V (wd_queue w') (d_JobsTopic d) = redis_dead V (gw_queue s) (d_JobsTopic d))
       \<or> (\<forall>k < 3. \<exists>err. predict (length (wd_calls w) + k) (infer_request env req) = Inl err) \<and>
          redis_waiting V ''scheduler'' (wd_queue w') (d_ResultsTopic d)
            = redis_waiting V ''scheduler'' (gw_queue s) (d_ResultsTopic d) \<and>
          redis_dead V (wd_queue w') (d_JobsTopic d) = redis_dead V (gw_queue s) (d_JobsTopic d)
            @ [marshal_job ((submitted_job env req)\<lparr>job_Attempt := 2\<rparr>)])"
proof -
  let ?job = "submitted_job env req"
  note queue = accepting_queue.axioms(1) [OF redis_accepting [OF doc up, where grp = "''scheduler''"]]
  have enq: "rc_XAdd rc \<lparr>xa_Stream = d_JobsTopic d, xa_Values = [(''payload'', marshal_job ?job)]\<rparr> (gw_queue s)
      = (None, gw_queue s')"
    using submit_enqueues [OF accepted req(1)] by (simp add: Redis_ops_def Redis_Enqueue_def)
  have q: "redis_waiting V ''scheduler'' (gw_queue s')
      = (redis_waiting V ''scheduler'' (gw_queue s)) (d_JobsTopic d := [marshal_job ?job])"
    "redis_dead V (gw_queue s') = redis_dead V (gw_queue s)"
    using work_queue.enqueue_ok [OF queue submit_enqueues [OF accepted req(1)]] idle by auto
  have ok: "batch_ok V d (rv_pending V (gw_queue s) (d_JobsTopic d) ''scheduler'') [] (gw_queue s)"
    unfolding batch_ok_start using plain old by blast
  have added: "appended V \<lparr>xa_Stream = d_JobsTopic d, xa_Values = [(''payload'', marshal_job ?job)]\<rparr> (gw_queue s) (gw_queue s')"
    using redis_added(2) [OF doc enq] by simp
  have "batch_ok V d (rv_pending V (gw_queue s) (d_JobsTopic d) ''scheduler'') [] (wd_queue w)"
    unfolding world by (rule batch_ok_added [OF doc ok redis_added(1) [OF doc enq] disjI1 [OF added]]) simp
  from dispatch_runs [OF doc up topics this, where predict = predict and k = 3] obtain w' n where
    run: "Redis_dispatch rc d predict (replicate 3 Poll) w = (Running, w')" and "3 \<le> n"
    and ob: "redis_observe V d [] w' = (dispatch_step d predict ^^ n) (redis_observe V d [] w)"
    by blast
  have "ob_jobs (redis_observe V d [] w) = [marshal_job ?job]"
    by (simp add: redis_observe_def dispatch_view_def world q)
  from submitted_job_outcome [OF req(2,3) this \<open>3 \<le> n\<close>, of d predict] submitted_job_retryable [OF req(2,3)] run topics
  show ?thesis
    unfolding ob [symmetric] by (simp add: redis_observe_def dispatch_view_def world q numeral_3_eq_3)
qed

text \<open>The job of the instances, submitted to a concrete server.\<close>

abbreviation demo_env :: gw_env where
  "demo_env \<equiv> \<lparr>ge_uuid = ''u1'', ge_now = 0\<rparr>"

lemma demo_redis_submission:
  obtains q' where "Handler_SubmitJob (Redis_ops demo_client) (d_JobsTopic demo_dispatch) demo_env (demo_http [])
      \<lparr>gw_queue = wd_queue (demo_server []), gw_router = ()\<rparr>
      = Done (writeJSON 202 (JObj [(''job_id'', JStr ''u1'')]), \<lparr>gw_queue = q', gw_router = ()\<rparr>)"
    and "redis_waiting demo_view ''scheduler'' q' ''jobs'' = [marshal_job (submitted_job demo_env demo_infer)]"
proof -
  let ?q = "wd_queue (demo_server [])"
  note queue = accepting_queue.axioms(1) [OF redis_accepting [OF demo_documented demo_redis_reachable, where grp = "''scheduler''"]]
  obtain q' where q': "q_Enqueue (Redis_ops demo_client) ''jobs'' (marshal_job (submitted_job demo_env demo_infer)) ?q = Done (None, q')"
    using demo_redis_reachable by (simp add: Redis_ops_def Redis_Enqueue_def redis_reachable_def prod_eq_iff)
  have "Handler_SubmitJob (Redis_ops demo_client) (d_JobsTopic demo_dispatch) demo_env (demo_http []) \<lparr>gw_queue = ?q, gw_router = ()\<rparr>
      = Done (writeJSON 202 (JObj [(''job_id'', JStr ''u1'')]), \<lparr>gw_queue = q', gw_router = ()\<rparr>)"
    using q' by (simp add: Handler_SubmitJob_def demo_checked Let_def) (simp add: submitted_job_def)
  moreover have "redis_waiting demo_view ''scheduler'' q' ''jobs'' = [marshal_job (submitted_job demo_env demo_infer)]"
    using work_queue.enqueue_ok [OF queue q'] by (simp add: demo_server_parts)
  ultimately show ?thesis
    by (rule that)
qed

lemma demo_infer_ok: "list_all is_finite (iq_Features demo_infer)" "time_ok 0"
  by (simp_all add: demo_infer_def is_finite_def time_ok_def)

section \<open>Properties\<close>

text \<open>Precision and priority mean the same to all services: what the client wrote reaches the
  router's selection unchanged, on the synchronous way and through the job queue alike; an
  unknown precision becomes the empty one and an unknown priority the normal one.\<close>

lemma conversions_agree:
  "precisionToDomain (gateway_precisionToProto p) =
      (if p \<in> {PrecisionFP32, PrecisionFP16, PrecisionINT8, PrecisionINT4} then p else [])
    \<and> scheduler_precisionToProto p = gateway_precisionToProto p
    \<and> scheduler_priorityToProto (priorityFromString q) = gateway_priorityToProto q
    \<and> priorityToDomain (gateway_priorityToProto q) = priorityFromString q"
  using precision_through_protocol [of p] priority_through_protocol [of q] precision_agrees priority_agrees [of q]
  by (simp add: known_precision_def)



text \<open>C2: end to end on the default backend: a job the gateway answered 202 for, on a reachable Redis server
  with no job waiting, is over after the scheduler polled three times: the router's first answer is published
  or, after three refusals, the job is dead-lettered, under the id the client was given; never both, and
  nothing is left waiting.
  What the group was given earlier and never acknowledged stays as it was.\<close>

theorem job_settles_on_redis:
  assumes doc: "redis_documented rc V" and up: "redis_reachable rc V" and topics: "d_JobsTopic d \<noteq> d_ResultsTopic d"
    and accepted: "Handler_SubmitJob (Redis_ops rc) (d_JobsTopic d) env r s = Done (rep, s')" "rp_status rep = 202"
    and req: "checked_request (hq_Body r) = Inr req" "list_all is_finite (iq_Features req)" "time_ok (ge_now env)"
    and idle: "redis_waiting V ''scheduler'' (gw_queue s) (d_JobsTopic d) = []"
    and plain: "\<forall>x\<in>set (rv_entries V (gw_queue s) (d_JobsTopic d)). \<not> has_reason x"
    and old: "set (rv_pending V (gw_queue s) (d_JobsTopic d) ''scheduler'')
      \<subseteq> xm_ID ` set (take (rv_cursor V (gw_queue s) (d_JobsTopic d) ''scheduler'') (rv_entries V (gw_queue s) (d_JobsTopic d)))"
    and world: "wd_queue w = gw_queue s'"
  shows "\<exists>w'. Redis_dispatch rc d predict [Poll, Poll, Poll] w = (Running, w')
    \<and> redis_waiting V ''scheduler'' (wd_queue w') (d_JobsTopic d) = []
    \<and> job_ID (submitted_job env req) = ge_uuid env
    \<and> ((\<exists>i < 3. \<exists>resp. answered_at predict (infer_request env req) (length (wd_calls w)) i resp \<and>
          redis_waiting V ''scheduler'' (wd_queue w') (d_ResultsTopic d) = redis_waiting V ''scheduler'' (gw_queue s) (d_ResultsTopic d)
            @ [marshal_result (dispatch_result (submitted_job env req) resp)] \<and>
          redis_dead V (wd_queue w') (d_JobsTopic d) = redis_dead V (gw_queue s) (d_JobsTopic d))
       \<or> (\<forall>k < 3. \<exists>err. predict (length (wd_calls w) + k) (infer_request env req) = Inl err) \<and>
          redis_waiting V ''scheduler'' (wd_queue w') (d_ResultsTopic d)
            = redis_waiting V ''scheduler'' (gw_queue s) (d_ResultsTopic d) \<and>
          redis_dead V (wd_queue w') (d_JobsTopic d) = redis_dead V (gw_queue s) (d_JobsTopic d)
            @ [marshal_job ((submitted_job env req)\<lparr>job_Attempt := 2\<rparr>)])"
  by (rule redis_job_outcome [OF assms])

theorem job_settles_on_redis_witness:
  "\<exists>w'. fst (Redis_dispatch demo_client demo_dispatch (\<lambda>n req. Inl ''down'') [Poll, Poll, Poll] w') = Running
    \<and> redis_waiting demo_view ''scheduler'' (wd_queue w') ''jobs'' = [marshal_job (submitted_job \<lparr>ge_uuid = ''u1'', ge_now = 0\<rparr> demo_infer)]"
proof -
  obtain q' where run: "Handler_SubmitJob (Redis_ops demo_client) (d_JobsTopic demo_dispatch) demo_env (demo_http [])
      \<lparr>gw_queue = wd_queue (demo_server []), gw_router = ()\<rparr>
      = Done (writeJSON 202 (JObj [(''job_id'', JStr ''u1'')]), \<lparr>gw_queue = q', gw_router = ()\<rparr>)"
    and waiting: "redis_waiting demo_view ''scheduler'' q' ''jobs'' = [marshal_job (submitted_job demo_env demo_infer)]"
    by (rule demo_redis_submission)
  then show ?thesis
    using demo_infer_ok job_settles_on_redis [OF demo_documented demo_redis_reachable _ run _ demo_checked,
        of "demo_server []\<lparr>wd_queue := q'\<rparr>" "\<lambda>n req. Inl ''down''"]
    by (intro exI [of _ "demo_server []\<lparr>wd_queue := q'\<rparr>"]) (auto simp: demo_server_parts)
qed

text \<open>C1: through all services, on the default backend: a job the gateway answered 202 for, on a reachable Redis server
  with no job waiting, is over after the scheduler polled three times. Either one result is published, under the
  id the client was given, and it names a worker that was registered, live and eligible when the router chose,
  was called for the client's model, precision and features and answered 200, none eligible having had a smaller score for
  the client's priority; or the router refused the job three times and it is dead-lettered.\<close>

theorem published_result_from_best_worker:
  fixes err_text ck call interfere reg
  defines "predict \<equiv> scheduler_router err_text ck call interfere reg"
  assumes doc: "redis_documented rc V" and up: "redis_reachable rc V" and topics: "d_JobsTopic d \<noteq> d_ResultsTopic d"
    and accepted: "Handler_SubmitJob (Redis_ops rc) (d_JobsTopic d) env r s = Done (rep, s')" "rp_status rep = 202"
    and req: "checked_request (hq_Body r) = Inr req" "list_all is_finite (iq_Features req)" "time_ok (ge_now env)"
    and idle: "redis_waiting V ''scheduler'' (gw_queue s) (d_JobsTopic d) = []"
    and plain: "\<forall>x\<in>set (rv_entries V (gw_queue s) (d_JobsTopic d)). \<not> has_reason x"
    and old: "set (rv_pending V (gw_queue s) (d_JobsTopic d) ''scheduler'')
      \<subseteq> xm_ID ` set (take (rv_cursor V (gw_queue s) (d_JobsTopic d) ''scheduler'') (rv_entries V (gw_queue s) (d_JobsTopic d)))"
    and world: "wd_queue w = gw_queue s'"
    and router: "\<forall>n. registry_wf (reg n) \<and> heap_grows (reg n) (interfere n (reg n))"
  shows "\<exists>w'. Redis_dispatch rc d predict [Poll, Poll, Poll] w = (Running, w')
    \<and> redis_waiting V ''scheduler'' (wd_queue w') (d_JobsTopic d) = []
    \<and> ((\<exists>n res v. redis_waiting V ''scheduler'' (wd_queue w') (d_ResultsTopic d)
            = redis_waiting V ''scheduler'' (gw_queue s) (d_ResultsTopic d) @ [marshal_result res] \<and>
          res_JobID res = ge_uuid env \<and> res_WorkerID res = wi_ID v \<and> answered_by_best (ck n) (call n) (reg n) env req v \<and>
          redis_dead V (wd_queue w') (d_JobsTopic d) = redis_dead V (gw_queue s) (d_JobsTopic d))
       \<or> (\<forall>k < 3. \<exists>err. predict (length (wd_calls w) + k) (infer_request env req) = Inl err) \<and>
          redis_waiting V ''scheduler'' (wd_queue w') (d_ResultsTopic d)
            = redis_waiting V ''scheduler'' (gw_queue s) (d_ResultsTopic d) \<and>
          redis_dead V (wd_queue w') (d_JobsTopic d) = redis_dead V (gw_queue s) (d_JobsTopic d)
            @ [marshal_job ((submitted_job env req)\<lparr>job_Attempt := 2\<rparr>)])"
proof -
  have best: "\<exists>v. wi_ID v = resp_WorkerId resp \<and>
      answered_by_best (ck (n + i)) (call (n + i)) (reg (n + i)) env req v"
    if "answered_at predict (infer_request env req) n i resp" for n i resp
    using that router router_client_best [of "reg (n + i)" "interfere (n + i)"]
    by (simp add: answered_at_def predict_def scheduler_router_def) (metis prod.collapse)
  have id: "res_JobID (dispatch_result (submitted_job env req) resp) = ge_uuid env"
    "res_WorkerID (dispatch_result (submitted_job env req) resp) = resp_WorkerId resp" for resp
    by (simp_all add: dispatch_result_def submitted_job_def)
  show ?thesis
    using redis_job_outcome [OF doc up topics accepted req idle plain old world, of predict] best id by metis
qed

theorem published_result_from_best_worker_witness:
  "\<exists>w w'. Redis_dispatch demo_client demo_dispatch
       (scheduler_router (\<lambda>_. []) (\<lambda>n. demo_clock) (\<lambda>n. demo_call) (\<lambda>n. id) (\<lambda>n. demo_registry)) [Poll, Poll, Poll] w = (Running, w')
    \<and> redis_waiting demo_view ''scheduler'' (wd_queue w) ''jobs'' = [marshal_job (submitted_job \<lparr>ge_uuid = ''u1'', ge_now = 0\<rparr> demo_infer)]
    \<and> redis_waiting demo_view ''scheduler'' (wd_queue w') ''jobs'' = []"
proof -
  obtain q' where run: "Handler_SubmitJob (Redis_ops demo_client) (d_JobsTopic demo_dispatch) demo_env (demo_http [])
      \<lparr>gw_queue = wd_queue (demo_server []), gw_router = ()\<rparr>
      = Done (writeJSON 202 (JObj [(''job_id'', JStr ''u1'')]), \<lparr>gw_queue = q', gw_router = ()\<rparr>)"
    and waiting: "redis_waiting demo_view ''scheduler'' q' ''jobs'' = [marshal_job (submitted_job demo_env demo_infer)]"
    by (rule demo_redis_submission)
  then obtain w' where "Redis_dispatch demo_client demo_dispatch
      (scheduler_router (\<lambda>_. []) (\<lambda>n. demo_clock) (\<lambda>n. demo_call) (\<lambda>n. id) (\<lambda>n. demo_registry)) [Poll, Poll, Poll]
      (demo_server []\<lparr>wd_queue := q'\<rparr>) = (Running, w')" "redis_waiting demo_view ''scheduler'' (wd_queue w') ''jobs'' = []"
    using demo_infer_ok demo_registry_wf published_result_from_best_worker [OF demo_documented demo_redis_reachable _ run _ demo_checked,
        of "demo_server []\<lparr>wd_queue := q'\<rparr>" "\<lambda>n. demo_registry" "\<lambda>n. id" "\<lambda>_. []" "\<lambda>n. demo_clock" "\<lambda>n. demo_call"]
    by (auto simp: demo_server_parts)
  moreover have "redis_waiting demo_view ''scheduler'' (wd_queue (demo_server []\<lparr>wd_queue := q'\<rparr>)) ''jobs''
      = [marshal_job (submitted_job demo_env demo_infer)]"
    using waiting by simp
  ultimately show ?thesis
    by blast
qed

text \<open>C21: every request the router is sent is well typed, whatever clients and queue payloads contain: its
  precision and priority are values the protocol declares and its features are single-precision
  numbers. So routers that agree on such requests give the same replies and the same runs
  of the scheduler, and all requests the scheduler records are of this kind.\<close>

theorem requests_are_well_typed:
  assumes "\<forall>q. wf_request q \<longrightarrow> router q = router' q" and "\<forall>n q. wf_request q \<longrightarrow> predict n q = predict' n q"
    and "list_all wf_request (wd_calls s)"
  shows "Handler_Infer router env r g = Handler_Infer router' env r g
    \<and> Dispatcher_Run ctx pick d predict cs s = Dispatcher_Run ctx pick d predict' cs s
    \<and> list_all wf_request (wd_calls (snd (Dispatcher_Run ctx pick d predict cs s)))"
proof -
  have "Handler_Infer router env r g = Handler_Infer router' env r g"
    using assms(1) by (simp add: Handler_Infer_def split: sum.split)
  then show ?thesis
    using assms(3)
    by (simp add: Dispatcher_Run_def Memory_Consume_def on_message_asks_wf [OF assms(2)] loop_records_wf)
qed

theorem requests_are_well_typed_witness:
  "list_all wf_request (wd_calls (snd (Dispatcher_Run None True demo_dispatch
     (\<lambda>n req. if wf_request req then Inr demo_answer else Inl ''bad enum'') [TakeMsg] (demo_world 0 [demo_job]))))"
  by (rule requests_are_well_typed [where predict' = "\<lambda>n req. Inr demo_answer" and router = "\<lambda>q (s :: unit). (Inl [], s)"
      and router' = "\<lambda>q s. (Inl [], s)", THEN conjunct2, THEN conjunct2]) simp_all

end
